(* ===== verification/Prelude.thy ===== *)
theory Prelude
  imports Main "HOL-Library.Word" "HOL-Library.AList" "HOL-Library.Multiset"
begin

text \<open>
  Shared vocabulary of the development: Go's fixed-width integers, the outcome of a Go call
  (it returns, it panics, or it never returns), the sequencing combinator the handlers are
  written with, a small partial-correctness calculus for it, and the generic facts on
  association lists and cardinalities that the components use.
\<close>

named_theorems go_simps \<open>evaluation of sequenced Go calls\<close>
named_theorems go_all_intro \<open>rules for facts that hold whenever a Go call returns\<close>

section \<open>Machine integers\<close>

text \<open>
  A Go \<open>int\<close> (and so a \<open>types.View\<close>) is an \<open>int\<close> here, and every addition or
  subtraction the code performs on one is wrapped by \<open>i64\<close> (two's complement, 64 bits).
  \<open>u64\<close> is the conversion \<open>uint64(x)\<close>.
\<close>

definition i64 :: "int \<Rightarrow> int" where
  "i64 x = (x + 2 ^ 63) mod 2 ^ 64 - 2 ^ 63"

definition u64 :: "int \<Rightarrow> nat" where
  "u64 x = nat (x mod 2 ^ 64)"

definition is_i64 :: "int \<Rightarrow> bool" where
  "is_i64 x \<longleftrightarrow> - (2 ^ 63) \<le> x \<and> x < 2 ^ 63"

lemma i64_range: "- (2 ^ 63) \<le> i64 x \<and> i64 x < 2 ^ 63"
proof -
  have "0 \<le> (x + 2 ^ 63) mod 2 ^ 64" and "(x + 2 ^ 63) mod 2 ^ 64 < (2 ^ 64 :: int)"
    by simp_all
  then show ?thesis by (simp add: i64_def)
qed

lemma is_i64_i64 [simp, intro]: "is_i64 (i64 x)"
  using i64_range [of x] by (simp add: is_i64_def)

lemma i64_id: "is_i64 x \<Longrightarrow> i64 x = x"
  by (simp add: i64_def is_i64_def)

lemma i64_nonneg_id: "0 \<le> x \<Longrightarrow> x < 2 ^ 63 \<Longrightarrow> i64 x = x"
  by (simp add: i64_def)

lemma i64_succ: "is_i64 x \<Longrightarrow> x < 2 ^ 63 - 1 \<Longrightarrow> i64 (x + 1) = x + 1"
  by (simp add: i64_def is_i64_def)

lemma i64_pred: "is_i64 x \<Longrightarrow> - (2 ^ 63) < x \<Longrightarrow> i64 (x - 1) = x - 1"
  by (simp add: i64_def is_i64_def)

lemma dvd_i64_diff:
  assumes "is_i64 x" "is_i64 y" "(2 ^ 64 :: int) dvd (x - y)"
  shows "x = y"
proof -
  have "\<bar>x - y\<bar> < 2 ^ 64"
    using assms(1,2) by (auto simp: is_i64_def abs_less_iff)
  with assms(3) show ?thesis
    using dvd_imp_le_int [of "x - y" "2 ^ 64"] by fastforce
qed

lemma i64_succ_inj:
  assumes "is_i64 x" "is_i64 y" "i64 (x + 1) = i64 (y + 1)"
  shows "x = y"
proof -
  from assms(3) have "(x + 1 + 2 ^ 63) mod 2 ^ 64 = (y + 1 + 2 ^ 63) mod (2 ^ 64 :: int)"
    by (simp add: i64_def)
  then have "(2 ^ 64 :: int) dvd (x - y)"
    by (simp add: mod_eq_dvd_iff)
  with assms(1,2) show ?thesis by (rule dvd_i64_diff)
qed

lemma u64_nonneg: "0 \<le> x \<Longrightarrow> x < 2 ^ 64 \<Longrightarrow> u64 x = nat x"
  by (simp add: u64_def)

lemma u64_less: "u64 x < 2 ^ 64"
proof -
  have "x mod 2 ^ 64 < (2 ^ 64 :: int)" by simp
  then show ?thesis by (simp add: u64_def nat_less_iff)
qed

lemma u64_inj:
  assumes "is_i64 x" "is_i64 y" "u64 x = u64 y"
  shows "x = y"
proof -
  from assms(3) have "x mod 2 ^ 64 = y mod (2 ^ 64 :: int)"
    by (simp add: u64_def eq_nat_nat_iff)
  then have "(2 ^ 64 :: int) dvd (x - y)"
    by (simp add: mod_eq_dvd_iff)
  with assms(1,2) show ?thesis by (rule dvd_i64_diff)
qed

lemma u64_mono_nonneg: "0 \<le> x \<Longrightarrow> x < y \<Longrightarrow> is_i64 y \<Longrightarrow> u64 x < u64 y"
  by (simp add: u64_def is_i64_def nat_less_iff)

section \<open>Outcomes of Go calls\<close>

text \<open>
  A call returns a value, stops the process (a run-time panic, an explicit \<open>panic\<close> or
  \<open>log.Fatal\<close>), or runs forever. The third case is \<open>None\<close>, so that a loop that may
  not stop is a \<^theory_text>\<open>partial_function (option)\<close>.
\<close>

datatype panic =
    IndexOutOfRange
  | NilDereference
  | DivideByZero
  | ExplicitPanic
  | LogFatal
  | MakeSliceRange
  | ClosedChannel
  | NilMapWrite

datatype 'a outcome = Ret 'a | Panic panic

type_synonym 'a go = "'a outcome option"

abbreviation retG :: "'a \<Rightarrow> 'a go" where
  "retG x \<equiv> Some (Ret x)"

abbreviation panicG :: "panic \<Rightarrow> 'a go" where
  "panicG p \<equiv> Some (Panic p)"

definition bindG :: "'a go \<Rightarrow> ('a \<Rightarrow> 'b go) \<Rightarrow> 'b go" where
  "bindG m f = Option.bind m (\<lambda>r. case r of Ret x \<Rightarrow> f x | Panic p \<Rightarrow> panicG p)"

lemma bindG_Ret [simp, go_simps]: "bindG (retG x) f = f x"
  by (simp add: bindG_def)

lemma bindG_Panic [simp, go_simps]: "bindG (panicG p) f = panicG p"
  by (simp add: bindG_def)

lemma bindG_None [simp, go_simps]: "bindG None f = None"
  by (simp add: bindG_def)

lemma bindG_eq_Ret:
  "bindG m f = retG y \<longleftrightarrow> (\<exists>x. m = retG x \<and> f x = retG y)"
  by (cases m) (auto simp: bindG_def split: outcome.splits)

lemma bindG_RetE:
  assumes "bindG m f = retG y"
  obtains x where "m = retG x" and "f x = retG y"
  using assms by (auto simp: bindG_eq_Ret)

lemma bindG_eq_Panic:
  "bindG m f = panicG p \<longleftrightarrow> m = panicG p \<or> (\<exists>x. m = retG x \<and> f x = panicG p)"
  by (cases m) (auto simp: bindG_def split: outcome.splits)

lemma bindG_eq_None:
  "bindG m f = None \<longleftrightarrow> m = None \<or> (\<exists>x. m = retG x \<and> f x = None)"
  by (cases m) (auto simp: bindG_def split: outcome.splits)

lemma bindG_assoc: "bindG (bindG m f) g = bindG m (\<lambda>x. bindG (f x) g)"
  by (cases m) (auto simp: bindG_def split: outcome.splits)

lemma bindG_mono [partial_function_mono]:
  assumes "mono_option B" and "\<And>y. mono_option (\<lambda>f. C y f)"
  shows "mono_option (\<lambda>f. bindG (B f) (\<lambda>y. C y f))"
proof -
  have "mono_option (\<lambda>f. case r of Ret x \<Rightarrow> C x f | Panic p \<Rightarrow> panicG p)" for r
    using assms(2) by (cases r) (simp_all add: option.const_mono)
  with assms(1) show ?thesis
    unfolding bindG_def by (intro bind_mono)
qed

subsection \<open>Facts that hold whenever a call returns\<close>

definition go_all :: "('a \<Rightarrow> bool) \<Rightarrow> 'a go \<Rightarrow> bool" where
  "go_all P m \<longleftrightarrow> (\<forall>x. m = retG x \<longrightarrow> P x)"

definition returns :: "'a go \<Rightarrow> bool" where
  "returns m \<longleftrightarrow> (\<exists>x. m = retG x)"

lemma go_allI [intro?]: "(\<And>x. m = retG x \<Longrightarrow> P x) \<Longrightarrow> go_all P m"
  by (simp add: go_all_def)

lemma go_allD: "go_all P m \<Longrightarrow> m = retG x \<Longrightarrow> P x"
  by (simp add: go_all_def)

lemma go_all_simps [simp]:
  "go_all P (retG x) = P x"
  "go_all P (panicG p) = True"
  "go_all P None = True"
  by (simp_all add: go_all_def)

lemma go_all_bind:
  "go_all Q m \<Longrightarrow> (\<And>x. Q x \<Longrightarrow> go_all P (f x)) \<Longrightarrow> go_all P (bindG m f)"
  by (auto simp: go_all_def bindG_eq_Ret)

lemma go_all_bind_any: "(\<And>x. go_all P (f x)) \<Longrightarrow> go_all P (bindG m f)"
  by (auto simp: go_all_def bindG_eq_Ret)

lemma go_all_bind_iff: "go_all P (bindG m f) \<longleftrightarrow> go_all (\<lambda>x. go_all P (f x)) m"
  by (auto simp: go_all_def bindG_eq_Ret)

lemma go_all_mono: "go_all P m \<Longrightarrow> (\<And>x. P x \<Longrightarrow> Q x) \<Longrightarrow> go_all Q m"
  by (simp add: go_all_def)

lemma go_all_conj: "go_all P m \<Longrightarrow> go_all Q m \<Longrightarrow> go_all (\<lambda>x. P x \<and> Q x) m"
  by (simp add: go_all_def)

lemma go_all_True [simp]: "go_all (\<lambda>_. True) m"
  by (simp add: go_all_def)

lemma returns_simps [simp]:
  "returns (retG x)" "\<not> returns (panicG p)" "\<not> returns None"
  by (simp_all add: returns_def)

lemma returns_bind: "returns m \<Longrightarrow> go_all (\<lambda>x. returns (f x)) m \<Longrightarrow> returns (bindG m f)"
  by (auto simp: returns_def go_all_def)

section \<open>Approximation\<close>

text \<open>\<open>m\<close> has no result yet, or the result of \<open>m'\<close>: the order in which the recursive handlers are least.\<close>

definition approximates :: "'a go \<Rightarrow> 'a go \<Rightarrow> bool" where
  "approximates m m' \<longleftrightarrow> m = None \<or> m = m'"

lemma approximates_refl: "approximates m m"
  by (simp add: approximates_def)

lemma approximates_bind:
  "approximates m m' \<Longrightarrow> (\<And>x. approximates (k x) (k' x)) \<Longrightarrow> approximates (bindG m k) (bindG m' k')"
  unfolding approximates_def by (cases m') (fastforce simp: bindG_def split: outcome.split)+

lemma approximates_cases:
  "(x = None \<Longrightarrow> approximates a a') \<Longrightarrow> (\<And>y. x = Some y \<Longrightarrow> approximates (b y) (b' y)) \<Longrightarrow>
     approximates (case x of None \<Rightarrow> a | Some y \<Rightarrow> b y) (case x of None \<Rightarrow> a' | Some y \<Rightarrow> b' y)"
  "(\<And>y z. p = (y, z) \<Longrightarrow> approximates (d y z) (d' y z)) \<Longrightarrow>
     approximates (case p of (y, z) \<Rightarrow> d y z) (case p of (y, z) \<Rightarrow> d' y z)"
  "(q \<Longrightarrow> approximates a a') \<Longrightarrow> (\<not> q \<Longrightarrow> approximates e e') \<Longrightarrow>
     approximates (if q then a else e) (if q then a' else e')"
  by (simp_all split: option.split prod.split)

lemma approximatesD: "approximates m m' \<Longrightarrow> m = Some r \<Longrightarrow> m' = Some r"
  by (auto simp: approximates_def)

section \<open>Errors as values\<close>

text \<open>
  One constructor per \<open>fmt.Errorf\<close> or \<open>errors.New\<close> of the modelled code; a wrapped
  error (\<open>%w\<close>) is the constructor's argument. A Go result \<open>(x, error)\<close> is
  \<open>go_error + 'a\<close>.
\<close>

type_synonym Identifier = "256 word"
type_synonym NodeID = string
type_synonym View = int

datatype go_error =
    BlockNotExist Identifier
  | ParentNotExist Identifier
  | CannotGetParent go_error
  | CannotFindBlock Identifier
  | LowestLevelTooSmall nat nat
  | CannotPrune go_error
  | ConflictingVertices Identifier
  | InvalidVertex go_error
  | ParentLevelNotSmaller nat nat
  | ParentLevelDiffers Identifier nat nat
  | SigsNotExist Identifier
  | BlockWithoutQC
  | InvalidLeader View NodeID
  | CannotVote go_error
  | CannotCommitAny go_error
  | CannotCommitBlocks
  | CannotUpdatePreferredView go_error
  | TargetViewTooLow
  | StaleBlock
  | CannotFindTheBlock
  | NotExtendingNotarized
  | InvalidHasherType
  | InvalidSignatureScheme
  | SigningFailed
  | AfterAttempts int go_error
  | ServerNotReady
  | HTTPStatus string
  | HistoryFormat
  | NumSyntax string
  | NumRange string
  | External string

section \<open>Association lists and cardinalities\<close>

lemma length_update_alist:
  "distinct (map fst al) \<Longrightarrow>
   length (AList.update k v al) = (if k \<in> fst ` set al then length al else Suc (length al))"
  by (induction al) auto

lemma distinct_keys_card: "distinct (map fst al) \<Longrightarrow> card (fst ` set al) = length al"
  by (metis distinct_card length_map set_map)

lemma quorums_overlap:
  fixes S T E :: "'a set" and n :: nat
  assumes fin: "finite E" and cardE: "card E \<le> n"
    and S: "S \<subseteq> E" "2 * n < 3 * card S"
    and T: "T \<subseteq> E" "2 * n < 3 * card T"
  shows "n < 3 * card (S \<inter> T)"
proof -
  have fS: "finite S" and fT: "finite T"
    using fin S(1) T(1) by (auto intro: finite_subset)
  have "card S + card T = card (S \<union> T) + card (S \<inter> T)"
    by (rule card_Un_Int [OF fS fT])
  moreover have "card (S \<union> T) \<le> n"
    using card_mono [OF fin, of "S \<union> T"] S(1) T(1) cardE by simp
  ultimately show ?thesis using S(2) T(2) by linarith
qed

lemma two_thirds_nat: "n * 2 div 3 < c \<longleftrightarrow> 2 * n < 3 * (c :: nat)"
  by arith

end
