(* ===== verification/Identity.thy ===== *)
theory Identity
  imports Prelude
begin

text \<open>
  Node identifiers (identity/identity.go): decimal numerals written by \<open>strconv.Itoa\<close> and
  read back by \<open>strconv.ParseUint\<close>. The decimal printing and parsing of the Go standard
  library is written out here, since the signature encoding uses it too.
\<close>

section \<open>Decimal numerals\<close>

definition digit_char :: "nat \<Rightarrow> char" where
  "digit_char d = char_of (48 + d)"

definition digit_value :: "char \<Rightarrow> nat option" where
  "digit_value c = (let n = of_char c :: nat in if 48 \<le> n \<and> n \<le> 57 then Some (n - 48) else None)"

fun dec_digits :: "nat \<Rightarrow> string" where
  "dec_digits n = (if n < 10 then [digit_char n] else dec_digits (n div 10) @ [digit_char (n mod 10)])"

declare dec_digits.simps [simp del]

definition Itoa :: "int \<Rightarrow> string" where
  "Itoa x = (if x < 0 then CHR ''-'' # dec_digits (nat (- x)) else dec_digits (nat x))"

text \<open>Decimal digits read from the left, stopping at a bad character or past the bound.\<close>

fun parse_digits :: "nat option \<Rightarrow> nat \<Rightarrow> string \<Rightarrow> nat option" where
  "parse_digits bound n [] = Some n"
| "parse_digits bound n (c # cs) =
     (case digit_value c of
        None \<Rightarrow> None
      | Some d \<Rightarrow>
          (let n' = n * 10 + d
           in if (case bound of None \<Rightarrow> False | Some m \<Rightarrow> m \<le> n') then None
              else parse_digits bound n' cs))"

definition ParseUint :: "string \<Rightarrow> nat option" where
  "ParseUint s = (if s = [] then None else parse_digits (Some (2 ^ 64)) 0 s)"

lemma digit_value_char [simp]: "d < 10 \<Longrightarrow> digit_value (digit_char d) = Some d"
  by (simp add: digit_value_def digit_char_def Let_def)

lemma digit_char_simps [simp]:
  "digit_char 0 = CHR ''0''" "digit_char 1 = CHR ''1''" "digit_char 2 = CHR ''2''"
  "digit_char 3 = CHR ''3''" "digit_char 4 = CHR ''4''" "digit_char 5 = CHR ''5''"
  "digit_char 6 = CHR ''6''" "digit_char 7 = CHR ''7''" "digit_char 8 = CHR ''8''"
  "digit_char 9 = CHR ''9''"
  by code_simp+

lemma dec_digits_nonempty [simp]: "dec_digits n \<noteq> []"
  by (subst dec_digits.simps) simp

lemma parse_digits_append:
  "parse_digits b n (xs @ ys) = Option.bind (parse_digits b n xs) (\<lambda>m. parse_digits b m ys)"
  by (induction xs arbitrary: n) (auto simp: Let_def split: option.splits)

lemma parse_dec_digits:
  "(\<And>m. b = Some m \<Longrightarrow> n < m) \<Longrightarrow> parse_digits b 0 (dec_digits n) = Some n"
proof (induction n rule: dec_digits.induct)
  case (1 n)
  show ?case
  proof (cases "n < 10")
    case True
    with "1.prems" show ?thesis
      by (subst dec_digits.simps) (auto simp: Let_def split: option.splits)
  next
    case False
    have "parse_digits b 0 (dec_digits (n div 10)) = Some (n div 10)"
      using "1.IH" [OF False] "1.prems" by (meson div_le_dividend order.strict_trans1)
    moreover have "n div 10 * 10 + n mod 10 = n" by simp
    ultimately show ?thesis
      using False "1.prems"
      by (subst dec_digits.simps) (auto simp: parse_digits_append Let_def split: option.splits)
  qed
qed

lemma parse_digits_bound:
  "parse_digits (Some m) n s = Some k \<Longrightarrow> n < m \<Longrightarrow> k < m"
  by (induction s arbitrary: n) (auto simp: Let_def split: option.splits if_splits)

lemma ParseUint_dec_digits: "n < 2 ^ 64 \<Longrightarrow> ParseUint (dec_digits n) = Some n"
  by (auto simp: ParseUint_def intro!: parse_dec_digits)

lemma ParseUint_less: "ParseUint s = Some n \<Longrightarrow> n < 2 ^ 64"
  by (auto simp: ParseUint_def split: if_splits dest: parse_digits_bound)

lemma digit_value_zero [simp]: "digit_value (CHR ''0'') = Some 0"
  by (simp add: digit_value_def Let_def)

lemma ParseUint_leading_zero: "s \<noteq> [] \<Longrightarrow> ParseUint (CHR ''0'' # s) = ParseUint s"
  by (simp add: ParseUint_def Let_def)

section \<open>Node identifiers\<close>

definition NewNodeID :: "int \<Rightarrow> NodeID" where
  "NewNodeID node = Itoa (if node < 0 then i64 (- node) else node)"

definition Node :: "NodeID \<Rightarrow> int" where
  "Node i = (case ParseUint i of None \<Rightarrow> 0 | Some node \<Rightarrow> i64 (int node))"

lemma Node_is_i64 [simp, intro]: "is_i64 (Node i)"
  by (auto simp: Node_def is_i64_def [of 0] split: option.splits)

lemma Node_NewNodeID: "0 \<le> n \<Longrightarrow> n < 2 ^ 63 \<Longrightarrow> Node (NewNodeID n) = n"
  by (simp add: NewNodeID_def Node_def Itoa_def ParseUint_dec_digits i64_nonneg_id nat_less_iff)

lemma Node_leading_zero: "s \<noteq> [] \<Longrightarrow> Node (CHR ''0'' # s) = Node s"
  by (simp add: Node_def ParseUint_leading_zero)

lemma NewNodeID_inj:
  "0 \<le> m \<Longrightarrow> m < 2 ^ 63 \<Longrightarrow> 0 \<le> n \<Longrightarrow> n < 2 ^ 63 \<Longrightarrow> NewNodeID m = NewNodeID n \<longleftrightarrow> m = n"
  by (metis Node_NewNodeID)

text \<open>
  Printing a node number and reading it back gives the number, for every non-negative
  Go integer.
\<close>

theorem node_id_roundtrip:
  assumes "0 \<le> n" and "n < 2 ^ 63"
  shows "Node (NewNodeID n) = n"
  using assms by (rule Node_NewNodeID)

theorem node_id_roundtrip_witness: "Node (NewNodeID 42) = 42"
  by (rule node_id_roundtrip) simp_all

end
