(* ===== verification/Crypto.thy ===== *)
theory Crypto
  imports Identity
begin

text \<open>
  The crypto package: block identifiers (crypto/id.go), the SHA-3 hashers (crypto/sha3.go,
  crypto/hash.go), signatures and their textual encoding (crypto/signature.go,
  crypto/ecdsa.go), the key table and quorum signatures (crypto/sign.go).

  SHA-3 (golang.org/x/crypto), the curve arithmetic of ECDSA with its random source, and the
  derivation of a key pair from random bytes are parameters. A byte string is a \<open>string\<close>.
\<close>

section \<open>Identifiers\<close>

text \<open>
  An \<open>Identifier\<close> is an array of 32 bytes, kept as the 256-bit number whose big-endian bytes
  they are, so that every value of the type is an identifier.
\<close>

fun be_bytes :: "nat \<Rightarrow> nat \<Rightarrow> string" where
  "be_bytes 0 x = []"
| "be_bytes (Suc k) x = be_bytes k (x div 256) @ [char_of (x mod 256)]"

definition be_value :: "string \<Rightarrow> nat" where
  "be_value bs = foldl (\<lambda>n c. n * 256 + of_char c) 0 bs"

definition IDToByte :: "Identifier \<Rightarrow> string" where
  "IDToByte i = be_bytes 32 (unat i)"

text \<open>\<open>copy(id[:], hash)\<close>: at most 32 bytes are copied, the rest of the array stays zero.\<close>

definition HashToID :: "string \<Rightarrow> Identifier" where
  "HashToID hash = of_nat (be_value (take 32 (hash @ replicate 32 (char_of (0::nat)))))"

text \<open>
  \<open>MakeID\<close> hashes the encoded body; \<open>MustEncode\<close> panics when the encoder refuses the value.
\<close>

definition MakeID :: "('b \<Rightarrow> string option) \<Rightarrow> (string \<Rightarrow> string) \<Rightarrow> 'b \<Rightarrow> Identifier go" where
  "MakeID encode sha3_256 body =
     (case encode body of
        None \<Rightarrow> panicG ExplicitPanic
      | Some data \<Rightarrow> retG (HashToID (sha3_256 data)))"

lemma length_be_bytes [simp]: "length (be_bytes k x) = k"
  by (induction k arbitrary: x) simp_all

lemma be_value_snoc [simp]: "be_value (bs @ [c]) = be_value bs * 256 + of_char c"
  by (simp add: be_value_def)

lemma be_value_be_bytes: "be_value (be_bytes k x) = x mod 256 ^ k"
proof (induction k arbitrary: x)
  case 0
  then show ?case by (simp add: be_value_def)
next
  case (Suc k)
  have "x mod 256 ^ Suc k = (x div 256 mod 256 ^ k) * 256 + x mod 256"
    by (simp add: mod_mult2_eq [of x 256 "256 ^ k"])
  with Suc show ?case by simp
qed

lemma be_bytes_be_value: "be_bytes (length bs) (be_value bs) = bs"
proof (induction bs rule: rev_induct)
  case Nil
  then show ?case by simp
next
  case (snoc c bs)
  have "of_char c < (256 :: nat)" by (rule nat_of_char_less_256)
  with snoc show ?case by simp
qed

lemma be_value_less: "be_value bs < 256 ^ length bs"
proof (induction bs rule: rev_induct)
  case Nil
  then show ?case by (simp add: be_value_def)
next
  case (snoc c bs)
  have "of_char c < (256 :: nat)" by (rule nat_of_char_less_256)
  then have "be_value bs * 256 + of_char c < (be_value bs + 1) * 256" by simp
  also have "\<dots> \<le> 256 ^ length bs * 256"
    using snoc by (intro mult_le_mono1) simp
  finally show ?case by simp
qed

lemma HashToID_32: "length h = 32 \<Longrightarrow> HashToID h = of_nat (be_value h)"
  unfolding HashToID_def by (simp only: take_append take_all order_refl diff_self_eq_0 take_0 append_Nil2)

lemma HashToID_IDToByte: "HashToID (IDToByte i) = i"
proof -
  have "unat i < 2 ^ 256"
    using unsigned_less [of i, where ?'a = nat] by simp
  then have "be_value (IDToByte i) = unat i"
    unfolding IDToByte_def be_value_be_bytes by simp
  moreover have "length (IDToByte i) = 32"
    unfolding IDToByte_def by (rule length_be_bytes)
  ultimately show ?thesis by (simp add: HashToID_32)
qed

lemma IDToByte_HashToID:
  assumes "length h = 32"
  shows "IDToByte (HashToID h) = h"
proof -
  have "be_value h < 256 ^ 32" using be_value_less [of h] assms by simp
  then have "unat (of_nat (be_value h) :: Identifier) = be_value h"
    by (simp add: unat_of_nat)
  with assms show ?thesis
    using be_bytes_be_value [of h] by (simp add: HashToID_32 IDToByte_def)
qed

section \<open>SHA-3 hashers\<close>

datatype sha3_alg = SHA3_224 | SHA3_256 | SHA3_384 | SHA3_512

type_synonym sha3_fun = "sha3_alg \<Rightarrow> string \<Rightarrow> string"

text \<open>The documented output sizes of the four hash functions of golang.org/x/crypto/sha3.\<close>

fun sha3_size :: "sha3_alg \<Rightarrow> nat" where
  "sha3_size SHA3_224 = 28"
| "sha3_size SHA3_256 = 32"
| "sha3_size SHA3_384 = 48"
| "sha3_size SHA3_512 = 64"

definition sha3_sizes :: "sha3_fun \<Rightarrow> bool" where
  "sha3_sizes H \<longleftrightarrow> (\<forall>a d. length (H a d) = sha3_size a)"

text \<open>The constants \<open>HashLenSha3_224\<close> to \<open>HashLenSha3_512\<close> are all 32 in the source.\<close>

fun HashLen :: "sha3_alg \<Rightarrow> nat" where
  "HashLen SHA3_224 = 32"
| "HashLen SHA3_256 = 32"
| "HashLen SHA3_384 = 32"
| "HashLen SHA3_512 = 32"

record Hasher =
  h_alg :: sha3_alg
  outputSize :: nat
  h_written :: string

definition NewSHA3 :: "sha3_alg \<Rightarrow> Hasher" where
  "NewSHA3 a = \<lparr>h_alg = a, outputSize = HashLen a, h_written = []\<rparr>"

definition NewHasher :: "string \<Rightarrow> go_error + Hasher" where
  "NewHasher hashType =
     (if hashType = ''sha3_224'' then Inr (NewSHA3 SHA3_224)
      else if hashType = ''sha3_256'' then Inr (NewSHA3 SHA3_256)
      else if hashType = ''sha3_384'' then Inr (NewSHA3 SHA3_384)
      else if hashType = ''sha3_512'' then Inr (NewSHA3 SHA3_512)
      else Inl InvalidHasherType)"

definition h_Reset :: "Hasher \<Rightarrow> Hasher" where
  "h_Reset s = s\<lparr>h_written := []\<rparr>"

definition h_Write :: "Hasher \<Rightarrow> string \<Rightarrow> Hasher" where
  "h_Write s data = s\<lparr>h_written := h_written s @ data\<rparr>"

text \<open>\<open>Sum(b)\<close> appends the digest of what was written to \<open>b\<close>.\<close>

definition h_Sum :: "sha3_fun \<Rightarrow> Hasher \<Rightarrow> string \<Rightarrow> string" where
  "h_Sum H s b = b @ H (h_alg s) (h_written s)"

definition ComputeHash :: "sha3_fun \<Rightarrow> Hasher \<Rightarrow> string \<Rightarrow> Hasher \<times> string" where
  "ComputeHash H s data = (let s' = h_Write (h_Reset s) data in (s', h_Sum H s' []))"

text \<open>
  \<open>SumHash\<close> appends to \<open>digest[:0]\<close> and returns \<open>digest\<close>. Go's \<open>append\<close> writes into the
  array behind \<open>digest\<close> when the result fits its capacity, and into a new array, which the
  code drops, when it does not.
\<close>

definition append_in_place :: "string \<Rightarrow> string \<Rightarrow> string" where
  "append_in_place arr bs = (if length bs \<le> length arr then bs @ drop (length bs) arr else arr)"

definition SumHash :: "sha3_fun \<Rightarrow> Hasher \<Rightarrow> Hasher \<times> string" where
  "SumHash H s =
     (let digest = replicate (HashLen (h_alg s)) (char_of (0::nat))
      in (h_Reset s, append_in_place digest (h_Sum H s [])))"

lemma HashLen_32 [simp]: "HashLen a = 32"
  by (cases a) simp_all

lemma ComputeHash_value: "snd (ComputeHash H s data) = H (h_alg s) data"
  by (simp add: ComputeHash_def h_Sum_def h_Write_def h_Reset_def)

lemma length_SumHash: "length (snd (SumHash H s)) = 32"
  by (simp add: SumHash_def append_in_place_def Let_def)

lemma SumHash_256:
  "sha3_sizes H \<Longrightarrow> h_alg s = SHA3_256 \<Longrightarrow> snd (SumHash H s) = H SHA3_256 (h_written s)"
  by (simp add: SumHash_def append_in_place_def h_Sum_def sha3_sizes_def Let_def)

lemma SumHash_long:
  "sha3_sizes H \<Longrightarrow> h_alg s = SHA3_384 \<or> h_alg s = SHA3_512 \<Longrightarrow>
   snd (SumHash H s) = replicate 32 (char_of (0::nat))"
  by (auto simp: SumHash_def append_in_place_def h_Sum_def sha3_sizes_def Let_def)

section \<open>Signatures\<close>

type_synonym Signature = "string list"
type_synonym AggSig = "Signature list"

text \<open>
  \<open>big.Int.SetString(s, 10)\<close> on a fresh integer: an optional sign and decimal digits. The code
  drops the error result, so what counts is the value left in the receiver, which is that of
  the digits read before the first character that is not one.
\<close>

definition dec_prefix :: "string \<Rightarrow> nat" where
  "dec_prefix s =
     (case parse_digits None 0 (takeWhile (\<lambda>c. digit_value c \<noteq> None) s) of Some n \<Rightarrow> n | None \<Rightarrow> 0)"

definition big_SetString :: "string \<Rightarrow> int" where
  "big_SetString s =
     (if s \<noteq> [] \<and> hd s = CHR ''-'' then - int (dec_prefix (tl s))
      else if s \<noteq> [] \<and> hd s = CHR ''+'' then int (dec_prefix (tl s))
      else int (dec_prefix s))"

definition ToECDSA :: "Signature \<Rightarrow> (int \<times> int) go" where
  "ToECDSA sig =
     (case sig of
        r # s # _ \<Rightarrow> retG (big_SetString r, big_SetString s)
      | _ \<Rightarrow> panicG IndexOutOfRange)"

lemma digit_char_neq_sign: "d < 10 \<Longrightarrow> digit_char d \<noteq> CHR ''-'' \<and> digit_char d \<noteq> CHR ''+''"
proof -
  assume "d < 10"
  then have "digit_value (digit_char d) = Some d" by simp
  moreover have "digit_value (CHR ''-'') = None" and "digit_value (CHR ''+'') = None"
    by (simp_all add: digit_value_def Let_def)
  ultimately show ?thesis by force
qed

lemma dec_digits_all_digits: "c \<in> set (dec_digits n) \<Longrightarrow> \<exists>d < 10. c = digit_char d"
proof (induction n rule: dec_digits.induct)
  case (1 n)
  show ?case
  proof (cases "n < 10")
    case True
    with "1.prems" show ?thesis by (auto simp: dec_digits.simps [of n])
  next
    case False
    with "1.prems" have "c \<in> set (dec_digits (n div 10)) \<or> c = digit_char (n mod 10)"
      by (auto simp: dec_digits.simps [of n])
    then show ?thesis
    proof
      assume "c \<in> set (dec_digits (n div 10))"
      with False show ?thesis by (rule "1.IH")
    next
      assume "c = digit_char (n mod 10)"
      moreover have "n mod 10 < 10" by simp
      ultimately show ?thesis by blast
    qed
  qed
qed

lemma dec_prefix_dec_digits: "dec_prefix (dec_digits n) = n"
proof -
  have "\<forall>c \<in> set (dec_digits n). digit_value c \<noteq> None"
    using dec_digits_all_digits digit_value_char by fastforce
  then have "takeWhile (\<lambda>c. digit_value c \<noteq> None) (dec_digits n) = dec_digits n"
    by (simp add: takeWhile_eq_all_conv)
  moreover have "parse_digits None 0 (dec_digits n) = Some n"
    by (rule parse_dec_digits) simp
  ultimately show ?thesis unfolding dec_prefix_def by (simp only: option.case)
qed

lemma big_SetString_Itoa: "big_SetString (Itoa x) = x"
proof (cases "x < 0")
  case True
  then show ?thesis by (simp add: big_SetString_def Itoa_def dec_prefix_dec_digits)
next
  case False
  have "hd (dec_digits (nat x)) \<in> set (dec_digits (nat x))" by simp
  then obtain d where "d < 10" "hd (dec_digits (nat x)) = digit_char d"
    using dec_digits_all_digits by blast
  then show ?thesis
    using False digit_char_neq_sign [of d]
    by (simp add: big_SetString_def Itoa_def dec_prefix_dec_digits)
qed

section \<open>Keys\<close>

record ecdsa_p256_PrivateKey =
  privSignAlg :: string
  privD :: int
  privPub :: "int \<times> int"

record ecdsa_p256_PublicKey =
  pubSignAlg :: string
  pubPoint :: "int \<times> int"

text \<open>
  The package-level key tables, and the ECDSA operations the code calls: \<open>ecdsaSign d m\<close> is
  the pair that \<open>ecdsa.Sign\<close> produces with its random source (\<open>None\<close> when it fails),
  \<open>ecdsaVerify q m r s\<close> the verdict of \<open>ecdsa.Verify\<close>. A table entry is \<open>None\<close> for the nil
  interface that \<open>GenerateKey\<close> returns for the unsupported schemes.
\<close>

record crypto =
  keys :: "ecdsa_p256_PrivateKey option list"
  pubKeys :: "ecdsa_p256_PublicKey option list"
  ecdsaSign :: "int \<Rightarrow> string \<Rightarrow> (int \<times> int) option"
  ecdsaVerify :: "int \<times> int \<Rightarrow> string \<Rightarrow> int \<Rightarrow> int \<Rightarrow> bool"

definition priv_PublicKey :: "ecdsa_p256_PrivateKey \<Rightarrow> ecdsa_p256_PublicKey" where
  "priv_PublicKey priv = \<lparr>pubSignAlg = ''ECDSA_P256'', pubPoint = privPub priv\<rparr>"

definition priv_Sign ::
  "'z crypto_scheme \<Rightarrow> ecdsa_p256_PrivateKey \<Rightarrow> string \<Rightarrow> (string \<Rightarrow> string) option \<Rightarrow> go_error + Signature" where
  "priv_Sign e priv msg hasher =
     (case ecdsaSign e (privD priv) (case hasher of Some h \<Rightarrow> h msg | None \<Rightarrow> msg) of
        None \<Rightarrow> Inl SigningFailed
      | Some (r, s) \<Rightarrow> Inr [Itoa r, Itoa s])"

definition pub_Verify ::
  "'z crypto_scheme \<Rightarrow> ecdsa_p256_PublicKey \<Rightarrow> Signature \<Rightarrow> string \<Rightarrow> (bool \<times> go_error option) go" where
  "pub_Verify e pub sig hash =
     bindG (ToECDSA sig) (\<lambda>(r, s). retG (ecdsaVerify e (pubPoint pub) hash r s, None))"

text \<open>Reading a Go slice: out of range panics.\<close>

definition index_slice :: "'a list \<Rightarrow> int \<Rightarrow> 'a go" where
  "index_slice xs i = (if 0 \<le> i \<and> i < int (length xs) then retG (xs ! nat i) else panicG IndexOutOfRange)"

definition PrivSign ::
  "'z crypto_scheme \<Rightarrow> string \<Rightarrow> NodeID \<Rightarrow> (string \<Rightarrow> string) option \<Rightarrow> (go_error + Signature) go" where
  "PrivSign e data nodeID hasher =
     bindG (index_slice (keys e) (i64 (Node nodeID - 1))) (\<lambda>k.
       case k of
         None \<Rightarrow> panicG NilDereference
       | Some priv \<Rightarrow> retG (priv_Sign e priv data hasher))"

definition PubVerify ::
  "'z crypto_scheme \<Rightarrow> Signature \<Rightarrow> string \<Rightarrow> NodeID \<Rightarrow> (bool \<times> go_error option) go" where
  "PubVerify e sig data nodeID =
     bindG (index_slice (pubKeys e) (i64 (Node nodeID - 1))) (\<lambda>k.
       case k of
         None \<Rightarrow> panicG NilDereference
       | Some pub \<Rightarrow> pub_Verify e pub sig data)"

text \<open>
  The loop of \<open>VerifyQuorumSignature\<close>: signer \<open>i\<close> is checked against signature \<open>i\<close>, so the
  two slices are walked together and a missing signature is an index out of range.
\<close>

fun verifyQuorum_loop ::
  "'z crypto_scheme \<Rightarrow> AggSig \<Rightarrow> Identifier \<Rightarrow> NodeID list \<Rightarrow> (bool \<times> go_error option) go" where
  "verifyQuorum_loop e sigs blockID [] = retG (True, None)"
| "verifyQuorum_loop e [] blockID (signer # signers) = panicG IndexOutOfRange"
| "verifyQuorum_loop e (sig # sigs) blockID (signer # signers) =
     bindG (PubVerify e sig (IDToByte blockID) signer) (\<lambda>(sigIsCorrect, errAgg).
       if errAgg \<noteq> None then retG (False, errAgg)
       else if \<not> sigIsCorrect then retG (False, None)
       else verifyQuorum_loop e sigs blockID signers)"

definition VerifyQuorumSignature ::
  "'z crypto_scheme \<Rightarrow> AggSig \<Rightarrow> Identifier \<Rightarrow> NodeID list \<Rightarrow> (bool \<times> go_error option) go" where
  "VerifyQuorumSignature e aggregatedSigs blockID aggSigners =
     verifyQuorum_loop e aggregatedSigs blockID aggSigners"

end
