(* ===== verification/Election.thy ===== *)
theory Election
  imports Crypto
begin

text \<open>
  Leader election (election/): the hash-based rotation and the static leader behind the
  \<open>Election\<close> interface, with the contract the protocols rely on as a locale. SHA-1 of the
  Go standard library is written out, so the rotation is the actual one.
\<close>

unbundle bit_operations_syntax

section \<open>SHA-1\<close>

fun be_words32 :: "string \<Rightarrow> 32 word list" where
  "be_words32 (a # b # c # d # bs) = of_nat (be_value [a, b, c, d]) # be_words32 bs"
| "be_words32 _ = []"

definition sha1_pad :: "string \<Rightarrow> string" where
  "sha1_pad msg =
     (let l = length msg; z = (119 - l mod 64) mod 64
      in msg @ [char_of (128::nat)] @ replicate z (char_of (0::nat)) @ be_bytes 8 (8 * l))"

text \<open>The message schedule, newest word first.\<close>

primrec sha1_extend :: "nat \<Rightarrow> 32 word list \<Rightarrow> 32 word list" where
  "sha1_extend 0 ws = ws"
| "sha1_extend (Suc k) ws =
     sha1_extend k (word_rotl 1 (ws ! 2 XOR ws ! 7 XOR ws ! 13 XOR ws ! 15) # ws)"

definition sha1_round ::
  "32 word \<times> 32 word \<times> 32 word \<times> 32 word \<times> 32 word \<Rightarrow> nat \<times> 32 word \<Rightarrow>
   32 word \<times> 32 word \<times> 32 word \<times> 32 word \<times> 32 word" where
  "sha1_round st tw =
     (case st of (a, b, c, d, e) \<Rightarrow> case tw of (t, w) \<Rightarrow>
        let (f, k) =
              (if t < 20 then ((b AND c) OR (NOT b AND d), 0x5A827999)
               else if t < 40 then (b XOR c XOR d, 0x6ED9EBA1)
               else if t < 60 then ((b AND c) OR (b AND d) OR (c AND d), 0x8F1BBCDC)
               else (b XOR c XOR d, 0xCA62C1D6))
        in (word_rotl 5 a + f + e + k + w, a, word_rotl 30 b, c, d))"

definition sha1_block ::
  "32 word \<times> 32 word \<times> 32 word \<times> 32 word \<times> 32 word \<Rightarrow> 32 word list \<Rightarrow>
   32 word \<times> 32 word \<times> 32 word \<times> 32 word \<times> 32 word" where
  "sha1_block h ws =
     (let ws80 = rev (sha1_extend 64 (rev ws))
      in case (h, foldl sha1_round h (zip [0..<80] ws80)) of
           ((h0, h1, h2, h3, h4), (a, b, c, d, e)) \<Rightarrow> (h0 + a, h1 + b, h2 + c, h3 + d, h4 + e))"

fun sha1_blocks ::
  "32 word \<times> 32 word \<times> 32 word \<times> 32 word \<times> 32 word \<Rightarrow> 32 word list \<Rightarrow>
   32 word \<times> 32 word \<times> 32 word \<times> 32 word \<times> 32 word" where
  "sha1_blocks h ws = (if length ws < 16 then h else sha1_blocks (sha1_block h (take 16 ws)) (drop 16 ws))"

declare sha1_blocks.simps [simp del]

definition sha1_Sum :: "string \<Rightarrow> string" where
  "sha1_Sum msg =
     (case sha1_blocks (0x67452301, 0xEFCDAB89, 0x98BADCFE, 0x10325476, 0xC3D2E1F0)
             (be_words32 (sha1_pad msg)) of
        (a, b, c, d, e) \<Rightarrow>
          be_bytes 4 (unat a) @ be_bytes 4 (unat b) @ be_bytes 4 (unat c) @
          be_bytes 4 (unat d) @ be_bytes 4 (unat e))"

text \<open>\<open>binary.BigEndian.Uint64\<close> reads the first eight bytes.\<close>

definition BigEndian_Uint64 :: "string \<Rightarrow> nat" where
  "BigEndian_Uint64 bs = be_value (take 8 bs)"

section \<open>Rotation\<close>

record Rotation =
  peerNo :: nat

definition NewRotation :: "nat \<Rightarrow> Rotation" where
  "NewRotation n = \<lparr>peerNo = n\<rparr>"

definition rotation_data :: "View \<Rightarrow> nat" where
  "rotation_data view = BigEndian_Uint64 (sha1_Sum (Itoa (i64 (view + 1))))"

definition Rotation_IsLeader :: "Rotation \<Rightarrow> NodeID \<Rightarrow> View \<Rightarrow> bool go" where
  "Rotation_IsLeader r i view =
     (if view \<le> 3 then
        (if Node i < int (peerNo r) then retG False else retG True)
      else if peerNo r = 0 then panicG DivideByZero
      else retG (rotation_data view mod peerNo r = u64 (i64 (Node i - 1))))"

definition Rotation_FindLeaderFor :: "Rotation \<Rightarrow> View \<Rightarrow> NodeID go" where
  "Rotation_FindLeaderFor r view =
     (if view \<le> 3 then retG (NewNodeID (int (peerNo r)))
      else if peerNo r = 0 then panicG DivideByZero
      else retG (NewNodeID (i64 (int (rotation_data view mod peerNo r + 1)))))"

section \<open>Static leader\<close>

record Static =
  master :: NodeID

definition NewStatic :: "NodeID \<Rightarrow> Static" where
  "NewStatic m = \<lparr>master = m\<rparr>"

definition Static_IsLeader :: "Static \<Rightarrow> NodeID \<Rightarrow> View \<Rightarrow> bool go" where
  "Static_IsLeader st i view = retG (i = master st)"

definition Static_FindLeaderFor :: "Static \<Rightarrow> View \<Rightarrow> NodeID go" where
  "Static_FindLeaderFor st view = retG (master st)"

section \<open>The Election interface\<close>

datatype Election = RotationE Rotation | StaticE Static

fun IsLeader :: "Election \<Rightarrow> NodeID \<Rightarrow> View \<Rightarrow> bool go" where
  "IsLeader (RotationE r) i view = Rotation_IsLeader r i view"
| "IsLeader (StaticE st) i view = Static_IsLeader st i view"

fun FindLeaderFor :: "Election \<Rightarrow> View \<Rightarrow> NodeID go" where
  "FindLeaderFor (RotationE r) view = Rotation_FindLeaderFor r view"
| "FindLeaderFor (StaticE st) view = Static_FindLeaderFor st view"

text \<open>
  The contract: on a well-formed election \<open>FindLeaderFor\<close> answers with a member that
  \<open>IsLeader\<close> accepts, and \<open>IsLeader\<close> accepts at most one member per view.
\<close>

locale election =
  fixes wf :: "'e \<Rightarrow> bool"
    and member :: "'e \<Rightarrow> NodeID \<Rightarrow> bool"
    and isLeader :: "'e \<Rightarrow> NodeID \<Rightarrow> View \<Rightarrow> bool go"
    and findLeaderFor :: "'e \<Rightarrow> View \<Rightarrow> NodeID go"
  assumes leader_exists:
      "wf e \<Longrightarrow> \<exists>l. findLeaderFor e v = retG l \<and> member e l \<and> isLeader e l v = retG True"
    and leader_unique:
      "wf e \<Longrightarrow> member e i \<Longrightarrow> member e j \<Longrightarrow> isLeader e i v = retG True \<Longrightarrow>
       isLeader e j v = retG True \<Longrightarrow> i = j"
    and isLeader_returns: "wf e \<Longrightarrow> returns (isLeader e i v)"
begin

lemma isLeader_iff_found:
  assumes "wf e" and "member e i"
  shows "isLeader e i v = retG True \<longleftrightarrow> findLeaderFor e v = retG i"
proof -
  obtain l where l: "findLeaderFor e v = retG l" "member e l" "isLeader e l v = retG True"
    using leader_exists [OF assms(1)] by blast
  show ?thesis
    using l leader_unique [OF assms(1)] assms(2) by auto
qed

lemma findLeaderFor_returns: "wf e \<Longrightarrow> returns (findLeaderFor e v)"
  using leader_exists by (force simp: returns_def)

end

definition Rotation_wf :: "Rotation \<Rightarrow> bool" where
  "Rotation_wf r \<longleftrightarrow> 0 < peerNo r \<and> peerNo r < 2 ^ 63"

definition Rotation_member :: "Rotation \<Rightarrow> NodeID \<Rightarrow> bool" where
  "Rotation_member r i \<longleftrightarrow> (\<exists>k \<in> {1..peerNo r}. i = NewNodeID (int k))"

lemma Rotation_memberE:
  assumes "Rotation_wf r" "Rotation_member r i"
  obtains k where "1 \<le> k" "k \<le> peerNo r" "i = NewNodeID (int k)" "Node i = int k"
    "u64 (i64 (Node i - 1)) = k - 1"
proof -
  from assms(2) obtain k where k: "1 \<le> k" "k \<le> peerNo r" "i = NewNodeID (int k)"
    by (auto simp: Rotation_member_def)
  with assms(1) have "Node i = int k"
    by (simp add: Rotation_wf_def Node_NewNodeID)
  moreover from this have "u64 (i64 (Node i - 1)) = k - 1"
    using k assms(1) by (simp add: i64_nonneg_id u64_nonneg Rotation_wf_def)
  ultimately show ?thesis using k that by blast
qed

lemma Rotation_leader_exists:
  assumes "Rotation_wf r"
  shows "\<exists>l. Rotation_FindLeaderFor r v = retG l \<and> Rotation_member r l \<and>
             Rotation_IsLeader r l v = retG True"
proof (cases "v \<le> 3")
  case True
  with assms show ?thesis
    by (auto simp: Rotation_FindLeaderFor_def Rotation_IsLeader_def Rotation_member_def
        Rotation_wf_def Node_NewNodeID)
next
  case False
  define k where "k = rotation_data v mod peerNo r + 1"
  have k: "1 \<le> k" "k \<le> peerNo r" "rotation_data v mod peerNo r = k - 1"
    using assms by (simp_all add: k_def Rotation_wf_def Suc_leI)
  have "i64 (int k) = int k"
    using k assms by (intro i64_nonneg_id) (simp_all add: Rotation_wf_def)
  then have found: "Rotation_FindLeaderFor r v = retG (NewNodeID (int k))"
    using False assms by (simp add: Rotation_FindLeaderFor_def k_def Rotation_wf_def)
  have mem: "Rotation_member r (NewNodeID (int k))"
    using k by (auto simp: Rotation_member_def)
  have node: "Node (NewNodeID (int k)) = int k"
    using k assms by (simp add: Node_NewNodeID Rotation_wf_def)
  then have "u64 (i64 (Node (NewNodeID (int k)) - 1)) = k - 1"
    using k assms by (simp add: i64_nonneg_id u64_nonneg Rotation_wf_def)
  then show ?thesis
    using False assms found mem k by (simp add: Rotation_IsLeader_def Rotation_wf_def)
qed

lemma Rotation_leader_unique:
  assumes "Rotation_wf r" "Rotation_member r i" "Rotation_member r j"
    "Rotation_IsLeader r i v = retG True" "Rotation_IsLeader r j v = retG True"
  shows "i = j"
proof -
  obtain m where m: "1 \<le> m" "m \<le> peerNo r" "i = NewNodeID (int m)" "Node i = int m"
    "u64 (i64 (Node i - 1)) = m - 1"
    using assms(1,2) by (rule Rotation_memberE)
  obtain n where n: "1 \<le> n" "n \<le> peerNo r" "j = NewNodeID (int n)" "Node j = int n"
    "u64 (i64 (Node j - 1)) = n - 1"
    using assms(1,3) by (rule Rotation_memberE)
  have "m = n"
    using assms(1,4,5) m n by (auto simp: Rotation_IsLeader_def Rotation_wf_def split: if_splits)
  with m n show ?thesis by simp
qed

interpretation rotation: election Rotation_wf Rotation_member Rotation_IsLeader Rotation_FindLeaderFor
proof unfold_locales
  show "Rotation_wf e \<Longrightarrow> \<exists>l. Rotation_FindLeaderFor e v = retG l \<and> Rotation_member e l \<and>
          Rotation_IsLeader e l v = retG True" for e v
    by (rule Rotation_leader_exists)
  show "Rotation_wf e \<Longrightarrow> Rotation_member e i \<Longrightarrow> Rotation_member e j \<Longrightarrow>
          Rotation_IsLeader e i v = retG True \<Longrightarrow> Rotation_IsLeader e j v = retG True \<Longrightarrow> i = j"
    for e i j v
    by (rule Rotation_leader_unique)
  show "Rotation_wf e \<Longrightarrow> returns (Rotation_IsLeader e i v)" for e i v
    by (simp add: Rotation_IsLeader_def Rotation_wf_def)
qed

interpretation static: election "\<lambda>_. True" "\<lambda>_ _. True" Static_IsLeader Static_FindLeaderFor
  by unfold_locales (simp_all add: Static_IsLeader_def Static_FindLeaderFor_def)

fun election_wf :: "Election \<Rightarrow> bool" where
  "election_wf (RotationE r) = Rotation_wf r"
| "election_wf (StaticE st) = True"

fun election_member :: "Election \<Rightarrow> NodeID \<Rightarrow> bool" where
  "election_member (RotationE r) i = Rotation_member r i"
| "election_member (StaticE st) i = True"

interpretation elec: election election_wf election_member IsLeader FindLeaderFor
proof unfold_locales
  show "election_wf e \<Longrightarrow> \<exists>l. FindLeaderFor e v = retG l \<and> election_member e l \<and>
          IsLeader e l v = retG True" for e v
    using static.leader_exists by (cases e) (auto dest: rotation.leader_exists)
  show "election_wf e \<Longrightarrow> election_member e i \<Longrightarrow> election_member e j \<Longrightarrow>
          IsLeader e i v = retG True \<Longrightarrow> IsLeader e j v = retG True \<Longrightarrow> i = j" for e i j v
    using static.leader_unique by (cases e) (auto intro: rotation.leader_unique)
  show "election_wf e \<Longrightarrow> returns (IsLeader e i v)" for e i v
    by (cases e) (simp_all add: rotation.isLeader_returns static.isLeader_returns)
qed

end
