(* ===== verification/Config.thy ===== *)
theory Config
  imports Identity
begin

text \<open>
  The configuration (config/config.go): its fields, the address tables built from \<open>ips.txt\<close>, and the
  queries on them. A Go map whose keys the code ranges over is an association list with distinct keys.
  Opening and decoding the two files is in \<open>Config_File\<close>: \<open>Load\<close> takes the decoded configuration and
  the lines of \<open>ips.txt\<close>. The threshold, a float that nothing reads, is left out, and the benchmark's part
  of the configuration is the record \<open>Bconfig\<close> of \<open>Benchmark\<close>.
\<close>

record Config =
  Addrs :: "(NodeID \<times> string) list"
  HTTPAddrs :: "(NodeID \<times> string) list"
  cfgPolicy :: string
  cfgThrifty :: bool
  cfgBufferSize :: int
  ChanBufferSize :: int
  MultiVersion :: bool
  Timeout :: int
  ByzNo :: int
  BSize :: int
  cfgFixed :: bool
  cfgDelta :: int
  cfgPprof :: bool
  cfgMaxRound :: int
  Strategy :: string
  PayloadSize :: int
  Master :: NodeID
  cfgDelay :: int
  cfgDErr :: int
  MemSize :: int
  Slow :: int
  Crash :: int
  cfgHasher :: string
  cfgSigner :: string
  cfg_n :: nat

definition MakeDefaultConfig :: Config where
  "MakeDefaultConfig = \<lparr>Addrs = [], HTTPAddrs = [], cfgPolicy = ''consecutive'', cfgThrifty = False, cfgBufferSize = 1024,
     ChanBufferSize = 1024, MultiVersion = False, Timeout = 0, ByzNo = 0, BSize = 0, cfgFixed = False, cfgDelta = 0,
     cfgPprof = False, cfgMaxRound = 0, Strategy = [], PayloadSize = 0, Master = [], cfgDelay = 0, cfgDErr = 0, MemSize = 0,
     Slow = 0, Crash = 0, cfgHasher = ''sha3_256'', cfgSigner = ''ECDSA_P256'', cfg_n = 0\<rparr>"

definition config_N :: "Config \<Rightarrow> nat" where
  "config_N c = cfg_n c"

definition config_IDs :: "Config \<Rightarrow> NodeID list" where
  "config_IDs c = map fst (Addrs c)"

definition GetHashScheme :: "Config \<Rightarrow> string" where
  "GetHashScheme c = cfgHasher c"

definition GetSignatureScheme :: "Config \<Rightarrow> string" where
  "GetSignatureScheme c = cfgSigner c"

definition IsByzantine :: "Config \<Rightarrow> NodeID \<Rightarrow> bool" where
  "IsByzantine c i \<longleftrightarrow> ByzNo c \<ge> Node i"

text \<open>The scanner loop of \<open>Load\<close>, one step per line, \<open>i\<close> counting from 1.\<close>

fun load_lines :: "Config \<Rightarrow> nat \<Rightarrow> string list \<Rightarrow> Config" where
  "load_lines c i [] = c"
| "load_lines c i (ip # ips) =
     (let nid = NewNodeID (int i);
          addr = ''tcp://'' @ ip @ '':'' @ Itoa (3734 + int i);
          addrHttp = ''http://'' @ ip @ '':'' @ Itoa (8069 + int i)
      in load_lines (c\<lparr>Addrs := AList.update nid addr (Addrs c),
                       HTTPAddrs := AList.update nid addrHttp (HTTPAddrs c)\<rparr>) (Suc i) ips)"

definition Load :: "Config \<Rightarrow> string list \<Rightarrow> Config" where
  "Load c ips = (let c' = load_lines c 1 ips in c'\<lparr>cfg_n := length (Addrs c')\<rparr>)"

lemma load_lines_keys:
  "fst ` set (Addrs (load_lines c i ips)) =
     fst ` set (Addrs c) \<union> (\<lambda>k. NewNodeID (int k)) ` {i..<i + length ips}"
proof (induction ips arbitrary: c i)
  case (Cons ip ips)
  have "{i..<i + length (ip # ips)} = insert i {Suc i..<Suc i + length ips}" by auto
  with Cons show ?case by (auto simp: Let_def dom_update)
qed simp

lemma load_lines_distinct:
  "distinct (map fst (Addrs c)) \<Longrightarrow> distinct (map fst (Addrs (load_lines c i ips)))"
  by (induction ips arbitrary: c i) (simp_all add: Let_def distinct_update)

text \<open>
  Loading a file of addresses numbers the lines from 1 and, when the decoded configuration
  names no node outside that range, the number of nodes \<open>N\<close> is the number of lines and the
  node identifiers are exactly those of the numbers 1 to \<open>N\<close>.
\<close>

theorem load_numbers_nodes:
  assumes "distinct (map fst (Addrs c))"
    and "fst ` set (Addrs c) \<subseteq> (\<lambda>k. NewNodeID (int k)) ` {1..length ips}"
    and "length ips < 2 ^ 63"
  shows "config_N (Load c ips) = length ips \<and>
    set (config_IDs (Load c ips)) = (\<lambda>k. NewNodeID (int k)) ` {1..length ips}"
proof -
  let ?c = "load_lines c 1 ips"
  have range: "{1..<1 + length ips} = {1..length ips}" by auto
  have keys: "fst ` set (Addrs ?c) = (\<lambda>k. NewNodeID (int k)) ` {1..length ips}"
    using load_lines_keys [of c 1 ips] assms(2) range by auto
  have "inj_on (\<lambda>k. NewNodeID (int k)) {1..length ips}"
    using assms(3) by (auto simp: inj_on_def NewNodeID_inj)
  then have "card (fst ` set (Addrs ?c)) = length ips"
    unfolding keys by (simp add: card_image)
  then have "length (Addrs ?c) = length ips"
    using distinct_keys_card [OF load_lines_distinct [OF assms(1)], of 1 ips] by simp
  with keys show ?thesis
    by (simp add: Load_def config_N_def config_IDs_def Let_def)
qed

theorem load_numbers_nodes_witness:
  "config_N (Load (MakeDefaultConfig\<lparr>Addrs := [(''1'', ''tcp://127.0.0.1:3735'')]\<rparr>)
     [''10.0.0.1'', ''10.0.0.2'']) = 2"
proof -
  have "NewNodeID (int 1) = ''1''"
    by (simp add: NewNodeID_def Itoa_def dec_digits.simps digit_char_simps [simplified])
  then have "''1'' \<in> (\<lambda>k. NewNodeID (int k)) ` {1..length [''10.0.0.1'', ''10.0.0.2'']}"
    by (intro image_eqI [where x = 1]) simp_all
  then show ?thesis
    using load_numbers_nodes [of "MakeDefaultConfig\<lparr>Addrs := [(''1'', ''tcp://127.0.0.1:3735'')]\<rparr>"
        "[''10.0.0.1'', ''10.0.0.2'']"] by simp
qed

end
