(* ===== verification/Db.thy ===== *)
theory Db
  imports Prelude
begin

text \<open>
  The key-value store (db/db.go): commands, the multi-version database, and the conflict
  relation on commands. A nil byte slice is \<open>None\<close>.
\<close>

type_synonym Key = int
type_synonym Value = "string option"

record Command =
  cKey :: Key
  cValue :: Value
  cClientID :: NodeID
  cCommandID :: int

definition Command_Empty :: "Command \<Rightarrow> bool" where
  "Command_Empty c \<longleftrightarrow> cKey c = 0 \<and> cValue c = None \<and> cClientID c = [] \<and> cCommandID c = 0"

definition IsRead :: "Command \<Rightarrow> bool" where
  "IsRead c \<longleftrightarrow> cValue c = None"

definition IsWrite :: "Command \<Rightarrow> bool" where
  "IsWrite c \<longleftrightarrow> cValue c \<noteq> None"

text \<open>\<open>bytes.Equal\<close> does not tell a nil slice from an empty one.\<close>

definition bytes_Equal :: "Value \<Rightarrow> Value \<Rightarrow> bool" where
  "bytes_Equal v w \<longleftrightarrow> (case v of None \<Rightarrow> [] | Some b \<Rightarrow> b) = (case w of None \<Rightarrow> [] | Some b \<Rightarrow> b)"

definition Command_Equal :: "Command \<Rightarrow> Command \<Rightarrow> bool" where
  "Command_Equal c a \<longleftrightarrow> cKey c = cKey a \<and> bytes_Equal (cValue c) (cValue a) \<and>
     cClientID c = cClientID a \<and> cCommandID c = cCommandID a"

record database =
  db_data :: "Key \<rightharpoonup> string"
  db_version :: nat
  multiversion :: bool
  db_history :: "Key \<rightharpoonup> string list"

definition NewDatabase :: "bool \<Rightarrow> database" where
  "NewDatabase mv = \<lparr>db_data = Map.empty, db_version = 0, multiversion = mv, db_history = Map.empty\<rparr>"

definition db_put :: "database \<Rightarrow> Key \<Rightarrow> Value \<Rightarrow> database" where
  "db_put d k v =
     (case v of
        None \<Rightarrow> d
      | Some b \<Rightarrow>
          (let d1 = d\<lparr>db_data := (db_data d)(k \<mapsto> b), db_version := Suc (db_version d)\<rparr>
           in if multiversion d1 then
                d1\<lparr>db_history := (db_history d1)(k \<mapsto>
                     (case db_history d1 k of None \<Rightarrow> [] | Some h \<Rightarrow> h) @ [b])\<rparr>
              else d1))"

definition db_Put :: "database \<Rightarrow> Key \<Rightarrow> Value \<Rightarrow> database" where
  "db_Put d k v = db_put d k v"

definition db_Get :: "database \<Rightarrow> Key \<Rightarrow> Value" where
  "db_Get d k = db_data d k"

definition db_Version :: "database \<Rightarrow> Key \<Rightarrow> nat" where
  "db_Version d k = db_version d"

definition db_History :: "database \<Rightarrow> Key \<Rightarrow> string list" where
  "db_History d k = (case db_history d k of None \<Rightarrow> [] | Some h \<Rightarrow> h)"

definition db_Execute :: "database \<Rightarrow> Command \<Rightarrow> database \<times> Value" where
  "db_Execute d c = (let v = db_data d (cKey c) in (db_put d (cKey c) (cValue c), v))"

definition Conflict :: "Command \<Rightarrow> Command \<Rightarrow> bool" where
  "Conflict gamma delta =
     (if cKey gamma = cKey delta then
        (if \<not> IsRead gamma \<or> \<not> IsRead delta then True else False)
      else False)"

fun conflict_row :: "Command \<Rightarrow> Command list \<Rightarrow> bool" where
  "conflict_row c [] = False"
| "conflict_row c (d # ds) = (if Conflict c d then True else conflict_row c ds)"

fun ConflictBatch :: "Command list \<Rightarrow> Command list \<Rightarrow> bool" where
  "ConflictBatch [] batch2 = False"
| "ConflictBatch (c # cs) batch2 = (if conflict_row c batch2 then True else ConflictBatch cs batch2)"

fun run_commands :: "database \<Rightarrow> Command list \<Rightarrow> database" where
  "run_commands d [] = d"
| "run_commands d (c # cs) = run_commands (fst (db_Execute d c)) cs"

section \<open>Versions and history\<close>

definition writes_to :: "Key \<Rightarrow> Command list \<Rightarrow> string list" where
  "writes_to k cs = List.map_filter (\<lambda>c. if cKey c = k then cValue c else None) cs"

definition writes_in :: "Command list \<Rightarrow> nat" where
  "writes_in cs = length (filter IsWrite cs)"

lemma writes_to_simps [simp]:
  "writes_to k [] = []"
  "writes_to k (c # cs) =
     (if cKey c = k then (case cValue c of None \<Rightarrow> [] | Some b \<Rightarrow> [b]) else []) @ writes_to k cs"
  by (auto simp: writes_to_def map_filter_simps split: option.splits)

lemma writes_in_simps [simp]:
  "writes_in [] = 0"
  "writes_in (c # cs) = (if cValue c = None then 0 else 1) + writes_in cs"
  by (simp_all add: writes_in_def IsWrite_def)

lemma put_frame:
  "multiversion (db_put d k v) = multiversion d"
  "db_version (db_put d k v) = (if v = None then db_version d else Suc (db_version d))"
  "db_data (db_put d k v) = (case v of None \<Rightarrow> db_data d | Some b \<Rightarrow> (db_data d)(k \<mapsto> b))"
  by (auto simp: db_put_def Let_def split: option.splits)

lemma put_history:
  "multiversion d \<Longrightarrow> db_History (db_put d k v) k' =
     db_History d k' @ (if k = k' then (case v of None \<Rightarrow> [] | Some b \<Rightarrow> [b]) else [])"
  by (auto simp: db_put_def db_History_def Let_def split: option.splits)

lemma run_commands_state:
  "multiversion (run_commands d cs) = multiversion d"
  "db_version (run_commands d cs) = db_version d + writes_in cs"
  "db_Get (run_commands d cs) k =
     (if writes_to k cs = [] then db_Get d k else Some (last (writes_to k cs)))"
  by (induction cs arbitrary: d)
    (auto simp: db_Execute_def Let_def put_frame db_Get_def split: option.splits)

lemma run_commands_history:
  "multiversion d \<Longrightarrow> db_History (run_commands d cs) k = db_History d k @ writes_to k cs"
  by (induction cs arbitrary: d)
    (auto simp: db_Execute_def Let_def put_frame put_history split: option.splits)

text \<open>
  After any sequence of commands on a fresh multi-version database, the history of a key is
  the list of values written to it in order, its current value is the last of them, and the
  version counts all writes.
\<close>

theorem database_reflects_writes:
  "db_History (run_commands (NewDatabase True) cs) k = writes_to k cs \<and>
   db_Get (run_commands (NewDatabase True) cs) k =
     (if writes_to k cs = [] then None else Some (last (writes_to k cs))) \<and>
   db_Version (run_commands (NewDatabase True) cs) k = writes_in cs"
  using run_commands_history [of "NewDatabase True" cs k] run_commands_state [of "NewDatabase True" cs]
  by (simp add: NewDatabase_def db_History_def db_Get_def db_Version_def)

section \<open>Conflicts\<close>

lemma Conflict_iff: "Conflict c d \<longleftrightarrow> cKey c = cKey d \<and> (cValue c \<noteq> None \<or> cValue d \<noteq> None)"
  by (simp add: Conflict_def IsRead_def)

lemma Conflict_commute: "Conflict c d = Conflict d c"
  by (auto simp: Conflict_iff)

lemma conflict_row_iff: "conflict_row c ds \<longleftrightarrow> (\<exists>d \<in> set ds. Conflict c d)"
  by (induction ds) auto

lemma ConflictBatch_iff: "ConflictBatch cs ds \<longleftrightarrow> (\<exists>c \<in> set cs. \<exists>d \<in> set ds. Conflict c d)"
  by (induction cs) (auto simp: conflict_row_iff)

lemma execute_commute:
  assumes "\<not> Conflict c d"
  shows "fst (db_Execute (fst (db_Execute s c)) d) = fst (db_Execute (fst (db_Execute s d)) c)"
    and "snd (db_Execute (fst (db_Execute s c)) d) = snd (db_Execute s d)"
proof -
  have "cKey c \<noteq> cKey d \<or> (cValue c = None \<and> cValue d = None)"
    using assms by (auto simp: Conflict_iff)
  then show "fst (db_Execute (fst (db_Execute s c)) d) = fst (db_Execute (fst (db_Execute s d)) c)"
    by (auto simp: db_Execute_def db_put_def Let_def fun_upd_twist split: option.splits)
  show "snd (db_Execute (fst (db_Execute s c)) d) = snd (db_Execute s d)"
    using assms by (auto simp: db_Execute_def db_put_def Let_def Conflict_iff split: option.splits)
qed

lemma run_commands_append: "run_commands d (cs @ ds) = run_commands (run_commands d cs) ds"
  by (induction cs arbitrary: d) simp_all

lemma run_commands_commute1:
  "(\<And>d. d \<in> set ds \<Longrightarrow> \<not> Conflict c d) \<Longrightarrow>
   run_commands (fst (db_Execute s c)) ds = fst (db_Execute (run_commands s ds) c)"
  by (induction ds arbitrary: s) (simp_all add: execute_commute(1) [of c])

text \<open>
  C40: batches that \<open>ConflictBatch\<close> declares free of conflicts can be executed in either order:
  the database ends in the same state.
\<close>

theorem conflict_free_batches_commute:
  assumes "\<not> ConflictBatch cs ds"
  shows "run_commands s (cs @ ds) = run_commands s (ds @ cs)"
  using assms
proof (induction cs arbitrary: s)
  case Nil
  then show ?case by simp
next
  case (Cons c cs)
  then have "run_commands (fst (db_Execute s c)) (cs @ ds) = run_commands (fst (db_Execute s c)) (ds @ cs)"
    by (simp split: if_splits)
  moreover have "run_commands (fst (db_Execute s c)) ds = fst (db_Execute (run_commands s ds) c)"
    using Cons.prems by (intro run_commands_commute1) (auto simp: ConflictBatch_iff conflict_row_iff split: if_splits)
  ultimately show ?case by (simp add: run_commands_append)
qed

definition sample_put :: "Key \<Rightarrow> string \<Rightarrow> Command" where
  "sample_put k v = \<lparr>cKey = k, cValue = Some v, cClientID = ''1'', cCommandID = 0\<rparr>"

theorem conflict_free_batches_commute_witness:
  "run_commands (NewDatabase True) ([sample_put 1 ''a''] @ [sample_put 2 ''b'']) =
   run_commands (NewDatabase True) ([sample_put 2 ''b''] @ [sample_put 1 ''a''])"
  by (rule conflict_free_batches_commute) (simp add: sample_put_def Conflict_def)

end
