(* ===== verification/Threshold.thy ===== *)
theory Threshold
  imports Prelude
begin

text \<open>
  The contract shared by the two message counters of the program, the vote counter of a block
  (blockchain/quorum.go) and the timeout counter of a view (pacemaker/timeoutController.go):
  messages are collected per key and per sender, and the message that makes the count of a key
  exceed two thirds of the network size is answered with \<open>True\<close>.
\<close>

fun run_adds :: "('q \<Rightarrow> 'm \<Rightarrow> 'q \<times> bool) \<Rightarrow> 'q \<Rightarrow> 'm list \<Rightarrow> 'q \<times> bool list" where
  "run_adds add q [] = (q, [])"
| "run_adds add q (m # ms) =
     (let (q', b) = add q m; (q'', bs) = run_adds add q' ms in (q'', b # bs))"

lemma run_adds_Cons [simp]:
  "fst (run_adds add q (m # ms)) = fst (run_adds add (fst (add q m)) ms)"
  "snd (run_adds add q (m # ms)) = snd (add q m) # snd (run_adds add (fst (add q m)) ms)"
  by (simp_all add: Let_def split: prod.splits)

declare run_adds.simps(2) [simp del]

definition built_for :: "('m \<Rightarrow> 'k) \<Rightarrow> 'm list \<Rightarrow> bool list \<Rightarrow> 'k \<Rightarrow> nat" where
  "built_for key ms bs k = length (filter (\<lambda>(m, b). b \<and> key m = k) (zip ms bs))"

lemma built_for_Nil [simp]: "built_for key [] bs k = 0"
  by (simp add: built_for_def)

lemma built_for_Cons [simp]:
  "built_for key (m # ms) (b # bs) k = (if b \<and> key m = k then 1 else 0) + built_for key ms bs k"
  by (simp add: built_for_def)

locale threshold_counter =
  fixes wf :: "'q \<Rightarrow> bool"
    and total :: "'q \<Rightarrow> nat"
    and entries :: "'q \<Rightarrow> 'k \<Rightarrow> (NodeID \<times> 'm) list"
    and key :: "'m \<Rightarrow> 'k"
    and sender :: "'m \<Rightarrow> NodeID"
    and add :: "'q \<Rightarrow> 'm \<Rightarrow> 'q \<times> bool"
  assumes wf_distinct: "wf q \<Longrightarrow> distinct (map fst (entries q k))"
    and wf_add: "wf q \<Longrightarrow> wf (fst (add q m))"
    and total_add: "total (fst (add q m)) = total q"
    and add_other: "k \<noteq> key m \<Longrightarrow> entries (fst (add q m)) k = entries q k"
    and add_full: "total q * 2 div 3 < length (entries q (key m)) \<Longrightarrow> add q m = (q, False)"
    and add_entry: "\<not> total q * 2 div 3 < length (entries q (key m)) \<Longrightarrow>
        entries (fst (add q m)) (key m) = AList.update (sender m) m (entries q (key m))"
    and add_built: "\<not> total q * 2 div 3 < length (entries q (key m)) \<Longrightarrow>
        snd (add q m) \<longleftrightarrow> total q * 2 div 3 < length (entries (fst (add q m)) (key m))"
begin

abbreviation full :: "'q \<Rightarrow> 'k \<Rightarrow> bool" where
  "full q k \<equiv> total q * 2 div 3 < length (entries q k)"

lemma built_imp:
  assumes "snd (add q m)"
  shows "\<not> full q (key m)" and "full (fst (add q m)) (key m)"
proof -
  show nf: "\<not> full q (key m)"
    using assms add_full [of q m] by auto
  show "full (fst (add q m)) (key m)"
    using add_built [OF nf] assms by (simp add: total_add)
qed

lemma full_add: "full q k \<Longrightarrow> full (fst (add q m)) k"
  using add_other [of k m q] add_full [of q m] by (cases "k = key m") (auto simp: total_add)

lemma full_add_iff: "full (fst (add q m)) k \<longleftrightarrow> full q k \<or> (snd (add q m) \<and> key m = k)"
proof (cases "k = key m")
  case True
  show ?thesis
  proof (cases "full q k")
    case True
    then show ?thesis by (simp only: full_add) simp
  next
    case False
    with True show ?thesis using add_built [of q m] by (simp only: total_add) auto
  qed
next
  case False
  then show ?thesis by (auto simp: add_other total_add)
qed

lemma built_quorum:
  assumes "wf q" and "snd (add q m)"
  shows "2 * total q < 3 * card (fst ` set (entries (fst (add q m)) (key m)))"
proof -
  have "card (fst ` set (entries (fst (add q m)) (key m))) = length (entries (fst (add q m)) (key m))"
    using wf_distinct [OF wf_add [OF assms(1)]] by (rule distinct_keys_card)
  with built_imp(2) [OF assms(2)] show ?thesis
    by (simp add: two_thirds_nat total_add)
qed

lemma run_adds_wf: "wf q \<Longrightarrow> wf (fst (run_adds add q ms))"
  by (induction ms arbitrary: q) (simp_all add: wf_add)

lemma run_adds_total: "total (fst (run_adds add q ms)) = total q"
  by (induction ms arbitrary: q) (simp_all add: total_add)

lemma full_run_adds: "full q k \<Longrightarrow> full (fst (run_adds add q ms)) k"
  by (induction ms arbitrary: q) (simp_all only: run_adds.simps(1) run_adds_Cons fst_conv full_add)

lemma built_exactly_once:
  "built_for key ms (snd (run_adds add q ms)) k =
     (if full (fst (run_adds add q ms)) k \<and> \<not> full q k then 1 else 0)"
proof (induction ms arbitrary: q)
  case Nil
  then show ?case by simp
next
  case (Cons m ms)
  let ?q = "fst (add q m)"
  show ?case
  proof (cases "snd (add q m) \<and> key m = k")
    case True
    then have "\<not> full q k" and "full ?q k"
      using built_imp [of q m] by auto
    with True Cons [of ?q] full_run_adds [of ?q k ms] show ?thesis
      by (simp only: run_adds_Cons built_for_Cons) simp
  next
    case False
    with full_add_iff [of q m k] have "full ?q k \<longleftrightarrow> full q k" by blast
    with False Cons [of ?q] show ?thesis
      by (simp only: run_adds_Cons built_for_Cons) simp
  qed
qed

end

end
