(* ===== verification/Quorum.thy ===== *)
theory Quorum
  imports Crypto Threshold
begin

text \<open>
  Votes, quorum certificates and the vote counter (blockchain/quorum.go). The inner Go map of
  a block's votes is an association list with distinct voters; Go ranges over a map in an
  unspecified order, so the order in which \<open>getSigs\<close> meets the votes is the parameter
  \<open>ord\<close>, of which only \<open>map_order\<close> (it permutes its argument) is ever assumed.
\<close>

record Vote =
  vView :: View
  vVoter :: NodeID
  vBlockID :: Identifier
  vSig :: Signature

record QC =
  qcLeader :: NodeID
  qcView :: View
  qcBlockID :: Identifier
  qcSigners :: "NodeID list"
  qcAggSig :: AggSig
  qcSignature :: Signature

type_synonym vote_list = "(NodeID \<times> Vote) list"

record Quorum =
  qTotal :: nat
  qVotes :: "Identifier \<rightharpoonup> vote_list"

definition MakeVote :: "'z crypto_scheme \<Rightarrow> View \<Rightarrow> NodeID \<Rightarrow> Identifier \<Rightarrow> Vote go" where
  "MakeVote e view voter i =
     bindG (PrivSign e (IDToByte i) voter None) (\<lambda>r.
       case r of
         Inl err \<Rightarrow> panicG LogFatal
       | Inr sig \<Rightarrow> retG \<lparr>vView = view, vVoter = voter, vBlockID = i, vSig = sig\<rparr>)"

definition NewQuorum :: "nat \<Rightarrow> Quorum" where
  "NewQuorum n = \<lparr>qTotal = n, qVotes = Map.empty\<rparr>"

definition votes_of :: "Quorum \<Rightarrow> Identifier \<Rightarrow> vote_list" where
  "votes_of q i = (case qVotes q i of None \<Rightarrow> [] | Some vs \<Rightarrow> vs)"

definition q_size :: "Quorum \<Rightarrow> Identifier \<Rightarrow> nat" where
  "q_size q i = length (votes_of q i)"

definition superMajority :: "Quorum \<Rightarrow> Identifier \<Rightarrow> bool" where
  "superMajority q i \<longleftrightarrow> q_size q i > qTotal q * 2 div 3"

definition getSigs ::
  "(vote_list \<Rightarrow> vote_list) \<Rightarrow> Quorum \<Rightarrow> Identifier \<Rightarrow> go_error + (AggSig \<times> NodeID list)" where
  "getSigs ord q i =
     (case qVotes q i of
        None \<Rightarrow> Inl (SigsNotExist i)
      | Some vs \<Rightarrow> Inr (map (\<lambda>(_, vote). vSig vote) (ord vs), map (\<lambda>(_, vote). vVoter vote) (ord vs)))"

definition Quorum_Add ::
  "(vote_list \<Rightarrow> vote_list) \<Rightarrow> Quorum \<Rightarrow> Vote \<Rightarrow> Quorum \<times> bool \<times> QC option" where
  "Quorum_Add ord q vote =
     (if superMajority q (vBlockID vote) then (q, False, None)
      else
        let q1 = (case qVotes q (vBlockID vote) of
                    None \<Rightarrow> q\<lparr>qVotes := (qVotes q)(vBlockID vote \<mapsto> [])\<rparr>
                  | Some _ \<Rightarrow> q);
            q2 = q1\<lparr>qVotes := (qVotes q1)(vBlockID vote \<mapsto>
                     AList.update (vVoter vote) vote (votes_of q1 (vBlockID vote)))\<rparr>
        in if superMajority q2 (vBlockID vote) then
             (let (aggSig, signers) =
                    (case getSigs ord q2 (vBlockID vote) of Inl err \<Rightarrow> ([], []) | Inr r \<Rightarrow> r)
              in (q2, True, Some \<lparr>qcLeader = [], qcView = vView vote, qcBlockID = vBlockID vote,
                    qcSigners = signers, qcAggSig = aggSig, qcSignature = []\<rparr>))
           else (q2, False, None))"

section \<open>The counter contract\<close>

definition map_order :: "(vote_list \<Rightarrow> vote_list) \<Rightarrow> bool" where
  "map_order ord \<longleftrightarrow> (\<forall>vs. mset (ord vs) = mset vs)"

definition quorum_wf :: "Quorum \<Rightarrow> bool" where
  "quorum_wf q \<longleftrightarrow> (\<forall>i vs. qVotes q i = Some vs \<longrightarrow>
     distinct (map fst vs) \<and> (\<forall>(voter, vote) \<in> set vs. vVoter vote = voter \<and> vBlockID vote = i))"

definition counted_add :: "Quorum \<Rightarrow> Vote \<Rightarrow> Quorum \<times> bool" where
  "counted_add q vote = (fst (Quorum_Add (\<lambda>vs. vs) q vote), fst (snd (Quorum_Add (\<lambda>vs. vs) q vote)))"

lemma set_update_alist:
  "distinct (map fst al) \<Longrightarrow> set (AList.update k v al) = insert (k, v) {x \<in> set al. fst x \<noteq> k}"
  by (induction al) (auto simp: rev_image_eqI)

lemma Quorum_Add_ord:
  "fst (Quorum_Add ord q vote) = fst (counted_add q vote)"
  "fst (snd (Quorum_Add ord q vote)) = snd (counted_add q vote)"
  by (simp_all add: counted_add_def Quorum_Add_def Let_def split: prod.splits option.splits)

lemma superMajority_iff: "superMajority q i \<longleftrightarrow> qTotal q * 2 div 3 < length (votes_of q i)"
  by (simp add: superMajority_def q_size_def)

lemma counted_add_full: "superMajority q (vBlockID vote) \<Longrightarrow> counted_add q vote = (q, False)"
  by (simp add: counted_add_def Quorum_Add_def)

lemma counted_add_new:
  assumes "\<not> superMajority q (vBlockID vote)"
  shows "fst (counted_add q vote) =
      q\<lparr>qVotes := (qVotes q)(vBlockID vote \<mapsto>
           AList.update (vVoter vote) vote (votes_of q (vBlockID vote)))\<rparr>"
    and "snd (counted_add q vote) \<longleftrightarrow> superMajority (fst (counted_add q vote)) (vBlockID vote)"
  using assms
  by (auto simp: counted_add_def Quorum_Add_def Let_def votes_of_def split: prod.splits option.splits)

lemma Quorum_Add_new:
  assumes "\<not> superMajority q (vBlockID vote)" and "fst (counted_add q vote) = q2"
    and "qVotes q2 (vBlockID vote) = Some vs"
  shows "Quorum_Add ord q vote =
    (if superMajority q2 (vBlockID vote)
     then (q2, True, Some \<lparr>qcLeader = [], qcView = vView vote, qcBlockID = vBlockID vote,
             qcSigners = map (\<lambda>(_, vote). vVoter vote) (ord vs),
             qcAggSig = map (\<lambda>(_, vote). vSig vote) (ord vs), qcSignature = []\<rparr>)
     else (q2, False, None))"
proof -
  have q2: "q2 = q\<lparr>qVotes := (qVotes q)(vBlockID vote \<mapsto> vs)\<rparr>"
    and vs: "vs = AList.update (vVoter vote) vote (votes_of q (vBlockID vote))"
    using assms(2,3) counted_add_new(1) [OF assms(1)] by auto
  show ?thesis
    unfolding q2 vs using assms(1)
    by (cases "qVotes q (vBlockID vote)")
      (simp_all add: Quorum_Add_def getSigs_def Let_def votes_of_def)
qed

lemma quorum_wf_NewQuorum [simp]: "quorum_wf (NewQuorum n)"
  by (simp add: quorum_wf_def NewQuorum_def)

lemma quorum_wf_distinct: "quorum_wf q \<Longrightarrow> distinct (map fst (votes_of q i))"
  by (auto simp: quorum_wf_def votes_of_def split: option.splits)

lemma quorum_wf_entry:
  "quorum_wf q \<Longrightarrow> (voter, vote) \<in> set (votes_of q i) \<Longrightarrow> vVoter vote = voter \<and> vBlockID vote = i"
  unfolding quorum_wf_def votes_of_def by (cases "qVotes q i") fastforce+

lemma quorum_wf_counted_add: "quorum_wf q \<Longrightarrow> quorum_wf (fst (counted_add q vote))"
proof (cases "superMajority q (vBlockID vote)")
  case True
  then show "quorum_wf q \<Longrightarrow> ?thesis" by (simp add: counted_add_full)
next
  case False
  assume wf: "quorum_wf q"
  have "distinct (map fst (AList.update (vVoter vote) vote (votes_of q (vBlockID vote))))"
    by (simp add: distinct_update quorum_wf_distinct [OF wf])
  moreover have "\<forall>(u, w) \<in> set (AList.update (vVoter vote) vote (votes_of q (vBlockID vote))).
      vVoter w = u \<and> vBlockID w = vBlockID vote"
    using quorum_wf_entry [OF wf, of _ _ "vBlockID vote"]
    by (auto simp: set_update_alist quorum_wf_distinct [OF wf])
  ultimately show ?thesis
    using wf by (simp add: counted_add_new(1) [OF False] quorum_wf_def)
qed

interpretation votes: threshold_counter quorum_wf qTotal votes_of vBlockID vVoter counted_add
proof unfold_locales
  fix q :: Quorum and vote :: Vote and i :: Identifier
  show "quorum_wf q \<Longrightarrow> distinct (map fst (votes_of q i))"
    by (rule quorum_wf_distinct)
  show "quorum_wf q \<Longrightarrow> quorum_wf (fst (counted_add q vote))"
    by (rule quorum_wf_counted_add)
  show "qTotal (fst (counted_add q vote)) = qTotal q"
    by (cases "superMajority q (vBlockID vote)") (simp_all add: counted_add_full counted_add_new(1))
  show "i \<noteq> vBlockID vote \<Longrightarrow> votes_of (fst (counted_add q vote)) i = votes_of q i"
    by (cases "superMajority q (vBlockID vote)")
      (simp_all add: counted_add_full counted_add_new(1) votes_of_def)
  show "qTotal q * 2 div 3 < length (votes_of q (vBlockID vote)) \<Longrightarrow> counted_add q vote = (q, False)"
    by (simp add: counted_add_full superMajority_iff)
  show "\<not> qTotal q * 2 div 3 < length (votes_of q (vBlockID vote)) \<Longrightarrow>
      votes_of (fst (counted_add q vote)) (vBlockID vote) =
      AList.update (vVoter vote) vote (votes_of q (vBlockID vote))"
    by (simp add: counted_add_new(1) superMajority_iff votes_of_def)
  show "\<not> qTotal q * 2 div 3 < length (votes_of q (vBlockID vote)) \<Longrightarrow>
      snd (counted_add q vote) \<longleftrightarrow>
      qTotal q * 2 div 3 < length (votes_of (fst (counted_add q vote)) (vBlockID vote))"
    using counted_add_new [of q vote] by (simp add: superMajority_iff)
qed

section \<open>Certificates\<close>

lemma Quorum_Add_QC:
  assumes "map_order ord" and "quorum_wf q" and "Quorum_Add ord q vote = (q', True, Some qc)"
  shows "qcBlockID qc = vBlockID vote" and "qcView qc = vView vote"
    and "mset (qcSigners qc) = mset (map fst (votes_of q' (vBlockID vote)))"
    and "length (qcAggSig qc) = length (qcSigners qc)"
    and "\<forall>(sig, signer) \<in> set (zip (qcAggSig qc) (qcSigners qc)).
           \<exists>w. (signer, w) \<in> set (votes_of q' (vBlockID vote)) \<and> vSig w = sig"
proof -
  have q': "q' = fst (counted_add q vote)" and b: "snd (counted_add q vote)"
    using assms(3) Quorum_Add_ord [of ord q vote] by auto
  have wf': "quorum_wf q'" unfolding q' by (rule quorum_wf_counted_add [OF assms(2)])
  have nf: "\<not> superMajority q (vBlockID vote)"
    using votes.built_imp(1) [OF b] by (simp add: superMajority_iff)
  obtain vs where vs: "qVotes q' (vBlockID vote) = Some vs"
    by (simp add: q' counted_add_new(1) [OF nf])
  then have vo: "votes_of q' (vBlockID vote) = vs" by (simp add: votes_of_def)
  have qc: "qc = \<lparr>qcLeader = [], qcView = vView vote, qcBlockID = vBlockID vote,
      qcSigners = map (\<lambda>(_, vote). vVoter vote) (ord vs),
      qcAggSig = map (\<lambda>(_, vote). vSig vote) (ord vs), qcSignature = []\<rparr>"
    using assms(3) Quorum_Add_new [OF nf q' [symmetric] vs, of ord] by (auto split: if_splits)
  show "qcBlockID qc = vBlockID vote" and "qcView qc = vView vote"
    and "length (qcAggSig qc) = length (qcSigners qc)"
    by (simp_all add: qc)
  have ms: "mset (ord vs) = mset vs" using assms(1) by (simp add: map_order_def)
  have vf: "vVoter w = u" if "(u, w) \<in> set vs" for u w
    using quorum_wf_entry [OF wf', of u w "vBlockID vote"] that vo by simp
  have "image_mset (\<lambda>(_, vote). vVoter vote) (mset vs) = image_mset fst (mset vs)"
    by (rule image_mset_cong) (auto dest: vf)
  then show "mset (qcSigners qc) = mset (map fst (votes_of q' (vBlockID vote)))"
    by (simp add: qc vo ms)
  have "set (ord vs) = set vs" using ms by (rule mset_eq_setD)
  then show "\<forall>(sig, signer) \<in> set (zip (qcAggSig qc) (qcSigners qc)).
      \<exists>w. (signer, w) \<in> set (votes_of q' (vBlockID vote)) \<and> vSig w = sig"
    by (auto simp: qc vo zip_map_map zip_same_conv_map dest: vf)
qed

lemma QC_signers:
  assumes "map_order ord" and "quorum_wf q" and "Quorum_Add ord q vote = (q', True, Some qc)"
  shows "distinct (qcSigners qc)" and "2 * qTotal q < 3 * length (qcSigners qc)"
    and "set (qcSigners qc) = fst ` set (votes_of q' (vBlockID vote))"
proof -
  have q': "q' = fst (counted_add q vote)" and b: "snd (counted_add q vote)"
    using assms(3) Quorum_Add_ord [of ord q vote] by auto
  have ms: "mset (qcSigners qc) = mset (map fst (votes_of q' (vBlockID vote)))"
    by (rule Quorum_Add_QC(3) [OF assms])
  show set: "set (qcSigners qc) = fst ` set (votes_of q' (vBlockID vote))"
    using arg_cong [OF ms, of set_mset] by simp
  have "distinct (map fst (votes_of q' (vBlockID vote)))"
    unfolding q' by (rule quorum_wf_distinct [OF quorum_wf_counted_add [OF assms(2)]])
  with ms show d: "distinct (qcSigners qc)" by (metis mset_eq_imp_distinct_iff)
  show "2 * qTotal q < 3 * length (qcSigners qc)"
    using votes.built_quorum [OF assms(2) b] distinct_card [OF d] set q' by simp
qed

text \<open>
  C15: when \<open>Add\<close> reports a certificate, the certificate is for the block and the view of the
  vote just added, its signers are distinct, they are more than two thirds of the network, and
  each comes with the signature of a vote for that block that the counter holds under its name.
\<close>

theorem quorum_add_certificate:
  assumes "map_order ord" and "quorum_wf q" and "Quorum_Add ord q vote = (q', True, Some qc)"
  shows "qcBlockID qc = vBlockID vote \<and> qcView qc = vView vote \<and>
    distinct (qcSigners qc) \<and> 2 * qTotal q < 3 * length (qcSigners qc) \<and>
    length (qcAggSig qc) = length (qcSigners qc) \<and>
    (\<forall>(sig, signer) \<in> set (zip (qcAggSig qc) (qcSigners qc)).
       \<exists>w. (signer, w) \<in> set (votes_of q' (vBlockID vote)) \<and> vVoter w = signer \<and>
           vBlockID w = vBlockID vote \<and> vSig w = sig)"
proof -
  have "quorum_wf q'"
    using assms(3) Quorum_Add_ord(1) [of ord q vote] quorum_wf_counted_add [OF assms(2), of vote]
    by simp
  then show ?thesis
    using Quorum_Add_QC [OF assms] QC_signers [OF assms]
    by (fastforce dest: quorum_wf_entry)
qed

definition sample_vote :: "NodeID \<Rightarrow> Identifier \<Rightarrow> Vote" where
  "sample_vote voter i = \<lparr>vView = 5, vVoter = voter, vBlockID = i, vSig = []\<rparr>"

definition sample_quorum :: "NodeID list \<Rightarrow> Identifier \<Rightarrow> Quorum" where
  "sample_quorum voters i = fst (run_adds counted_add (NewQuorum 4) (map (\<lambda>u. sample_vote u i) voters))"

lemma sample_quorum_wf: "quorum_wf (sample_quorum us i)"
  unfolding sample_quorum_def by (rule votes.run_adds_wf) simp

lemmas quorum_eval = sample_quorum_def sample_vote_def counted_add_def Quorum_Add_def NewQuorum_def
  superMajority_def q_size_def votes_of_def getSigs_def Let_def

theorem quorum_add_certificate_witness:
  "\<exists>q' qc. Quorum_Add rev (sample_quorum [''1'', ''2''] 7) (sample_vote ''3'' 7) = (q', True, Some qc) \<and>
     distinct (qcSigners qc) \<and> 2 * 4 < 3 * length (qcSigners qc)"
proof -
  have ord: "map_order rev" by (simp add: map_order_def)
  obtain q' qc where add:
    "Quorum_Add rev (sample_quorum [''1'', ''2''] 7) (sample_vote ''3'' 7) = (q', True, Some qc)"
    by (simp add: quorum_eval)
  have "qTotal (sample_quorum [''1'', ''2''] 7) = 4"
    unfolding sample_quorum_def votes.run_adds_total by (simp add: NewQuorum_def)
  then show ?thesis
    using quorum_add_certificate [OF ord sample_quorum_wf add] add by auto
qed

text \<open>
  Over any sequence of votes, a block that had no quorum before gets exactly one
  certificate if it has a quorum at the end, and none otherwise.
\<close>

theorem quorum_certificate_once:
  "built_for vBlockID vs (snd (run_adds counted_add q vs)) i =
     (if superMajority (fst (run_adds counted_add q vs)) i \<and> \<not> superMajority q i then 1 else 0)"
  unfolding superMajority_iff by (rule votes.built_exactly_once)

text \<open>
  C6: two certificates, built by any two counters of a network of the same size, whose signers
  all belong to a set of at most that many nodes, have more than a third of the network in
  common; so, if fewer than a third of the nodes misbehave, some well-behaved node signed both.
\<close>

theorem certificates_share_honest_signer:
  assumes "map_order ord1" "quorum_wf q1" "Quorum_Add ord1 q1 v1 = (q1', True, Some qc1)"
    and "map_order ord2" "quorum_wf q2" "Quorum_Add ord2 q2 v2 = (q2', True, Some qc2)"
    and "qTotal q1 = n" "qTotal q2 = n" "finite E" "card E \<le> n"
    and "set (qcSigners qc1) \<subseteq> E" "set (qcSigners qc2) \<subseteq> E"
    and "finite B" "3 * card B \<le> n"
  shows "n < 3 * card (set (qcSigners qc1) \<inter> set (qcSigners qc2)) \<and>
    (\<exists>u. u \<in> set (qcSigners qc1) \<inter> set (qcSigners qc2) \<and> u \<notin> B)"
proof -
  have "2 * n < 3 * card (set (qcSigners qc1))"
    using QC_signers(1,2) [OF assms(1-3)] assms(7) by (simp add: distinct_card)
  moreover have "2 * n < 3 * card (set (qcSigners qc2))"
    using QC_signers(1,2) [OF assms(4-6)] assms(8) by (simp add: distinct_card)
  ultimately have more: "n < 3 * card (set (qcSigners qc1) \<inter> set (qcSigners qc2))"
    using quorums_overlap [OF assms(9,10,11) _ assms(12)] by simp
  moreover have "\<not> set (qcSigners qc1) \<inter> set (qcSigners qc2) \<subseteq> B"
    using more assms(14) card_mono [OF assms(13)] by (meson leD le_trans mult_le_mono2)
  ultimately show ?thesis by blast
qed

theorem certificates_share_honest_signer_witness:
  "\<exists>q1 q2 qc1 qc2.
     Quorum_Add rev (sample_quorum [''1'', ''2''] 7) (sample_vote ''3'' 7) = (q1, True, Some qc1) \<and>
     Quorum_Add rev (sample_quorum [''2'', ''3''] 8) (sample_vote ''4'' 8) = (q2, True, Some qc2) \<and>
     (\<exists>u. u \<in> set (qcSigners qc1) \<inter> set (qcSigners qc2) \<and> u \<notin> {''2''})"
proof -
  have ord: "map_order rev" by (simp add: map_order_def)
  obtain q1 qc1 where a1:
    "Quorum_Add rev (sample_quorum [''1'', ''2''] 7) (sample_vote ''3'' 7) = (q1, True, Some qc1)"
    "set (qcSigners qc1) \<subseteq> {''1'', ''2'', ''3'', ''4''}"
    by (simp add: quorum_eval)
  obtain q2 qc2 where a2:
    "Quorum_Add rev (sample_quorum [''2'', ''3''] 8) (sample_vote ''4'' 8) = (q2, True, Some qc2)"
    "set (qcSigners qc2) \<subseteq> {''1'', ''2'', ''3'', ''4''}"
    by (simp add: quorum_eval)
  have t: "qTotal (sample_quorum us i) = 4" for us i
    unfolding sample_quorum_def votes.run_adds_total by (simp add: NewQuorum_def)
  show ?thesis
    using a1(1) a2(1)
      certificates_share_honest_signer [OF ord sample_quorum_wf a1(1) ord sample_quorum_wf a2(1)
        t t _ _ a1(2) a2(2), of "{''2''}"]
    by auto
qed

end
