(* ===== verification/Block.thy ===== *)
theory Block
  imports Config Db Quorum
begin

text \<open>
  Transactions (message/message.go), blocks and their construction (blockchain/block.go), and
  the block container that makes a block a vertex of the forest (blockchain/container.go).

  The program mutates a quorum certificate after blocks point to it, so certificates live in a
  store: a \<open>*QC\<close> is an address (\<open>qcref\<close>), nil is \<open>None\<close>, and a function that dereferences
  one takes the store \<open>h\<close>. Blocks themselves are never changed once they are in the block tree,
  so a \<open>*Block\<close> is the block.
\<close>

type_synonym qcref = nat
type_synonym qcheap = "qcref \<Rightarrow> QC"

text \<open>
  The batch of the Phalanx library is only stored, compared with nil and passed on, so the
  pointer is all that is kept of it.
\<close>

type_synonym PartialOrderBatch = nat

record Transaction =
  txCommand :: Command
  txProperties :: "(string \<times> string) list"
  txTimestamp :: int
  txNodeID :: NodeID
  txID :: string

record Block =
  bView :: View
  bQC :: "qcref option"
  bProposer :: NodeID
  bTimestamp :: int
  bPayload :: "Transaction list"
  bPrevID :: Identifier
  bSig :: Signature
  bID :: Identifier
  bPBatch :: "PartialOrderBatch option"

record rawBlock =
  rbView :: View
  rbQC :: "QC option"
  rbProposer :: NodeID
  rbPayload :: "string list"
  rbPrevID :: Identifier
  rbSig :: Signature
  rbID :: Identifier

record rawPBlock =
  rpView :: View
  rpQC :: "QC option"
  rpProposer :: NodeID
  rpPayload :: "PartialOrderBatch option"
  rpPrevID :: Identifier
  rpSig :: Signature
  rpID :: Identifier

text \<open>What the program passes to \<open>crypto.MakeID\<close>.\<close>

datatype id_body = RawBlock rawBlock | RawPBlock rawPBlock | RawText string

text \<open>
  The environment of a replica: the key tables and ECDSA, the configuration, the JSON encoder
  behind \<open>DefaultEncoder\<close>, SHA3-256, and the order in which Go ranges over the votes of a block.
\<close>

record env = crypto +
  cfg :: Config
  json_Marshal :: "id_body \<Rightarrow> string option"
  sha3_256 :: "string \<Rightarrow> string"
  vote_order :: "vote_list \<Rightarrow> vote_list"

definition blockID_of :: "env \<Rightarrow> id_body \<Rightarrow> Identifier go" where
  "blockID_of e body = MakeID (json_Marshal e) (sha3_256 e) body"

definition empty_block :: Block where
  "empty_block = \<lparr>bView = 0, bQC = None, bProposer = [], bTimestamp = 0, bPayload = [],
     bPrevID = 0, bSig = [], bID = 0, bPBatch = None\<rparr>"

text \<open>The signature of the fresh identifier; an error of the signer is dropped.\<close>

definition sign_block :: "env \<Rightarrow> Block \<Rightarrow> NodeID \<Rightarrow> Block go" where
  "sign_block e b nodeID =
     bindG (PrivSign e (IDToByte (bID b)) nodeID None) (\<lambda>r.
       retG (b\<lparr>bSig := (case r of Inl err \<Rightarrow> [] | Inr sig \<Rightarrow> sig)\<rparr>))"

definition makeID :: "env \<Rightarrow> qcheap \<Rightarrow> Block \<Rightarrow> NodeID \<Rightarrow> Block go" where
  "makeID e h b nodeID =
     (let raw = \<lparr>rbView = bView b, rbQC = map_option h (bQC b), rbProposer = bProposer b,
                 rbPayload = map txID (bPayload b), rbPrevID = bPrevID b, rbSig = [], rbID = 0\<rparr>
      in bindG (blockID_of e (RawBlock raw)) (\<lambda>i. sign_block e (b\<lparr>bID := i\<rparr>) nodeID))"

definition makePID :: "env \<Rightarrow> qcheap \<Rightarrow> Block \<Rightarrow> NodeID \<Rightarrow> Block go" where
  "makePID e h b nodeID =
     (let raw = \<lparr>rpView = bView b, rpQC = map_option h (bQC b), rpProposer = bProposer b,
                 rpPayload = bPBatch b, rpPrevID = bPrevID b, rpSig = [], rpID = 0\<rparr>
      in bindG (blockID_of e (RawPBlock raw)) (\<lambda>i. sign_block e (b\<lparr>bID := i\<rparr>) nodeID))"

definition MakeBlock ::
  "env \<Rightarrow> qcheap \<Rightarrow> View \<Rightarrow> qcref option \<Rightarrow> Identifier \<Rightarrow> Transaction list \<Rightarrow> NodeID \<Rightarrow> Block go" where
  "MakeBlock e h view qc prevID payload proposer =
     makeID e h (empty_block\<lparr>bView := view, bProposer := proposer, bQC := qc, bPayload := payload,
       bPrevID := prevID\<rparr>) proposer"

definition MakePBlock ::
  "env \<Rightarrow> qcheap \<Rightarrow> View \<Rightarrow> qcref option \<Rightarrow> Identifier \<Rightarrow> PartialOrderBatch option \<Rightarrow> NodeID \<Rightarrow> Block go" where
  "MakePBlock e h view qc prevID pBatch proposer =
     makePID e h (empty_block\<lparr>bView := view, bProposer := proposer, bQC := qc, bPBatch := pBatch,
       bPrevID := prevID\<rparr>) proposer"

section \<open>Blocks as vertices\<close>

definition VertexID :: "Block \<Rightarrow> Identifier" where
  "VertexID b = bID b"

definition Level :: "Block \<Rightarrow> nat" where
  "Level b = u64 (bView b)"

definition Parent :: "qcheap \<Rightarrow> Block \<Rightarrow> (Identifier \<times> nat) go" where
  "Parent h b =
     (case bQC b of
        None \<Rightarrow> panicG NilDereference
      | Some r \<Rightarrow> retG (bPrevID b, u64 (qcView (h r))))"

lemma MakeBlock_fields:
  "go_all (\<lambda>b. bView b = view \<and> bQC b = qc \<and> bPrevID b = prevID \<and> bPayload b = payload \<and>
     bProposer b = proposer \<and> bPBatch b = None) (MakeBlock e h view qc prevID payload proposer)"
  by (auto simp: go_all_def MakeBlock_def makeID_def sign_block_def empty_block_def bindG_eq_Ret Let_def)

lemma MakePBlock_fields:
  "go_all (\<lambda>b. bView b = view \<and> bQC b = qc \<and> bPrevID b = prevID \<and> bPBatch b = pBatch \<and>
     bProposer b = proposer \<and> bPayload b = []) (MakePBlock e h view qc prevID pBatch proposer)"
  by (auto simp: go_all_def MakePBlock_def makePID_def sign_block_def empty_block_def bindG_eq_Ret Let_def)

end
