(* ===== verification/Forest.thy ===== *)
theory Forest
  imports Block
begin

text \<open>
  The levelled forest of blocks (blockchain/leveled_forrest.go) and its iterator
  (blockchain/vertex.go).

  Containers are shared and updated in place: the identifier table, the level table and the
  children lists all point to them. They live in a store \<open>containers\<close>, a
  \<open>*vertexContainer\<close> is an address, and \<open>next_addr\<close> is the first address not yet used.
  Levels are \<open>uint64\<close> values, kept as naturals below \<open>2 ^ 64\<close>.
\<close>

type_synonym addr = nat

record vertexContainer =
  vcID :: Identifier
  vcLevel :: nat
  vcChildren :: "addr list"
  vcVertex :: "Block option"

record LevelledForest =
  containers :: "addr \<Rightarrow> vertexContainer"
  next_addr :: addr
  vertices :: "Identifier \<rightharpoonup> addr"
  verticesAtLevel :: "nat \<rightharpoonup> addr list"
  LowestLevel :: nat

definition empty_container :: "Identifier \<Rightarrow> nat \<Rightarrow> vertexContainer" where
  "empty_container i level = \<lparr>vcID = i, vcLevel = level, vcChildren = [], vcVertex = None\<rparr>"

definition NewLevelledForest :: LevelledForest where
  "NewLevelledForest = \<lparr>containers = (\<lambda>_. empty_container 0 0), next_addr = 0,
     vertices = Map.empty, verticesAtLevel = Map.empty, LowestLevel = 0\<rparr>"

section \<open>Queries\<close>

text \<open>Reading a missing level gives the nil slice.\<close>

definition at_level :: "LevelledForest \<Rightarrow> nat \<Rightarrow> addr list" where
  "at_level f l = (case verticesAtLevel f l of None \<Rightarrow> [] | Some vs \<Rightarrow> vs)"

definition isEmptyContainer :: "LevelledForest \<Rightarrow> addr \<Rightarrow> bool" where
  "isEmptyContainer f a \<longleftrightarrow> vcVertex (containers f a) = None"

definition HasVertex :: "LevelledForest \<Rightarrow> Identifier \<Rightarrow> bool" where
  "HasVertex f i =
     (case vertices f i of None \<Rightarrow> False | Some a \<Rightarrow> \<not> isEmptyContainer f a)"

definition GetVertex :: "LevelledForest \<Rightarrow> Identifier \<Rightarrow> Block option" where
  "GetVertex f i =
     (case vertices f i of
        None \<Rightarrow> None
      | Some a \<Rightarrow> if isEmptyContainer f a then None else vcVertex (containers f a))"

subsection \<open>The iterator\<close>

record VertexIterator =
  it_data :: "addr list"
  it_idx :: nat
  it_next :: "Block option"

function preLoad :: "LevelledForest \<Rightarrow> VertexIterator \<Rightarrow> VertexIterator" where
  "preLoad f it =
     (if it_idx it < length (it_data it) then
        (case vcVertex (containers f (it_data it ! it_idx it)) of
           Some v \<Rightarrow> it\<lparr>it_idx := Suc (it_idx it), it_next := Some v\<rparr>
         | None \<Rightarrow> preLoad f (it\<lparr>it_idx := Suc (it_idx it)\<rparr>))
      else it\<lparr>it_next := None\<rparr>)"
  by pat_completeness auto
termination
  by (relation "measure (\<lambda>(f, it). length (it_data it) - it_idx it)") auto

declare preLoad.simps [simp del]

definition NextVertex :: "LevelledForest \<Rightarrow> VertexIterator \<Rightarrow> VertexIterator \<times> Block option" where
  "NextVertex f it = (preLoad f it, it_next it)"

definition HasNext :: "VertexIterator \<Rightarrow> bool" where
  "HasNext it \<longleftrightarrow> it_next it \<noteq> None"

definition newVertexIterator :: "LevelledForest \<Rightarrow> addr list \<Rightarrow> VertexIterator" where
  "newVertexIterator f vertexList = preLoad f \<lparr>it_data = vertexList, it_idx = 0, it_next = None\<rparr>"

text \<open>
  An identifier without a container reads as the nil pointer, whose \<open>children\<close> cannot be taken.
\<close>

definition GetChildren :: "LevelledForest \<Rightarrow> Identifier \<Rightarrow> VertexIterator go" where
  "GetChildren f i =
     (case vertices f i of
        None \<Rightarrow> panicG NilDereference
      | Some a \<Rightarrow> retG (newVertexIterator f (vcChildren (containers f a))))"

definition full_count :: "LevelledForest \<Rightarrow> addr list \<Rightarrow> nat" where
  "full_count f as = length (filter (\<lambda>a. vcVertex (containers f a) \<noteq> None) as)"

definition GetNumberOfChildren :: "LevelledForest \<Rightarrow> Identifier \<Rightarrow> nat go" where
  "GetNumberOfChildren f i =
     (case vertices f i of
        None \<Rightarrow> panicG NilDereference
      | Some a \<Rightarrow> retG (full_count f (vcChildren (containers f a))))"

definition GetVerticesAtLevel :: "LevelledForest \<Rightarrow> nat \<Rightarrow> VertexIterator" where
  "GetVerticesAtLevel f level = newVertexIterator f (at_level f level)"

definition GetNumberOfVerticesAtLevel :: "LevelledForest \<Rightarrow> nat \<Rightarrow> nat" where
  "GetNumberOfVerticesAtLevel f level = full_count f (at_level f level)"

section \<open>Insertion\<close>

definition getOrCreateVertexContainer ::
  "LevelledForest \<Rightarrow> Identifier \<Rightarrow> nat \<Rightarrow> LevelledForest \<times> addr" where
  "getOrCreateVertexContainer f i level =
     (case vertices f i of
        Some a \<Rightarrow> (f, a)
      | None \<Rightarrow>
          (let a = next_addr f
           in (f\<lparr>containers := (containers f)(a := empty_container i level),
                 next_addr := Suc a,
                 vertices := (vertices f)(i \<mapsto> a),
                 verticesAtLevel := (verticesAtLevel f)(level \<mapsto> at_level f level @ [a])\<rparr>, a)))"

definition set_container :: "LevelledForest \<Rightarrow> addr \<Rightarrow> vertexContainer \<Rightarrow> LevelledForest" where
  "set_container f a c = f\<lparr>containers := (containers f)(a := c)\<rparr>"

text \<open>\<open>a\<close> is the container of \<open>v\<close>, which has just been filled.\<close>

definition registerWithParent :: "qcheap \<Rightarrow> LevelledForest \<Rightarrow> addr \<Rightarrow> Block \<Rightarrow> LevelledForest go" where
  "registerWithParent h f a v =
     (if vcLevel (containers f a) \<le> LowestLevel f then retG f
      else bindG (Parent h v) (\<lambda>(parentID, parentView).
        if parentView < LowestLevel f then retG f
        else
          let (f', pa) = getOrCreateVertexContainer f parentID parentView;
              pc = containers f' pa
          in retG (set_container f' pa (pc\<lparr>vcChildren := vcChildren pc @ [a]\<rparr>))))"

definition AddVertex :: "qcheap \<Rightarrow> LevelledForest \<Rightarrow> Block \<Rightarrow> LevelledForest go" where
  "AddVertex h f v =
     (if Level v < LowestLevel f then retG f
      else
        let (f1, a) = getOrCreateVertexContainer f (VertexID v) (Level v)
        in if \<not> isEmptyContainer f1 a then retG f1
           else
             let f2 = set_container f1 a ((containers f1 a)\<lparr>vcVertex := Some v\<rparr>)
             in registerWithParent h f2 a v)"

section \<open>Pruning\<close>

text \<open>
  The first loop of \<open>PruneUpToLevel\<close>, which collects the levels of the committed branch. It
  follows the parent of the first vertex of each level and need not stop.
\<close>

partial_function (option) committed_levels ::
  "qcheap \<Rightarrow> LevelledForest \<Rightarrow> nat \<Rightarrow> (nat \<Rightarrow> bool) \<Rightarrow> (nat \<Rightarrow> bool) go" where
  "committed_levels h f l committed =
     (if LowestLevel f \<le> l \<and> 1 < l then
        (case at_level f l of
           [] \<Rightarrow> panicG IndexOutOfRange
         | a # _ \<Rightarrow>
             (case vcVertex (containers f a) of
                None \<Rightarrow> panicG NilDereference
              | Some v \<Rightarrow>
                  bindG (Parent h v) (\<lambda>(parentID, _).
                    case GetVertex f parentID of
                      None \<Rightarrow> retG committed
                    | Some p \<Rightarrow>
                        if Level p < LowestLevel f then retG committed
                        else committed_levels h f (Level p) (committed(Level p := True)))))
      else retG committed)"

text \<open>One level of the second loop: its containers leave the table, the forked blocks are kept.\<close>

fun prune_containers ::
  "LevelledForest \<Rightarrow> bool \<Rightarrow> addr list \<Rightarrow> Block list \<Rightarrow> nat \<Rightarrow> LevelledForest \<times> Block list \<times> nat" where
  "prune_containers f forked [] fs n = (f, fs, n)"
| "prune_containers f forked (a # as) fs n =
     (let fs' = (if forked then (case vcVertex (containers f a) of None \<Rightarrow> fs | Some v \<Rightarrow> fs @ [v]) else fs);
          f' = f\<lparr>vertices := (vertices f)(vcID (containers f a) := None)\<rparr>
      in prune_containers f' forked as fs' (Suc n))"

function prune_levels ::
  "LevelledForest \<Rightarrow> (nat \<Rightarrow> bool) \<Rightarrow> nat \<Rightarrow> nat \<Rightarrow> Block list \<Rightarrow> nat \<Rightarrow> LevelledForest \<times> Block list \<times> nat" where
  "prune_levels f committed l level fs n =
     (if l < level then
        (case prune_containers f (\<not> committed l \<and> 1 < l) (at_level f l) fs n of
           (f1, fs1, n1) \<Rightarrow>
             prune_levels (f1\<lparr>verticesAtLevel := (verticesAtLevel f1)(l := None)\<rparr>) committed (Suc l) level fs1 n1)
      else (f, fs, n))"
  by pat_completeness auto
termination
  by (relation "measure (\<lambda>(f, committed, l, level, fs, n). level - l)") auto

declare prune_levels.simps [simp del]

definition PruneUpToLevel ::
  "qcheap \<Rightarrow> LevelledForest \<Rightarrow> nat \<Rightarrow> (LevelledForest \<times> (go_error + Block list \<times> nat)) go" where
  "PruneUpToLevel h f level =
     (if level < LowestLevel f then retG (f, Inl (LowestLevelTooSmall level (LowestLevel f)))
      else bindG (committed_levels h f level (\<lambda>_. False)) (\<lambda>committed.
        case prune_levels f committed (LowestLevel f) level [] 0 of
          (f', forkedBlocks, prunedBlockNo) \<Rightarrow>
            retG (f'\<lparr>LowestLevel := level\<rparr>, Inr (forkedBlocks, prunedBlockNo))))"

section \<open>Verification of a vertex\<close>

definition isEquivalentToStoredVertex ::
  "qcheap \<Rightarrow> LevelledForest \<Rightarrow> Block \<Rightarrow> (go_error + bool) go" where
  "isEquivalentToStoredVertex h f v =
     (case GetVertex f (VertexID v) of
        None \<Rightarrow> retG (Inr False)
      | Some stored \<Rightarrow>
          if Level v \<noteq> Level stored then retG (Inl (ConflictingVertices (VertexID v)))
          else if Level v \<le> LowestLevel f then retG (Inr True)
          else bindG (Parent h v) (\<lambda>(newParentId, newParentView).
            bindG (Parent h stored) (\<lambda>(storedParentId, storedParentView).
              if newParentId \<noteq> storedParentId then retG (Inl (ConflictingVertices (VertexID v)))
              else if newParentView \<noteq> storedParentView then retG (Inl (ConflictingVertices (VertexID v)))
              else retG (Inr True))))"

definition verifyParent :: "qcheap \<Rightarrow> LevelledForest \<Rightarrow> Block \<Rightarrow> go_error option go" where
  "verifyParent h f v =
     bindG (Parent h v) (\<lambda>(parentID, parentLevel).
       if \<not> Level v > parentLevel then retG (Some (ParentLevelNotSmaller parentLevel (Level v)))
       else
         case GetVertex f parentID of
           None \<Rightarrow> retG None
         | Some p \<Rightarrow>
             if Level p \<noteq> parentLevel
             then retG (Some (ParentLevelDiffers (VertexID v) parentLevel (Level p)))
             else retG None)"

definition VerifyVertex :: "qcheap \<Rightarrow> LevelledForest \<Rightarrow> Block \<Rightarrow> go_error option go" where
  "VerifyVertex h f v =
     (if Level v < LowestLevel f then retG None
      else bindG (isEquivalentToStoredVertex h f v) (\<lambda>r.
        case r of
          Inl err \<Rightarrow> retG (Some (InvalidVertex err))
        | Inr isKnownVertex \<Rightarrow>
            if isKnownVertex then retG None
            else if Level v = LowestLevel f then retG None
            else verifyParent h f v))"

section \<open>The iterator visits the full containers in order\<close>

definition full_blocks :: "LevelledForest \<Rightarrow> addr list \<Rightarrow> Block list" where
  "full_blocks f as = List.map_filter (\<lambda>a. vcVertex (containers f a)) as"

lemma full_blocks_simps [simp]:
  "full_blocks f [] = []"
  "full_blocks f (a # as) =
     (case vcVertex (containers f a) of None \<Rightarrow> [] | Some v \<Rightarrow> [v]) @ full_blocks f as"
  by (auto simp: full_blocks_def map_filter_simps split: option.splits)

lemma full_blocks_append [simp]: "full_blocks f (xs @ ys) = full_blocks f xs @ full_blocks f ys"
  by (induction xs) (auto split: option.splits)

lemma preLoad_data [simp]: "it_data (preLoad f it) = it_data it"
  by (induction f it rule: preLoad.induct) (subst preLoad.simps, auto split: option.splits)

lemma preLoad_progress:
  "it_next (preLoad f it) \<noteq> None \<Longrightarrow>
     it_idx it < it_idx (preLoad f it) \<and> it_idx (preLoad f it) \<le> length (it_data it)"
proof (induction f it rule: preLoad.induct)
  case (1 f it)
  then show ?case
    by (subst (asm) (2) preLoad.simps, subst (1 2) preLoad.simps)
      (auto split: option.splits if_splits)
qed

lemma preLoad_end:
  "it_next (preLoad f it) = None \<Longrightarrow> length (it_data it) \<le> it_idx (preLoad f it)"
proof (induction f it rule: preLoad.induct)
  case (1 f it)
  show ?case
  proof (cases "it_idx it < length (it_data it) \<and> vcVertex (containers f (it_data it ! it_idx it)) = None")
    case True
    with 1 show ?thesis by (simp add: preLoad.simps [of f it])
  next
    case False
    with "1.prems" show ?thesis
      by (auto simp: preLoad.simps [of f it] split: if_splits option.splits)
  qed
qed

lemma preLoad_blocks:
  "(case it_next (preLoad f it) of None \<Rightarrow> [] | Some v \<Rightarrow> [v]) @
     full_blocks f (drop (it_idx (preLoad f it)) (it_data it)) =
   full_blocks f (drop (it_idx it) (it_data it))"
proof (induction f it rule: preLoad.induct)
  case (1 f it)
  show ?case
  proof (cases "it_idx it < length (it_data it)")
    case True
    then have d: "drop (it_idx it) (it_data it) =
        it_data it ! it_idx it # drop (Suc (it_idx it)) (it_data it)"
      by (rule Cons_nth_drop_Suc [symmetric])
    show ?thesis
    proof (cases "vcVertex (containers f (it_data it ! it_idx it))")
      case None
      with 1 True d show ?thesis by (simp add: preLoad.simps [of f it])
    next
      case (Some v)
      with True d show ?thesis by (simp add: preLoad.simps [of f it])
    qed
  next
    case False
    then show ?thesis by (simp add: preLoad.simps [of f it])
  qed
qed

text \<open>The loop \<open>for I := iterator; I.HasNext(); { ... I.NextVertex() ... }\<close> of the callers.\<close>

function iterate_blocks :: "LevelledForest \<Rightarrow> VertexIterator \<Rightarrow> Block list" where
  "iterate_blocks f it =
     (case snd (NextVertex f it) of
        None \<Rightarrow> []
      | Some v \<Rightarrow> v # iterate_blocks f (fst (NextVertex f it)))"
  by pat_completeness auto
termination
proof (relation "measure (\<lambda>(f, it). if it_next it = None then 0 else Suc (length (it_data it) - it_idx it))")
  fix f it v
  assume "snd (NextVertex f it) = Some v"
  then show "((f, fst (NextVertex f it)), f, it)
      \<in> measure (\<lambda>(f, it). if it_next it = None then 0 else Suc (length (it_data it) - it_idx it))"
    using preLoad_progress [of f it] by (auto simp: NextVertex_def)
qed simp

declare iterate_blocks.simps [simp del]

lemma preLoad_rest:
  "(case it_next (preLoad f it) of None \<Rightarrow> []
    | Some v \<Rightarrow> v # full_blocks f (drop (it_idx (preLoad f it)) (it_data (preLoad f it)))) =
   full_blocks f (drop (it_idx it) (it_data it))"
  using preLoad_blocks [of f it] preLoad_end [of f it] by (auto split: option.splits)

lemma iterate_blocks_eq:
  "iterate_blocks f it =
     (case it_next it of None \<Rightarrow> [] | Some v \<Rightarrow> v # full_blocks f (drop (it_idx it) (it_data it)))"
proof (induction f it rule: iterate_blocks.induct)
  case (1 f it)
  show ?case
  proof (cases "it_next it")
    case None
    then show ?thesis by (simp add: iterate_blocks.simps [of f it] NextVertex_def)
  next
    case (Some v)
    then have "iterate_blocks f it = v # iterate_blocks f (preLoad f it)"
      by (simp add: iterate_blocks.simps [of f it] NextVertex_def)
    also have "iterate_blocks f (preLoad f it) = full_blocks f (drop (it_idx it) (it_data it))"
      using 1 [of v, unfolded NextVertex_def fst_conv snd_conv] Some preLoad_rest [of f it]
      by simp
    finally show ?thesis using Some by simp
  qed
qed

lemma iterate_new: "iterate_blocks f (newVertexIterator f as) = full_blocks f as"
  using preLoad_rest [of f "\<lparr>it_data = as, it_idx = 0, it_next = None\<rparr>"]
  by (simp add: iterate_blocks_eq newVertexIterator_def)

end
