(* ===== verification/Forest_Inv.thy ===== *)
theory Forest_Inv
  imports Forest
begin

text \<open>
  The representation invariant of the levelled forest, that insertion and pruning keep it, what
  they do to lookups, and the conditions under which pruning stops.
\<close>

section \<open>The invariant\<close>

text \<open>
  The identifier table and the level table list the same containers: every identifier's
  container carries that identifier and is listed at its level, every listed container is the
  one its identifier leads to, no level lists a container twice, and no level below
  \<open>LowestLevel\<close> is populated. A stored block carries the identifier it is found under, and the
  children of a container are full containers whose blocks name its identifier as their parent.
\<close>

definition tables_agree :: "LevelledForest \<Rightarrow> bool" where
  "tables_agree f \<longleftrightarrow>
     (\<forall>i a. vertices f i = Some a \<longrightarrow>
        a < next_addr f \<and> vcID (containers f a) = i \<and> a \<in> set (at_level f (vcLevel (containers f a)))) \<and>
     (\<forall>l a. a \<in> set (at_level f l) \<longrightarrow>
        vcLevel (containers f a) = l \<and> vertices f (vcID (containers f a)) = Some a \<and> LowestLevel f \<le> l) \<and>
     (\<forall>l. distinct (at_level f l))"

definition blocks_agree :: "LevelledForest \<Rightarrow> bool" where
  "blocks_agree f \<longleftrightarrow>
     (\<forall>a < next_addr f. \<forall>v. vcVertex (containers f a) = Some v \<longrightarrow> VertexID v = vcID (containers f a)) \<and>
     (\<forall>a < next_addr f. \<forall>c \<in> set (vcChildren (containers f a)).
        c < next_addr f \<and>
        (\<exists>v. vcVertex (containers f c) = Some v \<and> bPrevID v = vcID (containers f a)))"

definition forest_inv :: "LevelledForest \<Rightarrow> bool" where
  "forest_inv f \<longleftrightarrow> tables_agree f \<and> blocks_agree f"

lemma tables_agreeD:
  assumes "tables_agree f"
  shows "vertices f i = Some a \<Longrightarrow> a < next_addr f"
    and "vertices f i = Some a \<Longrightarrow> vcID (containers f a) = i"
    and "vertices f i = Some a \<Longrightarrow> a \<in> set (at_level f (vcLevel (containers f a)))"
    and "a \<in> set (at_level f l) \<Longrightarrow> vcLevel (containers f a) = l"
    and "a \<in> set (at_level f l) \<Longrightarrow> vertices f (vcID (containers f a)) = Some a"
    and "a \<in> set (at_level f l) \<Longrightarrow> LowestLevel f \<le> l"
    and "distinct (at_level f l)"
  using assms by (auto simp: tables_agree_def)

lemma tables_agreeI:
  assumes "\<And>i a. vertices f i = Some a \<Longrightarrow>
      a < next_addr f \<and> vcID (containers f a) = i \<and> a \<in> set (at_level f (vcLevel (containers f a)))"
    and "\<And>l a. a \<in> set (at_level f l) \<Longrightarrow>
      vcLevel (containers f a) = l \<and> vertices f (vcID (containers f a)) = Some a \<and> LowestLevel f \<le> l"
    and "\<And>l. distinct (at_level f l)"
  shows "tables_agree f"
  using assms unfolding tables_agree_def by blast

lemma blocks_agreeI:
  assumes "\<And>a v. a < next_addr f \<Longrightarrow> vcVertex (containers f a) = Some v \<Longrightarrow> VertexID v = vcID (containers f a)"
    and "\<And>a c. a < next_addr f \<Longrightarrow> c \<in> set (vcChildren (containers f a)) \<Longrightarrow>
      c < next_addr f \<and> (\<exists>v. vcVertex (containers f c) = Some v \<and> bPrevID v = vcID (containers f a))"
  shows "blocks_agree f"
  using assms unfolding blocks_agree_def by blast

lemma blocks_agreeD:
  assumes "blocks_agree f" and "a < next_addr f"
  shows "vcVertex (containers f a) = Some v \<Longrightarrow> VertexID v = vcID (containers f a)"
    and "c \<in> set (vcChildren (containers f a)) \<Longrightarrow>
      c < next_addr f \<and> (\<exists>v. vcVertex (containers f c) = Some v \<and> bPrevID v = vcID (containers f a))"
  using assms unfolding blocks_agree_def by blast+

lemma forest_inv_New [simp]: "forest_inv NewLevelledForest"
  by (simp add: forest_inv_def tables_agree_def blocks_agree_def NewLevelledForest_def at_level_def)

lemma GetVertex_def2:
  "GetVertex f i = (case vertices f i of None \<Rightarrow> None | Some a \<Rightarrow> vcVertex (containers f a))"
  by (auto simp: GetVertex_def isEmptyContainer_def split: option.splits)

lemma HasVertex_iff: "HasVertex f i \<longleftrightarrow> GetVertex f i \<noteq> None"
  by (auto simp: HasVertex_def GetVertex_def2 isEmptyContainer_def split: option.splits)

lemma GetVertex_ID: "forest_inv f \<Longrightarrow> GetVertex f i = Some v \<Longrightarrow> bID v = i"
  using tables_agreeD(1,2) [of f i]
  by (auto simp: forest_inv_def blocks_agree_def GetVertex_def2 VertexID_def split: option.splits)

section \<open>Insertion\<close>

lemma at_level_create:
  "at_level (f\<lparr>containers := cs, next_addr := n, vertices := vs,
      verticesAtLevel := (verticesAtLevel f)(level \<mapsto> xs)\<rparr>) l =
   (if l = level then xs else at_level f l)"
  by (simp add: at_level_def)

lemma at_level_updates [simp]:
  "at_level (f\<lparr>containers := cs\<rparr>) l = at_level f l"
  "at_level (f\<lparr>vertices := vs\<rparr>) l = at_level f l"
  "at_level (f\<lparr>LowestLevel := n\<rparr>) l = at_level f l"
  by (simp_all add: at_level_def)

lemma getOrCreate_tables:
  assumes "tables_agree f" and "LowestLevel f \<le> level"
    and "getOrCreateVertexContainer f i level = (f', a)"
  shows "tables_agree f'" and "vertices f' i = Some a" and "LowestLevel f' = LowestLevel f"
    and "next_addr f \<le> next_addr f'"
proof -
  show "tables_agree f'"
  proof (cases "vertices f i")
    case (Some b)
    with assms show ?thesis by (simp add: getOrCreateVertexContainer_def)
  next
    case None
    note f' = assms(3) [unfolded getOrCreateVertexContainer_def None option.case Let_def,
        THEN sym, THEN arg_cong [where f = fst], simplified]
    have fresh: "next_addr f \<notin> set (at_level f l)" for l
      using tables_agreeD(1,5) [OF assms(1)] by (metis less_irrefl)
    have "vertices f j = Some b \<Longrightarrow> b \<noteq> next_addr f" for j b
      using tables_agreeD(1) [OF assms(1)] by (metis less_irrefl)
    then show ?thesis
      unfolding f'
      by (intro tables_agreeI)
        (use tables_agreeD [OF assms(1)] assms(2) None fresh in
          \<open>auto simp: at_level_create empty_container_def less_Suc_eq split: if_splits\<close>)
  qed
  show "vertices f' i = Some a" and "LowestLevel f' = LowestLevel f" and "next_addr f \<le> next_addr f'"
    using assms(3) by (auto simp: getOrCreateVertexContainer_def Let_def split: option.splits)
qed

lemma getOrCreate_containers:
  assumes "tables_agree f" and "getOrCreateVertexContainer f i level = (f', a)"
  shows "b < next_addr f \<Longrightarrow> containers f' b = containers f b"
    and "a < next_addr f'" and "vcID (containers f' a) = i"
    and "b < next_addr f' \<Longrightarrow> \<not> b < next_addr f \<Longrightarrow> b = a \<and> containers f' b = empty_container i level"
    and "GetVertex f' j = GetVertex f j"
proof -
  have "vertices f j = Some b \<Longrightarrow> b \<noteq> next_addr f" for b
    using tables_agreeD(1) [OF assms(1)] by (metis less_irrefl)
  then show "GetVertex f' j = GetVertex f j"
    using assms(2)
    by (cases "vertices f i"; cases "vertices f j")
      (auto simp: getOrCreateVertexContainer_def Let_def empty_container_def GetVertex_def2)
qed (use assms tables_agreeD(1,2) [OF assms(1)] in
  \<open>auto simp: getOrCreateVertexContainer_def Let_def empty_container_def split: option.splits\<close>)

lemma getOrCreate_blocks:
  assumes "forest_inv f" and "getOrCreateVertexContainer f i level = (f', a)"
  shows "blocks_agree f'"
proof -
  have ta: "tables_agree f" and ba: "blocks_agree f" using assms(1) by (simp_all add: forest_inv_def)
  note gc = getOrCreate_containers [OF ta assms(2)]
  have le: "next_addr f \<le> next_addr f'"
    using assms(2) by (auto simp: getOrCreateVertexContainer_def Let_def split: option.splits)
  show ?thesis
    unfolding blocks_agree_def
  proof (intro conjI allI impI ballI)
    fix b v assume "b < next_addr f'" "vcVertex (containers f' b) = Some v"
    then show "VertexID v = vcID (containers f' b)"
      using ba gc(1) gc(4) [of b] by (cases "b < next_addr f") (auto simp: blocks_agree_def empty_container_def)
  next
    fix b c assume b: "b < next_addr f'" and c: "c \<in> set (vcChildren (containers f' b))"
    then have "b < next_addr f"
      using gc(4) [of b] by (cases "b < next_addr f") (auto simp: empty_container_def)
    with c ba gc(1) have "c < next_addr f \<and>
        (\<exists>v. vcVertex (containers f c) = Some v \<and> bPrevID v = vcID (containers f b))"
      by (auto simp: blocks_agree_def)
    with gc(1) le \<open>b < next_addr f\<close> show "c < next_addr f'"
      and "\<exists>v. vcVertex (containers f' c) = Some v \<and> bPrevID v = vcID (containers f' b)"
      by auto
  qed
qed

lemma set_container_tables:
  assumes "tables_agree f" and "vcID c = vcID (containers f a)" and "vcLevel c = vcLevel (containers f a)"
  shows "tables_agree (set_container f a c)"
  by (intro tables_agreeI)
    (use tables_agreeD [OF assms(1)] assms(2,3) in \<open>auto simp: set_container_def\<close>)

lemma fill_container:
  assumes "forest_inv f" and "vertices f (VertexID v) = Some a" and "isEmptyContainer f a"
    and "f' = set_container f a ((containers f a)\<lparr>vcVertex := Some v\<rparr>)"
  shows "forest_inv f'" and "GetVertex f' j = (if j = VertexID v then Some v else GetVertex f j)"
proof -
  have ta: "tables_agree f" and ba: "blocks_agree f" using assms(1) by (simp_all add: forest_inv_def)
  have "blocks_agree f'"
  proof (rule blocks_agreeI)
    fix b w assume "b < next_addr f'" "vcVertex (containers f' b) = Some w"
    then show "VertexID w = vcID (containers f' b)"
      using tables_agreeD(2) [OF ta assms(2)] blocks_agreeD(1) [OF ba, of b w]
      by (auto simp: assms(4) set_container_def split: if_splits)
  next
    fix b c assume "b < next_addr f'" "c \<in> set (vcChildren (containers f' b))"
    then show "c < next_addr f' \<and>
        (\<exists>v. vcVertex (containers f' c) = Some v \<and> bPrevID v = vcID (containers f' b))"
      using blocks_agreeD(2) [OF ba, of b c] assms(3)
      by (auto simp: assms(4) set_container_def isEmptyContainer_def split: if_splits)
  qed
  moreover have "tables_agree f'"
    unfolding assms(4) by (rule set_container_tables [OF ta]) simp_all
  ultimately show "forest_inv f'" by (simp add: forest_inv_def)
  show "GetVertex f' j = (if j = VertexID v then Some v else GetVertex f j)"
    using assms(2) tables_agreeD(2) [OF ta, of j] tables_agreeD(2) [OF ta assms(2)]
    by (auto simp: GetVertex_def2 assms(4) set_container_def split: option.splits)
qed

lemma add_child:
  assumes "forest_inv f" and "a < next_addr f" and "vcVertex (containers f a) = Some v"
    and "p < next_addr f" and "vcID (containers f p) = bPrevID v"
    and "f' = set_container f p ((containers f p)\<lparr>vcChildren := vcChildren (containers f p) @ [a]\<rparr>)"
  shows "forest_inv f'" and "GetVertex f' = GetVertex f"
proof -
  have ta: "tables_agree f" and ba: "blocks_agree f" using assms(1) by (simp_all add: forest_inv_def)
  have "tables_agree f'"
    unfolding assms(6) by (rule set_container_tables [OF ta]) simp_all
  moreover have "blocks_agree f'"
  proof (rule blocks_agreeI)
    fix b w assume "b < next_addr f'" "vcVertex (containers f' b) = Some w"
    then show "VertexID w = vcID (containers f' b)"
      using blocks_agreeD(1) [OF ba, of b w] by (auto simp: assms(6) set_container_def split: if_splits)
  next
    fix b c assume "b < next_addr f'" "c \<in> set (vcChildren (containers f' b))"
    then show "c < next_addr f' \<and>
        (\<exists>v. vcVertex (containers f' c) = Some v \<and> bPrevID v = vcID (containers f' b))"
      using blocks_agreeD(2) [OF ba, of b c] assms(2-5)
      by (cases "b = p") (auto simp: assms(6) set_container_def)
  qed
  ultimately show "forest_inv f'" by (simp add: forest_inv_def)
  show "GetVertex f' = GetVertex f"
    by (auto simp: GetVertex_def2 fun_eq_iff assms(6) set_container_def split: option.splits)
qed

lemma registerWithParent_inv:
  assumes "forest_inv f" and "a < next_addr f" and "vcVertex (containers f a) = Some v"
    and "registerWithParent h f a v = retG f'"
  shows "forest_inv f' \<and> GetVertex f' = GetVertex f \<and> LowestLevel f' = LowestLevel f"
proof (cases "f' = f")
  case False
  then obtain parentView f1 p where
      low: "LowestLevel f \<le> parentView"
    and gc: "getOrCreateVertexContainer f (bPrevID v) parentView = (f1, p)"
    and f': "f' = set_container f1 p ((containers f1 p)\<lparr>vcChildren := vcChildren (containers f1 p) @ [a]\<rparr>)"
    using assms(4) by (auto simp: registerWithParent_def Parent_def Let_def bindG_eq_Ret not_less
        split: if_splits prod.splits option.splits)
  have ta: "tables_agree f" using assms(1) by (simp add: forest_inv_def)
  note gt = getOrCreate_tables [OF ta low gc] and gcs = getOrCreate_containers [OF ta gc]
  have inv1: "forest_inv f1"
    using gt(1) getOrCreate_blocks [OF assms(1) gc] by (simp add: forest_inv_def)
  have "a < next_addr f1" "vcVertex (containers f1 a) = Some v"
    using assms(2,3) gt(4) gcs(1) by auto
  from add_child [OF inv1 this gcs(2,3) f'] gcs(5) gt(3) show ?thesis
    by (auto simp: f' set_container_def)
qed (use assms(1) in simp)

lemma AddVertex_spec:
  assumes "forest_inv f" and "AddVertex h f v = retG f'"
  shows "forest_inv f'" and "LowestLevel f' = LowestLevel f"
    and "GetVertex f' =
       (if Level v < LowestLevel f \<or> HasVertex f (bID v) then GetVertex f else (GetVertex f)(bID v \<mapsto> v))"
proof -
  have ta: "tables_agree f" using assms(1) by (simp add: forest_inv_def)
  obtain f1 a where gc: "getOrCreateVertexContainer f (bID v) (Level v) = (f1, a)"
    by fastforce
  have "forest_inv f' \<and> LowestLevel f' = LowestLevel f \<and> GetVertex f' =
      (if HasVertex f (bID v) then GetVertex f else (GetVertex f)(bID v \<mapsto> v))"
    if low: "LowestLevel f \<le> Level v"
  proof -
    note gt = getOrCreate_tables [OF ta low gc] and gcs = getOrCreate_containers [OF ta gc]
    have inv1: "forest_inv f1"
      using gt(1) getOrCreate_blocks [OF assms(1) gc] by (simp add: forest_inv_def)
    have has: "HasVertex f (bID v) \<longleftrightarrow> \<not> isEmptyContainer f1 a"
      using gcs(5) [of "bID v"] gt(2) by (auto simp: HasVertex_iff GetVertex_def2 isEmptyContainer_def)
    show ?thesis
    proof (cases "isEmptyContainer f1 a")
      case False
      with assms(2) low gc inv1 gt(3) gcs(5) has show ?thesis
        by (auto simp: AddVertex_def VertexID_def fun_eq_iff)
    next
      case True
      let ?f2 = "set_container f1 a ((containers f1 a)\<lparr>vcVertex := Some v\<rparr>)"
      have reg: "registerWithParent h ?f2 a v = retG f'"
        using assms(2) low gc True by (simp add: AddVertex_def VertexID_def)
      note fc = fill_container [OF inv1 gt(2) [folded VertexID_def] True refl]
      have "a < next_addr ?f2" "vcVertex (containers ?f2 a) = Some v" "LowestLevel ?f2 = LowestLevel f1"
        using gcs(2) by (simp_all add: set_container_def)
      with registerWithParent_inv [OF fc(1) _ _ reg] fc(2) gcs(5) gt(3) has True show ?thesis
        by (auto simp: fun_eq_iff VertexID_def)
    qed
  qed
  moreover have "f' = f" if "\<not> LowestLevel f \<le> Level v"
    using assms(2) that by (simp add: AddVertex_def)
  ultimately show "forest_inv f'" and "LowestLevel f' = LowestLevel f"
    and "GetVertex f' =
       (if Level v < LowestLevel f \<or> HasVertex f (bID v) then GetVertex f else (GetVertex f)(bID v \<mapsto> v))"
    using assms(1) by (cases "LowestLevel f \<le> Level v"; simp)+
qed

lemma AddVertex_returns: "bQC v = Some r \<Longrightarrow> \<exists>f'. AddVertex h f v = retG f'"
  by (auto simp: AddVertex_def registerWithParent_def Parent_def Let_def split: prod.splits)

section \<open>Pruning\<close>

lemma full_blocks_cong:
  "containers f = containers g \<Longrightarrow> full_blocks f as = full_blocks g as"
  by (simp add: full_blocks_def)

lemma prune_containers_eq:
  "prune_containers f forked as fs n =
     (f\<lparr>vertices := \<lambda>i. if i \<in> vcID ` containers f ` set as then None else vertices f i\<rparr>,
      fs @ (if forked then full_blocks f as else []), n + length as)"
proof (induction as arbitrary: f fs n)
  case (Cons a as)
  have "full_blocks (f\<lparr>vertices := vs\<rparr>) as = full_blocks f as" for vs
    by (rule full_blocks_cong) simp
  with Cons show ?case
    by (auto simp: Let_def fun_eq_iff split: option.splits intro!: LevelledForest.equality)
qed simp

definition forked_blocks :: "LevelledForest \<Rightarrow> (nat \<Rightarrow> bool) \<Rightarrow> nat list \<Rightarrow> Block list" where
  "forked_blocks f committed ls =
     concat (map (\<lambda>l. if \<not> committed l \<and> 1 < l then full_blocks f (at_level f l) else []) ls)"

definition pruned_ids :: "LevelledForest \<Rightarrow> nat list \<Rightarrow> Identifier set" where
  "pruned_ids f ls = (\<Union>l \<in> set ls. vcID ` containers f ` set (at_level f l))"

lemma prune_levels_eq:
  "prune_levels f committed l level fs n =
     (f\<lparr>vertices := \<lambda>i. if i \<in> pruned_ids f [l..<level] then None else vertices f i,
        verticesAtLevel := \<lambda>k. if l \<le> k \<and> k < level then None else verticesAtLevel f k\<rparr>,
      fs @ forked_blocks f committed [l..<level],
      n + sum_list (map (\<lambda>k. length (at_level f k)) [l..<level]))"
proof (induction "level - l" arbitrary: f l fs n rule: less_induct)
  case less
  show ?case
  proof (cases "l < level")
    case False
    then show ?thesis
      by (auto simp: prune_levels.simps [of f] pruned_ids_def forked_blocks_def fun_eq_iff
          intro!: LevelledForest.equality)
  next
    case True
    let ?f1 = "f\<lparr>vertices := \<lambda>i. if i \<in> vcID ` containers f ` set (at_level f l) then None else vertices f i,
        verticesAtLevel := (verticesAtLevel f)(l := None)\<rparr>"
    have al: "at_level ?f1 k = at_level f k" if "k \<noteq> l" for k
      using that by (simp add: at_level_def)
    have fb: "full_blocks ?f1 as = full_blocks f as" for as
      by (rule full_blocks_cong) simp
    have upt: "[l..<level] = l # [Suc l..<level]" using True by (simp add: upt_conv_Cons)
    have ids: "pruned_ids ?f1 [Suc l..<level] = pruned_ids f [Suc l..<level]"
      unfolding pruned_ids_def by (rule SUP_cong) (auto simp: al)
    have fbs: "forked_blocks ?f1 committed [Suc l..<level] = forked_blocks f committed [Suc l..<level]"
      unfolding forked_blocks_def by (intro arg_cong [where f = concat] map_cong) (auto simp: al fb)
    have ls: "map (\<lambda>k. length (at_level ?f1 k)) [Suc l..<level] = map (\<lambda>k. length (at_level f k)) [Suc l..<level]"
      by (rule map_cong) (auto simp: al)
    have "prune_levels f committed l level fs n =
        prune_levels ?f1 committed (Suc l) level
          (fs @ (if \<not> committed l \<and> 1 < l then full_blocks f (at_level f l) else [])) (n + length (at_level f l))"
      using True by (simp add: prune_levels.simps [of f] prune_containers_eq)
    also have "\<dots> = (f\<lparr>vertices := \<lambda>i. if i \<in> pruned_ids f [l..<level] then None else vertices f i,
          verticesAtLevel := \<lambda>k. if l \<le> k \<and> k < level then None else verticesAtLevel f k\<rparr>,
        fs @ forked_blocks f committed [l..<level],
        n + sum_list (map (\<lambda>k. length (at_level f k)) [l..<level]))"
      using less [of "Suc l" ?f1] True
      by (auto simp: ids fbs ls upt forked_blocks_def [of _ _ "l # _"] pruned_ids_def [of _ "l # _"] fun_eq_iff
          forked_blocks_def [of f _ "[Suc l..<level]"] pruned_ids_def [of f "[Suc l..<level]"]
          intro!: LevelledForest.equality)
    finally show ?thesis .
  qed
qed

lemma pruned_ids_iff:
  assumes "tables_agree f"
  shows "i \<in> pruned_ids f [LowestLevel f..<level] \<longleftrightarrow>
     (\<exists>a. vertices f i = Some a \<and> vcLevel (containers f a) < level)"
proof
  assume "i \<in> pruned_ids f [LowestLevel f..<level]"
  then show "\<exists>a. vertices f i = Some a \<and> vcLevel (containers f a) < level"
    using tables_agreeD(4,5) [OF assms] by (auto simp: pruned_ids_def)
next
  assume "\<exists>a. vertices f i = Some a \<and> vcLevel (containers f a) < level"
  then obtain a where a: "vertices f i = Some a" "vcLevel (containers f a) < level" by blast
  with tables_agreeD(2,3) [OF assms a(1)] tables_agreeD(6) [OF assms]
  show "i \<in> pruned_ids f [LowestLevel f..<level]"
    unfolding pruned_ids_def by (intro UN_I [of "vcLevel (containers f a)"]) auto
qed

text \<open>The state a successful prune leaves behind.\<close>

definition pruned :: "LevelledForest \<Rightarrow> nat \<Rightarrow> LevelledForest" where
  "pruned f level = f\<lparr>
     vertices := \<lambda>i. if i \<in> pruned_ids f [LowestLevel f..<level] then None else vertices f i,
     verticesAtLevel := \<lambda>k. if LowestLevel f \<le> k \<and> k < level then None else verticesAtLevel f k,
     LowestLevel := level\<rparr>"

lemma PruneUpToLevel_eq:
  "PruneUpToLevel h f level =
     (if level < LowestLevel f then retG (f, Inl (LowestLevelTooSmall level (LowestLevel f)))
      else bindG (committed_levels h f level (\<lambda>_. False)) (\<lambda>committed.
        retG (pruned f level, Inr (forked_blocks f committed [LowestLevel f..<level],
          sum_list (map (\<lambda>k. length (at_level f k)) [LowestLevel f..<level])))))"
  by (simp add: PruneUpToLevel_def prune_levels_eq pruned_def)

lemma pruned_vertices:
  "tables_agree f \<Longrightarrow> vertices (pruned f level) i =
     (case vertices f i of
        None \<Rightarrow> None
      | Some a \<Rightarrow> if vcLevel (containers f a) < level then None else Some a)"
  by (auto simp: pruned_def pruned_ids_iff split: option.splits)

lemma pruned_at_level:
  "tables_agree f \<Longrightarrow> LowestLevel f \<le> level \<Longrightarrow>
     at_level (pruned f level) k = (if k < level then [] else at_level f k)"
  using tables_agreeD(6) [of f _ k]
  by (cases "at_level f k") (auto simp: pruned_def at_level_def split: option.splits)

lemma pruned_inv:
  assumes "forest_inv f" and "LowestLevel f \<le> level"
  shows "forest_inv (pruned f level)"
proof -
  have ta: "tables_agree f" and ba: "blocks_agree f" using assms(1) by (simp_all add: forest_inv_def)
  have [simp]: "containers (pruned f level) = containers f" "next_addr (pruned f level) = next_addr f"
      "LowestLevel (pruned f level) = level"
    by (simp_all add: pruned_def)
  have "tables_agree (pruned f level)"
    by (rule tables_agreeI)
      (use tables_agreeD [OF ta] in
        \<open>auto simp: pruned_vertices [OF ta] pruned_at_level [OF ta assms(2)] split: option.splits if_splits\<close>)
  moreover have "blocks_agree (pruned f level)"
    using ba by (simp add: blocks_agree_def)
  ultimately show ?thesis by (simp add: forest_inv_def)
qed

lemma pruned_GetVertex:
  "tables_agree f \<Longrightarrow> GetVertex (pruned f level) i =
     (case vertices f i of
        None \<Rightarrow> None
      | Some a \<Rightarrow> if vcLevel (containers f a) < level then None else GetVertex f i)"
  by (auto simp: GetVertex_def2 pruned_vertices split: option.splits) (simp add: pruned_def)

lemma PruneUpToLevel_spec:
  assumes "forest_inv f" and "PruneUpToLevel h f level = retG (f', r)"
  shows "forest_inv f'"
    and "level < LowestLevel f \<Longrightarrow> f' = f \<and> (\<exists>err. r = Inl err)"
    and "\<not> level < LowestLevel f \<Longrightarrow> f' = pruned f level \<and> (\<exists>fs n. r = Inr (fs, n))"
  using assms pruned_inv [OF assms(1)] by (auto simp: PruneUpToLevel_eq bindG_eq_Ret split: if_splits)

section \<open>When pruning returns\<close>

text \<open>
  In a well-levelled forest every block is listed at its own level, the placeholders for unknown
  parents lie at levels 0 and 1, and every block has a certificate and, if its parent is stored,
  a strictly lower parent.
\<close>

definition well_levelled :: "LevelledForest \<Rightarrow> bool" where
  "well_levelled f \<longleftrightarrow>
     (\<forall>i a. vertices f i = Some a \<longrightarrow>
        (case vcVertex (containers f a) of
           None \<Rightarrow> vcLevel (containers f a) \<le> 1
         | Some v \<Rightarrow> Level v = vcLevel (containers f a) \<and>
             bQC v \<noteq> None \<and> (\<forall>p. GetVertex f (bPrevID v) = Some p \<longrightarrow> Level p < Level v)))"

text \<open>
  Insertion in the order of the chain: \<open>VerifyVertex\<close> accepts the block, which lies above the
  lowest level, after its parent and before its children.
\<close>

definition in_order :: "qcheap \<Rightarrow> LevelledForest \<Rightarrow> Block \<Rightarrow> bool" where
  "in_order h f v \<longleftrightarrow>
     VerifyVertex h f v = retG None \<and> LowestLevel f < Level v \<and> bPrevID v \<noteq> bID v \<and>
     (\<exists>r. bQC v = Some r \<and> (HasVertex f (bPrevID v) \<or> u64 (qcView (h r)) \<le> 1)) \<and>
     vertices f (bID v) = None \<and>
     (\<forall>i c. GetVertex f i = Some c \<longrightarrow> bPrevID c \<noteq> bID v)"

lemma well_levelled_New [simp]: "well_levelled NewLevelledForest"
  by (simp add: well_levelled_def NewLevelledForest_def)

lemma well_levelledD:
  assumes "well_levelled f" and "vertices f i = Some a"
  shows "vcVertex (containers f a) = None \<Longrightarrow> vcLevel (containers f a) \<le> 1"
    and "vcVertex (containers f a) = Some v \<Longrightarrow> Level v = vcLevel (containers f a)"
    and "vcVertex (containers f a) = Some v \<Longrightarrow> bQC v \<noteq> None"
    and "vcVertex (containers f a) = Some v \<Longrightarrow>
      GetVertex f (bPrevID v) = Some p \<Longrightarrow> Level p < Level v"
  using assms unfolding well_levelled_def by (fastforce split: option.splits)+

lemma in_order_parent_lower:
  assumes "in_order h f v" and "GetVertex f (bPrevID v) = Some p"
  shows "Level p < Level v"
  using assms by (auto simp: in_order_def VerifyVertex_def isEquivalentToStoredVertex_def verifyParent_def
      Parent_def GetVertex_def2 VertexID_def split: if_splits)

lemma AddVertex_containers:
  assumes "forest_inv f" and "in_order h f v" and "AddVertex h f v = retG f'" and "vertices f' i = Some a"
  shows "(i = bID v \<and> vcVertex (containers f' a) = Some v \<and> vcLevel (containers f' a) = Level v) \<or>
         (vcVertex (containers f' a) = None \<and> vcLevel (containers f' a) \<le> 1) \<or>
         (i \<noteq> bID v \<and> vertices f i = Some a \<and> vcVertex (containers f' a) = vcVertex (containers f a) \<and>
            vcLevel (containers f' a) = vcLevel (containers f a))"
proof -
  have ta: "tables_agree f" using assms(1) by (simp add: forest_inv_def)
  have *: "vertices f j \<noteq> Some (next_addr f)" for j
    using tables_agreeD(1) [OF ta] by (metis less_irrefl)
  obtain r where r: "bQC v = Some r" "HasVertex f (bPrevID v) \<or> u64 (qcView (h r)) \<le> 1"
      "bPrevID v \<noteq> bID v" "vertices f (bID v) = None"
    using assms(2) by (auto simp: in_order_def)
  have low: "\<not> Level v < LowestLevel f" using assms(2) by (simp add: in_order_def)
  note defs = AddVertex_def registerWithParent_def getOrCreateVertexContainer_def Parent_def Let_def
    VertexID_def isEmptyContainer_def set_container_def empty_container_def HasVertex_def
  show ?thesis
  proof (cases "vertices f (bPrevID v)")
    case None
    with r have "u64 (qcView (h r)) \<le> 1" by (simp add: HasVertex_def)
    with None r(1,3,4) low * assms(3,4) show ?thesis
      by (auto simp: defs split: if_splits)
  next
    case (Some p)
    with r(1,3,4) low * assms(3,4) show ?thesis
      by (auto simp: defs split: if_splits)
  qed
qed

lemma AddVertex_well_levelled:
  assumes inv: "forest_inv f" and wl: "well_levelled f" and ord: "in_order h f v"
    and add: "AddVertex h f v = retG f'"
  shows "well_levelled f'"
proof -
  have get: "GetVertex f' = (GetVertex f)(bID v \<mapsto> v)"
    using AddVertex_spec(3) [OF inv add] ord by (simp add: in_order_def HasVertex_def)
  have v: "bQC v \<noteq> None" "bPrevID v \<noteq> bID v"
    and noch: "\<And>i c. GetVertex f i = Some c \<Longrightarrow> bPrevID c \<noteq> bID v"
    using ord by (auto simp: in_order_def)
  show ?thesis
    unfolding well_levelled_def
  proof (intro allI impI)
    fix i a assume a: "vertices f' i = Some a"
    from AddVertex_containers [OF inv ord add a]
    show "case vcVertex (containers f' a) of
           None \<Rightarrow> vcLevel (containers f' a) \<le> 1
         | Some v \<Rightarrow> Level v = vcLevel (containers f' a) \<and>
             bQC v \<noteq> None \<and> (\<forall>p. GetVertex f' (bPrevID v) = Some p \<longrightarrow> Level p < Level v)"
    proof (elim disjE conjE)
      assume "vcVertex (containers f' a) = Some v" "vcLevel (containers f' a) = Level v"
      with v in_order_parent_lower [OF ord] show ?thesis by (auto simp: get)
    next
      assume o: "i \<noteq> bID v" "vertices f i = Some a" "vcVertex (containers f' a) = vcVertex (containers f a)"
        "vcLevel (containers f' a) = vcLevel (containers f a)"
      then have "vcVertex (containers f a) = Some w \<Longrightarrow> bPrevID w \<noteq> bID v" for w
        using noch [of i] by (simp add: GetVertex_def2)
      with o(3,4) well_levelledD [OF wl o(2)] show ?thesis
        by (auto simp: get split: option.splits)
    qed simp
  qed
qed

lemma pruned_well_levelled:
  assumes inv: "forest_inv f" and wl: "well_levelled f"
  shows "well_levelled (pruned f level)"
proof -
  have ta: "tables_agree f" using inv by (simp add: forest_inv_def)
  have get: "GetVertex (pruned f level) i = Some p \<Longrightarrow> GetVertex f i = Some p" for i p
    by (auto simp: pruned_GetVertex [OF ta] split: option.splits if_splits)
  have vs: "vertices (pruned f level) i = Some a \<Longrightarrow> vertices f i = Some a" for i a
    by (auto simp: pruned_vertices [OF ta] split: option.splits if_splits)
  have cs: "containers (pruned f level) = containers f" by (simp add: pruned_def)
  show ?thesis
    using well_levelledD [OF wl vs] get unfolding well_levelled_def cs by (auto split: option.splits)
qed

lemma well_levelled_stored:
  assumes "forest_inv f" and "well_levelled f" and "GetVertex f i = Some p"
  shows "at_level f (Level p) \<noteq> []"
proof -
  from assms(3) obtain b where b: "vertices f i = Some b" "vcVertex (containers f b) = Some p"
    by (auto simp: GetVertex_def2 split: option.splits)
  with assms(1) well_levelledD(2) [OF assms(2) b] tables_agreeD(3) [of f i b] show ?thesis
    by (auto simp: forest_inv_def)
qed

lemma committed_levels_returns:
  assumes "forest_inv f" and "well_levelled f" and "l \<le> 1 \<or> at_level f l \<noteq> []"
  shows "\<exists>c'. committed_levels h f l c = retG c'"
  using assms(3)
proof (induction l arbitrary: c rule: less_induct)
  case (less l)
  have ta: "tables_agree f" using assms(1) by (simp add: forest_inv_def)
  show ?case
  proof (cases "LowestLevel f \<le> l \<and> 1 < l")
    case False
    then show ?thesis by (subst committed_levels.simps) auto
  next
    case True
    with less.prems obtain a as where al: "at_level f l = a # as" by (cases "at_level f l") auto
    then have a: "vertices f (vcID (containers f a)) = Some a" "vcLevel (containers f a) = l"
      using tables_agreeD(4,5) [OF ta, of a l] by simp_all
    with True well_levelledD(1) [OF assms(2) a(1)] obtain v where
      v: "vcVertex (containers f a) = Some v" by (cases "vcVertex (containers f a)") auto
    note w = well_levelledD(2-4) [OF assms(2) a(1) v]
    obtain r where r: "bQC v = Some r" using w(1,2) a(2) True by auto
    have "\<exists>c'. committed_levels h f (Level p) d = retG c'" if "GetVertex f (bPrevID v) = Some p" for p d
      using less.IH [of "Level p" d] w(1) w(3) [OF that] a(2) True
        well_levelled_stored [OF assms(1,2) that] by auto
    with True al v r show ?thesis
      by (subst committed_levels.simps) (auto simp: Parent_def split: option.splits)
  qed
qed

lemma committed_levels_self_parent:
  assumes "LowestLevel f \<le> l" and "1 < l" and "at_level f l = a # as"
    and "vcVertex (containers f a) = Some v" and "bQC v \<noteq> None"
    and "GetVertex f (bPrevID v) = Some v" and "Level v = l"
  shows "committed_levels h f l c = None"
proof -
  have "\<not> (h' = h \<and> f' = f \<and> l' = l)" if "committed_levels h' f' l' c' = Some y" for h' f' l' c' y
    by (rule committed_levels.raw_induct
          [where P = "\<lambda>h' f' l' c' y. \<not> (h' = h \<and> f' = f \<and> l' = l)", OF _ that])
      (use assms in \<open>clarsimp simp: Parent_def, blast\<close>)
  then show ?thesis by fastforce
qed

section \<open>The contract of a block store\<close>

text \<open>
  What the blockchain relies on: a block is found under its own identifier, an insertion adds at
  most the block it is given and removes nothing, and pruning only removes.
\<close>

locale block_store =
  fixes wf :: "'f \<Rightarrow> bool"
    and lookup :: "'f \<Rightarrow> Identifier \<Rightarrow> Block option"
    and lowest :: "'f \<Rightarrow> nat"
    and insert_block :: "qcheap \<Rightarrow> 'f \<Rightarrow> Block \<Rightarrow> 'f go"
    and prune :: "qcheap \<Rightarrow> 'f \<Rightarrow> nat \<Rightarrow> ('f \<times> (go_error + Block list \<times> nat)) go"
  assumes lookup_own_id: "wf f \<Longrightarrow> lookup f i = Some b \<Longrightarrow> bID b = i"
    and insert_wf: "wf f \<Longrightarrow> insert_block h f b = retG f' \<Longrightarrow> wf f'"
    and insert_lowest: "wf f \<Longrightarrow> insert_block h f b = retG f' \<Longrightarrow> lowest f' = lowest f"
    and insert_lookup: "wf f \<Longrightarrow> insert_block h f b = retG f' \<Longrightarrow>
      lookup f' i =
        (if i = bID b \<and> lowest f \<le> Level b \<and> lookup f i = None then Some b else lookup f i)"
    and prune_wf: "wf f \<Longrightarrow> prune h f level = retG (f', r) \<Longrightarrow> wf f'"
    and prune_lookup: "wf f \<Longrightarrow> prune h f level = retG (f', r) \<Longrightarrow> lookup f' i = Some b \<Longrightarrow> lookup f i = Some b"
    and prune_lowest: "wf f \<Longrightarrow> prune h f level = retG (f', r) \<Longrightarrow>
      lowest f' = (case r of Inl _ \<Rightarrow> lowest f | Inr _ \<Rightarrow> level)"
    and prune_error: "wf f \<Longrightarrow> prune h f level = retG (f', Inl err) \<Longrightarrow> f' = f \<and> level < lowest f"
begin

lemma lookup_inj: "wf f \<Longrightarrow> lookup f i = Some b \<Longrightarrow> lookup f j = Some b \<Longrightarrow> i = j"
  using lookup_own_id by metis

lemma insert_keeps:
  "wf f \<Longrightarrow> insert_block h f b = retG f' \<Longrightarrow> lookup f i = Some c \<Longrightarrow> lookup f' i = Some c"
  by (simp add: insert_lookup)

lemma insert_fresh:
  "wf f \<Longrightarrow> insert_block h f b = retG f' \<Longrightarrow> lowest f \<le> Level b \<Longrightarrow> lookup f (bID b) = None \<Longrightarrow>
     lookup f' (bID b) = Some b"
  by (simp add: insert_lookup)

lemma insert_twice:
  "wf f \<Longrightarrow> insert_block h f b = retG f' \<Longrightarrow> insert_block h f' b = retG f'' \<Longrightarrow> lookup f'' = lookup f'"
  using insert_wf [of f h b f'] insert_lowest [of f h b f']
  by (auto simp: insert_lookup fun_eq_iff)

lemma lowest_mono: "wf f \<Longrightarrow> prune h f level = retG (f', r) \<Longrightarrow> (r = Inl e \<or> lowest f \<le> level) \<Longrightarrow> lowest f \<le> lowest f'"
  by (auto simp: prune_lowest split: sum.splits)

end

lemma GetVertex_pruned_Some:
  "forest_inv f \<Longrightarrow> GetVertex (pruned f level) i = Some b \<Longrightarrow> GetVertex f i = Some b"
  by (auto simp: forest_inv_def pruned_GetVertex split: option.splits if_splits)

interpretation forest_store: block_store forest_inv GetVertex LowestLevel AddVertex PruneUpToLevel
proof
  fix f h b f' i assume a: "forest_inv f" "AddVertex h f b = retG f'"
  show "GetVertex f' i =
      (if i = bID b \<and> LowestLevel f \<le> Level b \<and> GetVertex f i = None then Some b else GetVertex f i)"
    by (auto simp: AddVertex_spec(3) [OF a] HasVertex_iff)
next
  fix f h level f' r i b assume a: "forest_inv f" "PruneUpToLevel h f level = retG (f', r)"
  show "LowestLevel f' = (case r of Inl _ \<Rightarrow> LowestLevel f | Inr _ \<Rightarrow> level)"
    using PruneUpToLevel_spec(2,3) [OF a] by (cases "level < LowestLevel f") (auto simp: pruned_def)
  show "GetVertex f' i = Some b \<Longrightarrow> GetVertex f i = Some b"
    using PruneUpToLevel_spec(2,3) [OF a] GetVertex_pruned_Some [OF a(1)]
    by (cases "level < LowestLevel f") auto
next
  fix f h level f' err assume a: "forest_inv f" "PruneUpToLevel h f level = retG (f', Inl err)"
  show "f' = f \<and> level < LowestLevel f"
    using PruneUpToLevel_spec(2,3) [OF a] by (cases "level < LowestLevel f") auto
qed (auto intro: AddVertex_spec GetVertex_ID PruneUpToLevel_spec(1))

section \<open>The forest's properties\<close>

text \<open>The forests that in-order insertions and prunings lead to.\<close>

inductive forest_run :: "LevelledForest \<Rightarrow> bool" where
  run_new: "forest_run NewLevelledForest"
| run_add: "forest_run f \<Longrightarrow> in_order h f v \<Longrightarrow> AddVertex h f v = retG f' \<Longrightarrow> forest_run f'"
| run_prune: "forest_run f \<Longrightarrow> PruneUpToLevel h f level = retG (f', r) \<Longrightarrow> forest_run f'"

lemma forest_run_inv: "forest_run f \<Longrightarrow> forest_inv f \<and> well_levelled f"
proof (induction rule: forest_run.induct)
  case (run_prune f h level f' r)
  then show ?case
    using PruneUpToLevel_spec [of f h level f' r] pruned_well_levelled [of f level]
    by (cases "level < LowestLevel f") auto
qed (auto intro: AddVertex_spec(1) AddVertex_well_levelled)

lemma pruned_lookup:
  assumes "forest_run f"
  shows "GetVertex (pruned f level) i = Some b \<longleftrightarrow> GetVertex f i = Some b \<and> level \<le> Level b"
proof -
  have wl: "well_levelled f" and ta: "tables_agree f"
    using forest_run_inv [OF assms] by (simp_all add: forest_inv_def)
  show ?thesis
    using well_levelledD(2) [OF wl, of i]
    by (auto simp: pruned_GetVertex [OF ta] GetVertex_def2 [of f] split: option.splits if_splits)
qed


text \<open>Blocks for the concrete instances: a view, an identifier, a parent, and the certificate at address 0.\<close>

definition sample_block :: "int \<Rightarrow> Identifier \<Rightarrow> Identifier \<Rightarrow> Block" where
  "sample_block view i parent = empty_block\<lparr>bView := view, bQC := Some 0, bID := i, bPrevID := parent\<rparr>"

definition sample_heap :: "int \<Rightarrow> qcheap" where
  "sample_heap view = (\<lambda>_. \<lparr>qcLeader = [], qcView = view, qcBlockID = 0, qcSigners = [], qcAggSig = [], qcSignature = []\<rparr>)"

definition sample_forest :: LevelledForest where
  "sample_forest = (case AddVertex (sample_heap 1) NewLevelledForest (sample_block 2 7 5) of
     Some (Ret f) \<Rightarrow> f | _ \<Rightarrow> NewLevelledForest)"

lemma u64_small [simp]: "u64 0 = 0" "u64 1 = 1" "u64 2 = 2" "u64 3 = 3"
  by (simp_all add: u64_def)

lemmas sample_defs = sample_block_def sample_heap_def empty_block_def Level_def VertexID_def

lemma sample_forest_add: "AddVertex (sample_heap 1) NewLevelledForest (sample_block 2 7 5) = retG sample_forest"
  by (simp add: sample_forest_def AddVertex_def registerWithParent_def getOrCreateVertexContainer_def
      NewLevelledForest_def isEmptyContainer_def empty_container_def set_container_def Parent_def sample_defs)

lemma sample_in_order: "in_order (sample_heap 1) NewLevelledForest (sample_block 2 7 5)"
  by (simp add: in_order_def VerifyVertex_def isEquivalentToStoredVertex_def verifyParent_def GetVertex_def2
      NewLevelledForest_def Parent_def sample_defs)

lemma sample_forest_run: "forest_run sample_forest"
  using run_add [OF run_new sample_in_order sample_forest_add] .

lemma New_lookups [simp]: "LowestLevel NewLevelledForest = 0" "GetVertex NewLevelledForest i = None"
  by (simp_all add: NewLevelledForest_def GetVertex_def2)

lemma sample_forest_facts:
  "LowestLevel sample_forest = 0" "GetVertex sample_forest 7 = Some (sample_block 2 7 5)"
  using forest_store.insert_lowest [OF forest_inv_New sample_forest_add]
    forest_store.insert_fresh [OF forest_inv_New sample_forest_add]
  by (simp_all add: sample_block_def)


lemma LowestLevel_pruned: "LowestLevel (pruned f level) = level"
  by (simp add: pruned_def)

lemma prune_returns:
  assumes "forest_run f" and "GetVertex f j = Some c" and "LowestLevel f \<le> Level c"
  obtains forked where "PruneUpToLevel h f (Level c) = retG (pruned f (Level c),
      Inr (forked, sum_list (map (\<lambda>k. length (at_level f k)) [LowestLevel f..<Level c])))"
    and "forest_run (pruned f (Level c))"
proof -
  have inv: "forest_inv f" and wl: "well_levelled f"
    using forest_run_inv [OF assms(1)] by simp_all
  obtain cm where "committed_levels h f (Level c) (\<lambda>_. False) = retG cm"
    using committed_levels_returns [OF inv wl] well_levelled_stored [OF inv wl assms(2)] by blast
  with assms(3) have pr: "PruneUpToLevel h f (Level c) = retG (pruned f (Level c),
      Inr (forked_blocks f cm [LowestLevel f..<Level c],
        sum_list (map (\<lambda>k. length (at_level f k)) [LowestLevel f..<Level c])))"
    by (simp add: PruneUpToLevel_eq)
  from that [OF pr run_prune [OF assms(1) pr]] show ?thesis .
qed

text \<open>
  C14: in a forest grown in the order of the chain, pruning up to the level of a stored block
  always returns: it fails only below the level pruned before, and otherwise removes exactly the
  blocks below the new level, reports one pruned container for each entry of the levels removed,
  and leaves a forest of the same kind.
\<close>
theorem prune_total:
  assumes "forest_run f" and "GetVertex f j = Some c" and "LowestLevel f \<le> Level c"
  shows "\<exists>f' forked. PruneUpToLevel h f (Level c) =
       retG (f', Inr (forked, sum_list (map (\<lambda>k. length (at_level f k)) [LowestLevel f..<Level c]))) \<and>
     forest_run f' \<and> LowestLevel f' = Level c \<and>
     (\<forall>i b. GetVertex f' i = Some b \<longleftrightarrow> GetVertex f i = Some b \<and> Level c \<le> Level b)"
  by (rule prune_returns [OF assms, of h]) (auto simp: pruned_lookup [OF assms(1)] LowestLevel_pruned)

theorem prune_total_witness:
  "\<exists>f'. (\<exists>r. PruneUpToLevel (sample_heap 1) sample_forest 2 = retG (f', Inr r)) \<and>
     GetVertex f' 7 = Some (sample_block 2 7 5) \<and> LowestLevel f' = 2"
  using prune_total [OF sample_forest_run sample_forest_facts(2), of "sample_heap 1"] sample_forest_facts
  by (auto simp: sample_defs)

text \<open>
  A block that names itself as its parent passes insertion, and pruning up to its level then
  never returns: the walk from level to level stays where it is.
\<close>
theorem self_parent_prune_diverges:
  assumes "AddVertex h NewLevelledForest v = retG f" and "bPrevID v = bID v" and "1 < Level v"
  shows "PruneUpToLevel h f (Level v) = None"
proof -
  note defs = AddVertex_def registerWithParent_def getOrCreateVertexContainer_def Parent_def Let_def
    VertexID_def isEmptyContainer_def set_container_def empty_container_def NewLevelledForest_def at_level_def
  obtain r where r: "bQC v = Some r"
    using assms by (cases "bQC v") (auto simp: defs)
  from assms r have f: "LowestLevel f = 0" "at_level f (Level v) = [0]" "vcVertex (containers f 0) = Some v"
      "vertices f (bID v) = Some 0"
    by (auto simp: defs)
  with r assms committed_levels_self_parent [of f "Level v" 0 "[]" v h] show ?thesis
    by (simp add: PruneUpToLevel_eq GetVertex_def2)
qed

theorem self_parent_prune_diverges_witness:
  "\<exists>f. AddVertex (sample_heap 1) NewLevelledForest (sample_block 2 7 7) = retG f \<and>
     PruneUpToLevel (sample_heap 1) f 2 = None"
  using self_parent_prune_diverges [of "sample_heap 1" "sample_block 2 7 7"]
    AddVertex_returns [of "sample_block 2 7 7" 0 "sample_heap 1" NewLevelledForest]
  by (auto simp: sample_defs)

text \<open>
  The children iterator of a known identifier visits only blocks that name it as their
  parent; asked about an identifier the forest has no container for, it dereferences nil.
\<close>
theorem children_iterator:
  assumes "forest_inv f"
  shows "if vertices f i = None then GetChildren f i = panicG NilDereference
     else (\<exists>it. GetChildren f i = retG it \<and> list_all (\<lambda>b. bPrevID b = i) (iterate_blocks f it))"
proof (cases "vertices f i")
  case (Some a)
  have "bPrevID b = i" if "b \<in> set (full_blocks f (vcChildren (containers f a)))" for b
  proof -
    from that obtain c where "c \<in> set (vcChildren (containers f a))" "vcVertex (containers f c) = Some b"
      by (auto simp: full_blocks_def List.map_filter_def)
    with assms Some show ?thesis
      using blocks_agreeD(2) [of f a c] tables_agreeD(1,2) [of f i a] by (auto simp: forest_inv_def)
  qed
  with Some show ?thesis by (simp add: GetChildren_def iterate_new list_all_iff)
qed (simp add: GetChildren_def)

theorem children_iterator_witness:
  "GetChildren sample_forest 9 = panicG NilDereference \<and>
     (\<exists>it. GetChildren sample_forest 5 = retG it \<and> list_all (\<lambda>b. bPrevID b = 5) (iterate_blocks sample_forest it))"
proof -
  have "vertices sample_forest 9 = None" "vertices sample_forest 5 \<noteq> None"
    by (simp_all add: sample_forest_def AddVertex_def registerWithParent_def getOrCreateVertexContainer_def
      NewLevelledForest_def isEmptyContainer_def empty_container_def set_container_def Parent_def sample_defs)
  with children_iterator [of sample_forest 9] children_iterator [of sample_forest 5]
    forest_run_inv [OF sample_forest_run] show ?thesis by auto
qed

end
