(* ===== verification/BlockChain.thy ===== *)
theory BlockChain
  imports Forest_Inv
begin

text \<open>
  The blockchain (blockchain/blockchain.go): the forest of blocks, the vote counter and the
  measurement counters. Committing a block walks its stored ancestors down to the lowest level,
  drops their votes and prunes the forest. The two floating-point ratios computed from the
  counters are in theory \<open>Monitor\<close>.
\<close>

record BlockChain =
  forrest :: LevelledForest
  quorum :: Quorum
  highestComitted :: int
  committedBlockNo :: nat
  totalBlockIntervals :: int
  prunedBlockNo :: nat

definition NewBlockchain :: "nat \<Rightarrow> BlockChain" where
  "NewBlockchain n = \<lparr>forrest = NewLevelledForest, quorum = NewQuorum n, highestComitted = 0,
     committedBlockNo = 0, totalBlockIntervals = 0, prunedBlockNo = 0\<rparr>"

definition Exists :: "BlockChain \<Rightarrow> Identifier \<Rightarrow> bool" where
  "Exists bc i = HasVertex (forrest bc) i"

definition AddBlock :: "qcheap \<Rightarrow> BlockChain \<Rightarrow> Block \<Rightarrow> BlockChain go" where
  "AddBlock h bc block = bindG (AddVertex h (forrest bc) block) (\<lambda>f. retG (bc\<lparr>forrest := f\<rparr>))"

definition AddVote :: "(vote_list \<Rightarrow> vote_list) \<Rightarrow> BlockChain \<Rightarrow> Vote \<Rightarrow> BlockChain \<times> bool \<times> QC option" where
  "AddVote ord bc vote =
     (case Quorum_Add ord (quorum bc) vote of (q, isBuilt, qc) \<Rightarrow> (bc\<lparr>quorum := q\<rparr>, isBuilt, qc))"

definition GetBlockByID :: "BlockChain \<Rightarrow> Identifier \<Rightarrow> go_error + Block" where
  "GetBlockByID bc i =
     (case GetVertex (forrest bc) i of None \<Rightarrow> Inl (BlockNotExist i) | Some b \<Rightarrow> Inr b)"

definition GetParentBlock :: "qcheap \<Rightarrow> BlockChain \<Rightarrow> Identifier \<Rightarrow> (go_error + Block) go" where
  "GetParentBlock h bc i =
     (case GetVertex (forrest bc) i of
        None \<Rightarrow> retG (Inl (BlockNotExist i))
      | Some vertex \<Rightarrow>
          bindG (Parent h vertex) (\<lambda>(parentID, _).
            case GetVertex (forrest bc) parentID of
              None \<Rightarrow> retG (Inl (ParentNotExist parentID))
            | Some parentVertex \<Rightarrow> retG (Inr parentVertex)))"

definition GetGrandParentBlock :: "qcheap \<Rightarrow> BlockChain \<Rightarrow> Identifier \<Rightarrow> (go_error + Block) go" where
  "GetGrandParentBlock h bc i =
     bindG (GetParentBlock h bc i) (\<lambda>r.
       case r of
         Inl err \<Rightarrow> retG (Inl (CannotGetParent err))
       | Inr parentBlock \<Rightarrow> GetParentBlock h bc (bID parentBlock))"

text \<open>The bookkeeping for one committed block: its votes are dropped and it is counted.\<close>

definition commit_one :: "View \<Rightarrow> BlockChain \<Rightarrow> Block \<Rightarrow> BlockChain" where
  "commit_one view bc block = bc\<lparr>
     quorum := (quorum bc)\<lparr>qVotes := (qVotes (quorum bc))(bID block := None)\<rparr>,
     committedBlockNo := Suc (committedBlockNo bc),
     totalBlockIntervals := i64 (totalBlockIntervals bc + i64 (view - bView block))\<rparr>"

partial_function (option) commit_loop ::
  "View \<Rightarrow> BlockChain \<Rightarrow> Block \<Rightarrow> Block list \<Rightarrow> (BlockChain \<times> Block list) go" where
  "commit_loop view bc block committedBlocks =
     (if u64 (bView block) > LowestLevel (forrest bc) then
        (case GetVertex (forrest bc) (bPrevID block) of
           None \<Rightarrow> retG (commit_one view bc block, committedBlocks @ [block])
         | Some b \<Rightarrow> commit_loop view (commit_one view bc block) b (committedBlocks @ [block]))
      else retG (bc, committedBlocks))"

definition CommitBlock ::
  "qcheap \<Rightarrow> BlockChain \<Rightarrow> Identifier \<Rightarrow> View \<Rightarrow> (BlockChain \<times> (go_error + Block list \<times> Block list)) go" where
  "CommitBlock h bc i view =
     (case GetVertex (forrest bc) i of
        None \<Rightarrow> retG (bc, Inl (CannotFindBlock i))
      | Some vertex \<Rightarrow>
          bindG (commit_loop view (bc\<lparr>highestComitted := bView vertex\<rparr>) vertex []) (\<lambda>(bc1, committedBlocks).
          bindG (PruneUpToLevel h (forrest bc1) (u64 (bView vertex))) (\<lambda>(f, r).
            case r of
              Inl err \<Rightarrow> retG (bc1\<lparr>forrest := f\<rparr>, Inl (CannotPrune err))
            | Inr (forkedBlocks, prunedNo) \<Rightarrow>
                retG (bc1\<lparr>forrest := f, prunedBlockNo := prunedBlockNo bc1 + prunedNo\<rparr>,
                  Inr (committedBlocks, forkedBlocks)))))"

definition GetChildrenBlocks :: "BlockChain \<Rightarrow> Identifier \<Rightarrow> Block list go" where
  "GetChildrenBlocks bc i =
     bindG (GetChildren (forrest bc) i) (\<lambda>iterator. retG (iterate_blocks (forrest bc) iterator))"

definition GetHighestCommitted :: "BlockChain \<Rightarrow> int" where
  "GetHighestCommitted bc = highestComitted bc"

definition GetCommittedBlocks :: "BlockChain \<Rightarrow> nat" where
  "GetCommittedBlocks bc = committedBlockNo bc"

definition GetBlockByView :: "BlockChain \<Rightarrow> View \<Rightarrow> Block go" where
  "GetBlockByView bc view =
     (case it_next (GetVerticesAtLevel (forrest bc) (u64 view)) of
        None \<Rightarrow> panicG NilDereference
      | Some b \<Rightarrow> retG b)"

section \<open>What a commit collects\<close>

fun commit_chain :: "(Identifier \<Rightarrow> Block option) \<Rightarrow> nat \<Rightarrow> Block \<Rightarrow> Block list \<Rightarrow> bool" where
  "commit_chain lookup low b [] \<longleftrightarrow> \<not> low < Level b"
| "commit_chain lookup low b (c # cs) \<longleftrightarrow> c = b \<and> low < Level b \<and>
     (case lookup (bPrevID b) of None \<Rightarrow> cs = [] | Some p \<Rightarrow> commit_chain lookup low p cs)"

text \<open>The blockchain after the bookkeeping of the blocks \<open>cs\<close>.\<close>

definition commit_all :: "View \<Rightarrow> BlockChain \<Rightarrow> Block list \<Rightarrow> BlockChain" where
  "commit_all view bc cs = fold (\<lambda>b bc. commit_one view bc b) cs bc"

lemma commit_one_forrest [simp]: "forrest (commit_one view bc b) = forrest bc"
  by (simp add: commit_one_def)

lemma commit_all_simps [simp]:
  "commit_all view bc [] = bc"
  "commit_all view bc (c # cs) = commit_all view (commit_one view bc c) cs"
  by (simp_all add: commit_all_def)

lemma commit_all_fields [simp]:
  "forrest (commit_all view bc cs) = forrest bc"
  "committedBlockNo (commit_all view bc cs) = committedBlockNo bc + length cs"
  "highestComitted (commit_all view bc cs) = highestComitted bc"
  "prunedBlockNo (commit_all view bc cs) = prunedBlockNo bc"
  "qTotal (quorum (commit_all view bc cs)) = qTotal (quorum bc)"
  by (induction cs arbitrary: bc) (simp_all add: commit_one_def)

lemma commit_all_votes:
  "qVotes (quorum (commit_all view bc cs)) i = (if i \<in> bID ` set cs then None else qVotes (quorum bc) i)"
  by (induction cs arbitrary: bc) (auto simp: commit_one_def)

lemma commit_all_quorum_cong:
  "quorum a = quorum b \<Longrightarrow> quorum (commit_all view a cs) = quorum (commit_all view b cs)"
  by (induction cs arbitrary: a b) (simp_all add: commit_one_def)

lemma commit_chain_unique: "commit_chain lk low b cs \<Longrightarrow> commit_chain lk low b ds \<Longrightarrow> cs = ds"
proof (induction cs arbitrary: b ds)
  case Nil
  then show ?case by (cases ds) auto
next
  case (Cons c cs)
  then show ?case by (cases ds) (auto split: option.splits)
qed

lemmas commit_loop_induct = commit_loop.raw_induct [rotated, consumes 1, case_names step]

lemma commit_loop_correct:
  "commit_loop view bc b acc = Some r \<Longrightarrow>
     \<exists>cs. commit_chain (GetVertex (forrest bc)) (LowestLevel (forrest bc)) b cs \<and>
          r = Ret (commit_all view bc cs, acc @ cs)"
proof (induction rule: commit_loop_induct)
  case (step cl view bc b acc r)
  show ?case
  proof (cases "LowestLevel (forrest bc) < Level b")
    case False
    with step(2) show ?thesis by (intro exI [of _ "[]"]) (auto simp: Level_def)
  next
    case True
    show ?thesis
    proof (cases "GetVertex (forrest bc) (bPrevID b)")
      case None
      with step(2) True show ?thesis by (intro exI [of _ "[b]"]) (auto simp: Level_def)
    next
      case (Some p)
      with step(2) True have "cl view (commit_one view bc b) p (acc @ [b]) = Some r" by (simp add: Level_def)
      from step(1) [OF this] obtain cs where "commit_chain (GetVertex (forrest bc)) (LowestLevel (forrest bc)) p cs"
          "r = Ret (commit_all view (commit_one view bc b) cs, (acc @ [b]) @ cs)" by auto
      with Some True show ?thesis by (intro exI [of _ "b # cs"]) simp
    qed
  qed
qed

lemma stored_parent_lower:
  assumes "well_levelled f" and "GetVertex f i = Some b" and "GetVertex f (bPrevID b) = Some p"
  shows "Level p < Level b"
  using assms(2) well_levelledD(4) [OF assms(1) _ _ assms(3)]
  by (auto simp: GetVertex_def2 split: option.splits)

lemma commit_loop_returns:
  assumes "well_levelled (forrest bc)" and "GetVertex (forrest bc) i = Some b"
  shows "\<exists>r. commit_loop view bc b acc = Some r"
  using assms
proof (induction "Level b" arbitrary: bc b i acc rule: less_induct)
  case less
  show ?case
  proof (cases "GetVertex (forrest bc) (bPrevID b)")
    case None
    then show ?thesis by (subst commit_loop.simps) simp
  next
    case (Some p)
    with less.hyps [of p "commit_one view bc b" "bPrevID b"] less.prems
      stored_parent_lower [OF less.prems Some]
    show ?thesis by (subst commit_loop.simps) simp
  qed
qed

lemma commit_loop_total:
  assumes "well_levelled (forrest bc)" and "GetVertex (forrest bc) i = Some b"
  obtains cs where "commit_chain (GetVertex (forrest bc)) (LowestLevel (forrest bc)) b cs"
    and "commit_loop view bc b acc = retG (commit_all view bc cs, acc @ cs)"
proof -
  obtain r where r: "commit_loop view bc b acc = Some r" using commit_loop_returns [OF assms] by blast
  with commit_loop_correct [OF r] that show ?thesis by auto
qed

lemma commit_chain_levels:
  assumes "well_levelled f" and "GetVertex f i = Some b" and "commit_chain (GetVertex f) low b cs"
  shows "sorted_wrt (>) (map Level cs) \<and> (\<forall>c \<in> set cs. low < Level c \<and> Level c \<le> Level b)"
  using assms(2,3)
proof (induction cs arbitrary: b i)
  case (Cons c cs)
  show ?case
  proof (cases "GetVertex f (bPrevID b)")
    case None
    with Cons.prems show ?thesis by simp
  next
    case (Some p)
    with Cons.IH [OF Some] Cons.prems stored_parent_lower [OF assms(1) Cons.prems(1) Some]
    show ?thesis by fastforce
  qed
qed simp

lemma CommitBlock_total:
  assumes "forest_run (forrest bc)" and "GetVertex (forrest bc) i = Some b"
    and "LowestLevel (forrest bc) \<le> Level b"
  obtains cs forked bc' where "CommitBlock h bc i view = retG (bc', Inr (cs, forked))"
    and "commit_chain (GetVertex (forrest bc)) (LowestLevel (forrest bc)) b cs"
    and "quorum bc' = quorum (commit_all view bc cs)"
    and "committedBlockNo bc' = committedBlockNo bc + length cs"
    and "highestComitted bc' = bView b" and "forrest bc' = pruned (forrest bc) (Level b)"
proof -
  have inv: "forest_inv (forrest bc)" and wl: "well_levelled (forrest bc)"
    using forest_run_inv [OF assms(1)] by simp_all
  let ?bc1 = "bc\<lparr>highestComitted := bView b\<rparr>"
  obtain cs where cs: "commit_chain (GetVertex (forrest bc)) (LowestLevel (forrest bc)) b cs"
      "commit_loop view ?bc1 b [] = retG (commit_all view ?bc1 cs, cs)"
    by (rule commit_loop_total [of ?bc1 i b view "[]"]) (simp_all add: wl assms(2))
  obtain cm where cm: "committed_levels h (forrest bc) (Level b) (\<lambda>_. False) = retG cm"
    using committed_levels_returns [OF inv wl] well_levelled_stored [OF inv wl assms(2)] by blast
  have q: "quorum (commit_all view ?bc1 cs) = quorum (commit_all view bc cs)"
    by (rule commit_all_quorum_cong) simp
  let ?n = "sum_list (map (\<lambda>k. length (at_level (forrest bc) k)) [LowestLevel (forrest bc)..<Level b])"
  let ?bc' = "(commit_all view ?bc1 cs)\<lparr>forrest := pruned (forrest bc) (Level b), prunedBlockNo := prunedBlockNo bc + ?n\<rparr>"
  have "CommitBlock h bc i view =
      retG (?bc', Inr (cs, forked_blocks (forrest bc) cm [LowestLevel (forrest bc)..<Level b]))"
    using cs(2) cm assms(2,3) by (simp add: CommitBlock_def PruneUpToLevel_eq Level_def [symmetric])
  from that [OF this cs(1)] q show ?thesis by simp
qed

section \<open>Runs of the blockchain\<close>

text \<open>
  A blockchain that has taken in blocks in the order of the chain, votes and commits, with the
  log of the blocks it has committed, oldest first.
\<close>

inductive chain_run :: "BlockChain \<Rightarrow> Block list \<Rightarrow> bool" where
  chain_new: "chain_run (NewBlockchain n) []"
| chain_add: "chain_run bc log \<Longrightarrow> in_order h (forrest bc) b \<Longrightarrow> AddBlock h bc b = retG bc' \<Longrightarrow> chain_run bc' log"
| chain_vote: "chain_run bc log \<Longrightarrow> AddVote ord bc vote = (bc', r) \<Longrightarrow> chain_run bc' log"
| chain_commit: "chain_run bc log \<Longrightarrow> CommitBlock h bc i view = retG (bc', Inr (cs, forked)) \<Longrightarrow>
    chain_run bc' (log @ rev cs)"

lemma CommitBlock_Inr:
  assumes "CommitBlock h bc i view = retG (bc', Inr (cs, forked))"
  obtains b where "GetVertex (forrest bc) i = Some b" and "LowestLevel (forrest bc) \<le> Level b"
    and "commit_chain (GetVertex (forrest bc)) (LowestLevel (forrest bc)) b cs"
    and "forrest bc' = pruned (forrest bc) (Level b)"
    and "PruneUpToLevel h (forrest bc) (Level b) = retG (forrest bc', Inr (forked, prunedBlockNo bc' - prunedBlockNo bc))"
proof -
  obtain b where b: "GetVertex (forrest bc) i = Some b"
    using assms by (auto simp: CommitBlock_def split: option.splits)
  obtain bc1 ds f r where l: "commit_loop view (bc\<lparr>highestComitted := bView b\<rparr>) b [] = retG (bc1, ds)"
    and p: "PruneUpToLevel h (forrest bc1) (Level b) = retG (f, r)"
    and k: "(case r of
        Inl err \<Rightarrow> retG (bc1\<lparr>forrest := f\<rparr>, Inl (CannotPrune err))
      | Inr (forkedBlocks, prunedNo) \<Rightarrow>
          retG (bc1\<lparr>forrest := f, prunedBlockNo := prunedBlockNo bc1 + prunedNo\<rparr>, Inr (ds, forkedBlocks)))
      = retG (bc', Inr (cs, forked))"
    using assms unfolding CommitBlock_def b option.case Level_def [symmetric]
    by (auto elim!: bindG_RetE)
  from k obtain n where r: "r = Inr (forked, n)" "ds = cs"
      and bc': "bc' = bc1\<lparr>forrest := f, prunedBlockNo := prunedBlockNo bc1 + n\<rparr>"
    by (cases r) (auto split: prod.splits)
  from commit_loop_correct [OF l] r(2) have c:
      "commit_chain (GetVertex (forrest bc)) (LowestLevel (forrest bc)) b cs"
      "bc1 = commit_all view (bc\<lparr>highestComitted := bView b\<rparr>) cs" by auto
  from p c(2) r(1) have f: "LowestLevel (forrest bc) \<le> Level b" "f = pruned (forrest bc) (Level b)"
    by (auto simp: PruneUpToLevel_eq bindG_eq_Ret split: if_splits)
  from p c(2) r(1) bc' f show ?thesis
    by (intro that [OF b f(1) c(1)]) simp_all
qed

lemma chain_run_forest: "chain_run bc log \<Longrightarrow> forest_run (forrest bc)"
proof (induction rule: chain_run.induct)
  case (chain_commit bc log h i view bc' cs forked)
  from chain_commit.hyps(2) show ?case
    by (rule CommitBlock_Inr) (use chain_commit.IH in \<open>auto intro: forest_run.intros\<close>)
qed (auto simp: NewBlockchain_def AddBlock_def AddVote_def bindG_eq_Ret
    intro: forest_run.intros split: prod.splits)

lemma chain_run_log:
  "chain_run bc log \<Longrightarrow>
     sorted_wrt (<) (map Level log) \<and> (\<forall>b \<in> set log. Level b \<le> LowestLevel (forrest bc))"
proof (induction rule: chain_run.induct)
  case (chain_add bc log h b bc')
  have "forest_inv (forrest bc)"
    using forest_run_inv [OF chain_run_forest [OF chain_add.hyps(1)]] by simp
  with chain_add show ?case
    by (auto simp: AddBlock_def bindG_eq_Ret forest_store.insert_lowest)
next
  case (chain_commit bc log h i view bc' cs forked)
  have wl: "well_levelled (forrest bc)"
    using forest_run_inv [OF chain_run_forest [OF chain_commit.hyps(1)]] by simp
  from chain_commit.hyps(2) show ?case
  proof (rule CommitBlock_Inr)
    fix b assume b: "GetVertex (forrest bc) i = Some b" "LowestLevel (forrest bc) \<le> Level b"
      "commit_chain (GetVertex (forrest bc)) (LowestLevel (forrest bc)) b cs"
      "forrest bc' = pruned (forrest bc) (Level b)"
    from commit_chain_levels [OF wl b(1,3)] b(2,4) chain_commit.IH show ?thesis
      by (fastforce simp: sorted_wrt_append rev_map [symmetric] sorted_wrt_rev pruned_def)
  qed
qed (auto simp: NewBlockchain_def AddVote_def split: prod.splits)

lemma commit_loop_self_parent:
  assumes "LowestLevel (forrest bc) < Level b" and "GetVertex (forrest bc) (bPrevID b) = Some b"
  shows "commit_loop view bc b acc = None"
proof -
  have "\<not> (forrest bc' = forrest bc \<and> b' = b)" if "commit_loop view' bc' b' acc' = Some r" for view' bc' b' acc' r
    using that
    by (induction rule: commit_loop_induct) (use assms in \<open>fastforce simp: Level_def\<close>)
  then show ?thesis by fastforce
qed

section \<open>The blockchain's properties\<close>

text \<open>
  C12: committing a stored block at or above the lowest level always returns. It hands back
  exactly the stored ancestors of the block above the lowest level, from the block down along the
  parent links, drops the votes for these and no others, counts them, records the committed view,
  and prunes the forest so that precisely the blocks at or above the committed level remain.
\<close>
theorem commit_block_total:
  assumes "forest_run (forrest bc)" and "GetVertex (forrest bc) i = Some b"
    and "LowestLevel (forrest bc) \<le> Level b"
  shows "\<exists>cs forked bc'. CommitBlock h bc i view = retG (bc', Inr (cs, forked)) \<and>
     commit_chain (GetVertex (forrest bc)) (LowestLevel (forrest bc)) b cs \<and>
     qVotes (quorum bc') = (\<lambda>j. if j \<in> bID ` set cs then None else qVotes (quorum bc) j) \<and>
     committedBlockNo bc' = committedBlockNo bc + length cs \<and> highestComitted bc' = bView b \<and>
     LowestLevel (forrest bc') = Level b \<and>
     (\<forall>j c. GetVertex (forrest bc') j = Some c \<longleftrightarrow> GetVertex (forrest bc) j = Some c \<and> Level b \<le> Level c)"
proof (rule CommitBlock_total [OF assms, of h view])
  fix cs forked bc'
  assume r: "CommitBlock h bc i view = retG (bc', Inr (cs, forked))"
    "commit_chain (GetVertex (forrest bc)) (LowestLevel (forrest bc)) b cs"
    "quorum bc' = quorum (commit_all view bc cs)" "committedBlockNo bc' = committedBlockNo bc + length cs"
    "highestComitted bc' = bView b" "forrest bc' = pruned (forrest bc) (Level b)"
  have v: "qVotes (quorum bc') = (\<lambda>j. if j \<in> bID ` set cs then None else qVotes (quorum bc) j)"
    by (simp add: r(3) commit_all_votes fun_eq_iff)
  from r v pruned_lookup [OF assms(1)] show ?thesis
    by (intro exI [of _ cs] exI [of _ forked] exI [of _ bc']) (simp add: pruned_def)
qed

lemma sample_chain: "commit_chain (GetVertex sample_forest) 0 (sample_block 2 7 5) [sample_block 2 7 5]"
  using forest_store.insert_lookup [OF forest_inv_New sample_forest_add, of 5] by (simp add: sample_defs)

theorem commit_block_total_witness:
  "\<exists>bc' forked. CommitBlock (sample_heap 1) ((NewBlockchain 4)\<lparr>forrest := sample_forest\<rparr>) 7 5 =
       retG (bc', Inr ([sample_block 2 7 5], forked)) \<and> highestComitted bc' = 2 \<and> committedBlockNo bc' = 1"
proof -
  let ?bc = "(NewBlockchain 4)\<lparr>forrest := sample_forest\<rparr>"
  have "committedBlockNo ?bc = 0" by (simp add: NewBlockchain_def)
  then show ?thesis
    using commit_block_total [of ?bc 7 "sample_block 2 7 5" "sample_heap 1" 5] sample_forest_run
      sample_forest_facts commit_chain_unique [OF sample_chain]
    by (fastforce simp: sample_block_def)
qed

text \<open>
  C13: a blockchain that takes in blocks in the order of the chain never commits two blocks of
  the same height, and never goes back: the levels of the blocks it has committed, over any
  number of commits, form one strictly increasing sequence, bounded by the lowest level kept.
\<close>
theorem committed_log_increasing:
  assumes "chain_run bc log"
  shows "sorted_wrt (<) (map Level log) \<and> list_all (\<lambda>b. Level b \<le> LowestLevel (forrest bc)) log"
  using chain_run_log [OF assms] by (simp add: list_all_iff)

theorem committed_log_increasing_witness:
  "\<exists>bc. chain_run bc [sample_block 2 7 5] \<and> Level (sample_block 2 7 5) \<le> LowestLevel (forrest bc)"
proof -
  let ?bc = "(NewBlockchain 4)\<lparr>forrest := sample_forest\<rparr>"
  have "AddBlock (sample_heap 1) (NewBlockchain 4) (sample_block 2 7 5) = retG ?bc"
    by (simp add: AddBlock_def NewBlockchain_def sample_forest_add)
  then have run: "chain_run ?bc []"
    by (rule chain_add [OF chain_new, rotated]) (simp add: NewBlockchain_def sample_in_order)
  obtain bc' forked where "CommitBlock (sample_heap 1) ?bc 7 5 = retG (bc', Inr ([sample_block 2 7 5], forked))"
  proof (rule CommitBlock_total [of ?bc 7 "sample_block 2 7 5" "sample_heap 1" 5])
    fix cs forked bc'
    assume "CommitBlock (sample_heap 1) ?bc 7 5 = retG (bc', Inr (cs, forked))"
      "commit_chain (GetVertex (forrest ?bc)) (LowestLevel (forrest ?bc)) (sample_block 2 7 5) cs"
    then show ?thesis
      using commit_chain_unique [OF sample_chain, of cs] that by (simp add: sample_forest_facts)
  qed (simp_all add: sample_forest_run sample_forest_facts)
  from chain_commit [OF run this] committed_log_increasing show ?thesis by fastforce
qed

text \<open>
  Committing a block that names itself as its parent never returns: the walk along the
  parent links stays at that block.
\<close>
theorem self_parent_commit_diverges:
  assumes "GetVertex (forrest bc) i = Some b" and "bPrevID b = i" and "LowestLevel (forrest bc) < Level b"
  shows "CommitBlock h bc i view = None"
  using assms commit_loop_self_parent [of "bc\<lparr>highestComitted := bView b\<rparr>" b view "[]"]
  by (simp add: CommitBlock_def)

theorem self_parent_commit_diverges_witness:
  "\<exists>bc. AddBlock (sample_heap 1) (NewBlockchain 4) (sample_block 2 7 7) = retG bc \<and>
     CommitBlock (sample_heap 1) bc 7 5 = None"
proof -
  obtain f where f: "AddVertex (sample_heap 1) NewLevelledForest (sample_block 2 7 7) = retG f"
    using AddVertex_returns [of "sample_block 2 7 7" 0] by (fastforce simp: sample_block_def)
  have "GetVertex f 7 = Some (sample_block 2 7 7)" "LowestLevel f = 0"
    using forest_store.insert_fresh [OF forest_inv_New f] forest_store.insert_lowest [OF forest_inv_New f]
    by (simp_all add: sample_block_def)
  with self_parent_commit_diverges [of "(NewBlockchain 4)\<lparr>forrest := f\<rparr>" 7 "sample_block 2 7 7"] f show ?thesis
    by (simp add: AddBlock_def NewBlockchain_def sample_defs)
qed

end
