(* ===== verification/Pacemaker.thy ===== *)
theory Pacemaker
  imports Threshold Block
begin

text \<open>
  The pacemaker (pacemaker/model.go, pacemaker/timeoutController.go, pacemaker/pacemaker.go): the
  counter of timeout messages per view and the current view of a replica. The certificate inside
  a timeout message is a pointer, here an address of the certificate heap. The channel
  \<open>newViewChan\<close> is the list of the views sent on it so far; its capacity only decides when a
  send waits for the receiver.
\<close>

section \<open>Timeout messages and certificates\<close>

record TMO =
  tmoView :: View
  tmoNodeID :: NodeID
  tmoHighQC :: "qcref option"

record TC =
  tcView :: View
  tcAggSig :: AggSig
  tcSignature :: Signature

definition NewTC :: "View \<Rightarrow> (NodeID \<times> TMO) list \<Rightarrow> TC" where
  "NewTC view requesters = \<lparr>tcView = view, tcAggSig = [], tcSignature = []\<rparr>"

section \<open>The timeout controller\<close>

record TimeoutController =
  tclN :: nat
  timeouts :: "View \<rightharpoonup> (NodeID \<times> TMO) list"

definition NewTimeoutController :: "nat \<Rightarrow> TimeoutController" where
  "NewTimeoutController n = \<lparr>tclN = n, timeouts = Map.empty\<rparr>"

definition tmos_of :: "TimeoutController \<Rightarrow> View \<Rightarrow> (NodeID \<times> TMO) list" where
  "tmos_of tcl view = (case timeouts tcl view of None \<Rightarrow> [] | Some ms \<Rightarrow> ms)"

definition tmo_total :: "TimeoutController \<Rightarrow> View \<Rightarrow> nat" where
  "tmo_total tcl view = length (tmos_of tcl view)"

definition tmo_superMajority :: "TimeoutController \<Rightarrow> View \<Rightarrow> bool" where
  "tmo_superMajority tcl view \<longleftrightarrow> tmo_total tcl view > tclN tcl * 2 div 3"

definition AddTmo :: "TimeoutController \<Rightarrow> TMO \<Rightarrow> TimeoutController \<times> bool \<times> TC option" where
  "AddTmo tcl tmo =
     (if tmo_superMajority tcl (tmoView tmo) then (tcl, False, None)
      else
        let tcl1 = (if timeouts tcl (tmoView tmo) = None
                    then tcl\<lparr>timeouts := (timeouts tcl)(tmoView tmo \<mapsto> [])\<rparr> else tcl);
            requesters = AList.update (tmoNodeID tmo) tmo (tmos_of tcl1 (tmoView tmo));
            tcl2 = tcl1\<lparr>timeouts := (timeouts tcl1)(tmoView tmo \<mapsto> requesters)\<rparr>
        in if tmo_superMajority tcl2 (tmoView tmo)
           then (tcl2, True, Some (NewTC (tmoView tmo) requesters))
           else (tcl2, False, None))"

definition tmo_counted :: "TimeoutController \<Rightarrow> TMO \<Rightarrow> TimeoutController \<times> bool" where
  "tmo_counted tcl tmo = (case AddTmo tcl tmo of (tcl', built, _) \<Rightarrow> (tcl', built))"

section \<open>The pacemaker\<close>

record Pacemaker =
  curView :: View
  newViewChan :: "View list"
  timeoutController :: TimeoutController

definition NewPacemaker :: "nat \<Rightarrow> Pacemaker" where
  "NewPacemaker n = \<lparr>curView = 0, newViewChan = [], timeoutController = NewTimeoutController n\<rparr>"

definition pm_ProcessRemoteTmo :: "Pacemaker \<Rightarrow> TMO \<Rightarrow> Pacemaker \<times> bool \<times> TC option" where
  "pm_ProcessRemoteTmo p tmo =
     (if tmoView tmo < curView p then (p, False, None)
      else case AddTmo (timeoutController p) tmo of
        (tcl, isBuilt, tc) \<Rightarrow> (p\<lparr>timeoutController := tcl\<rparr>, isBuilt, tc))"

definition AdvanceView :: "Pacemaker \<Rightarrow> View \<Rightarrow> Pacemaker" where
  "AdvanceView p view =
     (if view < curView p then p
      else p\<lparr>curView := i64 (view + 1), newViewChan := newViewChan p @ [i64 (view + 1)]\<rparr>)"

definition GetCurView :: "Pacemaker \<Rightarrow> View" where
  "GetCurView p = curView p"

text \<open>The timer in nanoseconds.\<close>

definition GetTimerForView :: "Config \<Rightarrow> int" where
  "GetTimerForView c = i64 (Timeout c * 1000000)"

section \<open>The controller meets the counter's contract\<close>

definition tcl_wf :: "TimeoutController \<Rightarrow> bool" where
  "tcl_wf tcl \<longleftrightarrow> (\<forall>view. distinct (map fst (tmos_of tcl view)) \<and>
     (\<forall>(u, m) \<in> set (tmos_of tcl view). tmoNodeID m = u \<and> tmoView m = view))"

lemma tcl_wf_New [simp]: "tcl_wf (NewTimeoutController n)"
  by (simp add: tcl_wf_def NewTimeoutController_def tmos_of_def)

lemma tmo_counted_full: "tmo_superMajority tcl (tmoView m) \<Longrightarrow> tmo_counted tcl m = (tcl, False)"
  by (simp add: tmo_counted_def AddTmo_def)

lemma tmo_counted_new:
  assumes "\<not> tmo_superMajority tcl (tmoView m)"
  shows "fst (tmo_counted tcl m) =
      tcl\<lparr>timeouts := (timeouts tcl)(tmoView m \<mapsto> AList.update (tmoNodeID m) m (tmos_of tcl (tmoView m)))\<rparr>"
    and "snd (tmo_counted tcl m) \<longleftrightarrow> tmo_superMajority (fst (tmo_counted tcl m)) (tmoView m)"
  using assms by (simp_all add: tmo_counted_def AddTmo_def tmos_of_def Let_def)

lemma tmos_of_counted:
  assumes "\<not> tmo_superMajority tcl (tmoView m)"
  shows "tmos_of (fst (tmo_counted tcl m)) view =
     (if view = tmoView m then AList.update (tmoNodeID m) m (tmos_of tcl view) else tmos_of tcl view)"
  by (simp add: tmo_counted_new(1) [OF assms] tmos_of_def)

lemma tcl_wf_counted: "tcl_wf tcl \<Longrightarrow> tcl_wf (fst (tmo_counted tcl m))"
proof (cases "tmo_superMajority tcl (tmoView m)")
  case False
  assume "tcl_wf tcl"
  then show ?thesis
    by (auto simp: tcl_wf_def tmos_of_counted [OF False] set_update_alist intro: distinct_update)
qed (simp add: tmo_counted_full)

interpretation tmos: threshold_counter tcl_wf tclN tmos_of tmoView tmoNodeID tmo_counted
proof unfold_locales
  fix tcl :: TimeoutController and m :: TMO and view :: View
  show "tcl_wf tcl \<Longrightarrow> distinct (map fst (tmos_of tcl view))"
    by (simp add: tcl_wf_def)
  show "tcl_wf tcl \<Longrightarrow> tcl_wf (fst (tmo_counted tcl m))"
    by (rule tcl_wf_counted)
  show "tclN (fst (tmo_counted tcl m)) = tclN tcl"
    by (cases "tmo_superMajority tcl (tmoView m)") (simp_all add: tmo_counted_full tmo_counted_new(1))
  show "view \<noteq> tmoView m \<Longrightarrow> tmos_of (fst (tmo_counted tcl m)) view = tmos_of tcl view"
    by (cases "tmo_superMajority tcl (tmoView m)") (simp_all add: tmo_counted_full tmos_of_counted)
  show "tclN tcl * 2 div 3 < length (tmos_of tcl (tmoView m)) \<Longrightarrow> tmo_counted tcl m = (tcl, False)"
    by (simp add: tmo_counted_full tmo_superMajority_def tmo_total_def)
  show "\<not> tclN tcl * 2 div 3 < length (tmos_of tcl (tmoView m)) \<Longrightarrow>
      tmos_of (fst (tmo_counted tcl m)) (tmoView m) =
      AList.update (tmoNodeID m) m (tmos_of tcl (tmoView m))"
    by (simp add: tmos_of_counted tmo_superMajority_def tmo_total_def)
  show "\<not> tclN tcl * 2 div 3 < length (tmos_of tcl (tmoView m)) \<Longrightarrow>
      snd (tmo_counted tcl m) \<longleftrightarrow>
      tclN tcl * 2 div 3 < length (tmos_of (fst (tmo_counted tcl m)) (tmoView m))"
    using tmo_counted_new [of tcl m] by (simp add: tmo_superMajority_def tmo_total_def)
qed

lemma tmo_superMajority_iff: "tmo_superMajority tcl view \<longleftrightarrow> tclN tcl * 2 div 3 < length (tmos_of tcl view)"
  by (simp add: tmo_superMajority_def tmo_total_def)

lemma AddTmo_counted:
  "AddTmo tcl m = (tcl', built, tc) \<Longrightarrow>
     tmo_counted tcl m = (tcl', built) \<and> (tc = (if built then Some (NewTC (tmoView m) (tmos_of tcl' (tmoView m))) else None))"
  by (auto simp: tmo_counted_def AddTmo_def Let_def tmos_of_def split: if_splits)

section \<open>Views only grow\<close>

definition view_log :: "Pacemaker \<Rightarrow> bool" where
  "view_log p \<longleftrightarrow> sorted_wrt (<) (newViewChan p) \<and> (newViewChan p \<noteq> [] \<longrightarrow> last (newViewChan p) = curView p)"

lemma view_log_New [simp]: "view_log (NewPacemaker n)"
  by (simp add: view_log_def NewPacemaker_def)

lemma sorted_wrt_last: "sorted_wrt (<) xs \<Longrightarrow> x \<in> set xs \<Longrightarrow> x \<le> last (xs :: int list)"
  by (induction xs) (auto simp: less_imp_le)

lemma AdvanceView_log:
  assumes "view_log p" and "is_i64 view" and "view < 2 ^ 63 - 1"
  shows "view_log (AdvanceView p view)" and "curView p \<le> curView (AdvanceView p view)"
    and "view < curView (AdvanceView p view)"
proof -
  have v: "i64 (view + 1) = view + 1" using assms(2,3) by (simp add: i64_succ)
  have "x < view + 1" if "x \<in> set (newViewChan p)" "\<not> view < curView p" for x
    using sorted_wrt_last [OF _ that(1)] that assms(1) by (fastforce simp: view_log_def)
  then show "view_log (AdvanceView p view)"
    using assms(1) v by (auto simp: view_log_def AdvanceView_def sorted_wrt_append)
  show "curView p \<le> curView (AdvanceView p view)" "view < curView (AdvanceView p view)"
    using v by (auto simp: AdvanceView_def)
qed

lemma AdvanceView_fields [simp]: "timeoutController (AdvanceView p view) = timeoutController p"
  by (simp add: AdvanceView_def)

lemma fold_AdvanceView:
  assumes "view_log p" and "\<forall>v \<in> set vs. is_i64 v \<and> v < 2 ^ 63 - 1"
  shows "view_log (fold (\<lambda>v p. AdvanceView p v) vs p) \<and> curView p \<le> curView (fold (\<lambda>v p. AdvanceView p v) vs p) \<and>
     (\<forall>v \<in> set vs. v < curView (fold (\<lambda>v p. AdvanceView p v) vs p))"
  using assms
proof (induction vs arbitrary: p)
  case (Cons v vs)
  note step = AdvanceView_log [of p v]
  from Cons.prems Cons.IH [of "AdvanceView p v"] step show ?case
    by (auto intro: order_trans)
qed simp

section \<open>The pacemaker's properties\<close>

text \<open>
  When the pacemaker reports a timeout certificate, it is for the view of the message just
  received, that view is not behind the replica's, and more than two thirds of the nodes have
  reported a timeout of that view.
\<close>
theorem timeout_certificate:
  assumes "tcl_wf (timeoutController p)" and "pm_ProcessRemoteTmo p tmo = (p', True, tc)"
  shows "tc = Some (NewTC (tmoView tmo) (tmos_of (timeoutController p') (tmoView tmo))) \<and>
     curView p \<le> tmoView tmo \<and> curView p' = curView p \<and>
     2 * tclN (timeoutController p) < 3 * card (fst ` set (tmos_of (timeoutController p') (tmoView tmo)))"
proof -
  obtain tcl where add: "AddTmo (timeoutController p) tmo = (tcl, True, tc)"
      and p': "p' = p\<lparr>timeoutController := tcl\<rparr>" "curView p \<le> tmoView tmo"
    using assms(2) by (auto simp: pm_ProcessRemoteTmo_def split: if_splits prod.splits)
  from AddTmo_counted [OF add] tmos.built_quorum [OF assms(1), of tmo] p' show ?thesis
    by simp
qed

theorem timeout_certificate_witness:
  "\<exists>p' tc. pm_ProcessRemoteTmo (NewPacemaker 1) \<lparr>tmoView = 2, tmoNodeID = ''1'', tmoHighQC = None\<rparr> = (p', True, tc) \<and>
     tc = Some \<lparr>tcView = 2, tcAggSig = [], tcSignature = []\<rparr>"
proof -
  let ?m = "\<lparr>tmoView = 2, tmoNodeID = ''1'', tmoHighQC = None\<rparr>"
  obtain p' tc where add: "pm_ProcessRemoteTmo (NewPacemaker 1) ?m = (p', True, tc)"
    by (simp add: pm_ProcessRemoteTmo_def NewPacemaker_def AddTmo_def NewTimeoutController_def tmo_superMajority_def
        tmo_total_def tmos_of_def Let_def)
  have "tcl_wf (timeoutController (NewPacemaker 1))" by (simp add: NewPacemaker_def)
  from timeout_certificate [OF this add] add show ?thesis by (simp add: NewTC_def)
qed

text \<open>
  Over any sequence of timeout messages, a view that had no quorum of timeouts before is
  certified exactly once if it has a quorum at the end, and never otherwise.
\<close>
theorem timeout_certificate_once:
  "built_for tmoView ms (snd (run_adds tmo_counted tcl ms)) view =
     (if tmo_superMajority (fst (run_adds tmo_counted tcl ms)) view \<and> \<not> tmo_superMajority tcl view then 1 else 0)"
  unfolding tmo_superMajority_iff by (rule tmos.built_exactly_once)

text \<open>
  However the replica is asked to advance, with views below the largest machine integer, the
  views it enters strictly increase, the current view is the last one entered, and it ends up
  beyond every view it was asked to leave.
\<close>
theorem views_strictly_increase:
  assumes "\<forall>v \<in> set vs. is_i64 v \<and> v < 2 ^ 63 - 1"
  shows "let p = fold (\<lambda>v p. AdvanceView p v) vs (NewPacemaker n) in
     sorted_wrt (<) (newViewChan p) \<and> (newViewChan p \<noteq> [] \<longrightarrow> last (newViewChan p) = GetCurView p) \<and>
     (\<forall>v \<in> set vs. v < GetCurView p)"
  using fold_AdvanceView [OF view_log_New assms, of n] by (simp add: view_log_def GetCurView_def Let_def)

theorem views_strictly_increase_witness:
  "GetCurView (fold (\<lambda>v p. AdvanceView p v) [3, 1, 7] (NewPacemaker 4)) > 7"
  using views_strictly_increase [of "[3, 1, 7]" 4] by (simp add: Let_def is_i64_def)

lemma AdvanceView_wraps:
  "curView p \<le> 2 ^ 63 - 1 \<Longrightarrow> curView (AdvanceView p (2 ^ 63 - 1)) = - (2 ^ 63)"
  by (simp add: AdvanceView_def i64_def)

end
