(* ===== verification/Chained.thy ===== *)
theory Chained
  imports Election BlockChain Pacemaker "HOL-Library.Sublist"
begin

text \<open>
  The state shared by the replicas of the chained protocols. The structs \<open>HotStuff\<close>, \<open>Tchs\<close> and
  \<open>Fhs\<close> have the same fields; a state of the model adds what the code reaches through its
  pointers: the certificates it has allocated (\<open>rQCs\<close>, with the next free address) and the
  messages it has handed to the network (\<open>rOutbox\<close>, oldest first). The channels of committed and
  forked blocks are the lists of the blocks sent on them so far.
\<close>

datatype msg = VoteMsg Vote | TmoMsg TMO | BlockMsg Block

datatype packet = SendTo NodeID msg | Broadcast msg

record chained =
  rID :: NodeID
  rByz :: bool
  rElect :: Election
  rPm :: Pacemaker
  lastVotedView :: View
  preferredView :: View
  highQC :: qcref
  rBc :: BlockChain
  committedBlocks :: "Block list"
  forkedBlocks :: "Block list"
  bufferedQCs :: "Identifier \<rightharpoonup> qcref"
  bufferedBlocks :: "View \<rightharpoonup> Block"
  rQCs :: qcheap
  rNextQC :: nat
  rOutbox :: "packet list"

definition zero_qc :: QC where
  "zero_qc = \<lparr>qcLeader = [], qcView = 0, qcBlockID = 0, qcSigners = [], qcAggSig = [], qcSignature = []\<rparr>"

definition FORK :: string where
  "FORK = ''fork''"

definition alloc_qc :: "chained \<Rightarrow> QC \<Rightarrow> chained \<times> qcref" where
  "alloc_qc s qc = (s\<lparr>rQCs := (rQCs s)(rNextQC s := qc), rNextQC := Suc (rNextQC s)\<rparr>, rNextQC s)"

definition qc_at :: "chained \<Rightarrow> qcref \<Rightarrow> QC" where
  "qc_at s r = rQCs s r"

definition cur :: "chained \<Rightarrow> View" where
  "cur s = GetCurView (rPm s)"

definition advance :: "chained \<Rightarrow> View \<Rightarrow> chained" where
  "advance s view = s\<lparr>rPm := AdvanceView (rPm s) view\<rparr>"

definition send :: "chained \<Rightarrow> packet \<Rightarrow> chained" where
  "send s p = s\<lparr>rOutbox := rOutbox s @ [p]\<rparr>"

text \<open>
  The answers of the Phalanx library to the calls of \<open>MakeProposal\<close>, in order, and the loop that
  asks until it has one.
\<close>

partial_function (option) poll_batch :: "(nat \<Rightarrow> PartialOrderBatch option) \<Rightarrow> nat \<Rightarrow> PartialOrderBatch go" where
  "poll_batch answers k =
     (case answers k of
        Some b \<Rightarrow> retG b
      | None \<Rightarrow> poll_batch answers (Suc k))"

text \<open>
  The commit of \<open>block\<close>: the blockchain prunes, then the blocks go out on the channels. The
  error is for the caller, which logs it or returns it.
\<close>

definition do_commit :: "chained \<Rightarrow> Block \<Rightarrow> (chained \<times> go_error option) go" where
  "do_commit s block =
     bindG (CommitBlock (rQCs s) (rBc s) (bID block) (cur s)) (\<lambda>(bc', res).
       case res of
         Inl err \<Rightarrow> retG (s\<lparr>rBc := bc'\<rparr>, Some err)
       | Inr (cBlocks, fBlocks) \<Rightarrow>
           retG (s\<lparr>rBc := bc', committedBlocks := committedBlocks s @ cBlocks,
                    forkedBlocks := forkedBlocks s @ fBlocks\<rparr>, None))"

section \<open>What every handler keeps\<close>

text \<open>Views that can be advanced past without leaving the machine integers.\<close>

definition small_view :: "View \<Rightarrow> bool" where
  "small_view v \<longleftrightarrow> is_i64 v \<and> v < 2 ^ 63 - 1"

definition bc_ok :: "BlockChain \<Rightarrow> bool" where
  "bc_ok bc \<longleftrightarrow> forest_inv (forrest bc) \<and> quorum_wf (quorum bc)"

definition block_ok :: "chained \<Rightarrow> Block \<Rightarrow> bool" where
  "block_ok s b \<longleftrightarrow> small_view (bView b) \<and> (\<forall>r. bQC b = Some r \<longrightarrow> r < rNextQC s)"

definition chained_wf :: "chained \<Rightarrow> bool" where
  "chained_wf s \<longleftrightarrow> bc_ok (rBc s) \<and> is_i64 (cur s) \<and> (\<forall>r. small_view (qcView (rQCs s r))) \<and>
     highQC s < rNextQC s \<and> (\<forall>i r. bufferedQCs s i = Some r \<longrightarrow> r < rNextQC s) \<and>
     finite (dom (bufferedBlocks s)) \<and>
     (\<forall>v b. bufferedBlocks s v = Some b \<longrightarrow> bView b = v + 1 \<and> block_ok s b)"

text \<open>
  What a handler may do to a state: views and locks only grow, the last voted view and the
  certificates already allocated stay, and what has been committed, sent or entered is only added to.
\<close>

definition extends :: "chained \<Rightarrow> chained \<Rightarrow> bool" where
  "extends s s' \<longleftrightarrow> rID s' = rID s \<and> rByz s' = rByz s \<and> rElect s' = rElect s \<and>
     lastVotedView s' = lastVotedView s \<and> preferredView s \<le> preferredView s' \<and> cur s \<le> cur s' \<and>
     qcView (qc_at s (highQC s)) \<le> qcView (qc_at s' (highQC s')) \<and>
     rNextQC s \<le> rNextQC s' \<and> (\<forall>r < rNextQC s. rQCs s' r = rQCs s r) \<and>
     prefix (committedBlocks s) (committedBlocks s') \<and> prefix (forkedBlocks s) (forkedBlocks s') \<and>
     prefix (rOutbox s) (rOutbox s')"

definition step_ok :: "chained \<Rightarrow> chained \<Rightarrow> bool" where
  "step_ok s s' \<longleftrightarrow> chained_wf s' \<and> extends s s'"

lemma step_ok_refl [simp]: "chained_wf s \<Longrightarrow> step_ok s s"
  by (simp add: step_ok_def extends_def)

lemma step_ok_trans [trans]: "step_ok s s1 \<Longrightarrow> step_ok s1 s2 \<Longrightarrow> step_ok s s2"
  unfolding step_ok_def extends_def by (auto intro: order_trans prefix_order.trans less_le_trans)

lemma go_all_step: "step_ok s s1 \<Longrightarrow> go_all (step_ok s1) m \<Longrightarrow> go_all (step_ok s) m"
  by (auto simp: go_all_def intro: step_ok_trans)

lemma go_all_step2:
  "step_ok s s1 \<Longrightarrow> go_all (\<lambda>(s', _). step_ok s1 s') m \<Longrightarrow> go_all (\<lambda>(s', _). step_ok s s') m"
  by (auto simp: go_all_def intro: step_ok_trans)

lemma chained_wf_bc: "chained_wf s \<Longrightarrow> bc_ok (rBc s)"
  by (simp add: chained_wf_def)

lemma step_ok_wf: "step_ok s s' \<Longrightarrow> chained_wf s'"
  by (simp add: step_ok_def)

lemma step_ok_block: "step_ok s s' \<Longrightarrow> block_ok s b \<Longrightarrow> block_ok s' b"
  by (auto simp: step_ok_def extends_def block_ok_def intro: less_le_trans)

lemma step_ok_ref: "step_ok s s' \<Longrightarrow> r < rNextQC s \<Longrightarrow> r < rNextQC s' \<and> qc_at s' r = qc_at s r"
  by (auto simp: step_ok_def extends_def qc_at_def)

lemma step_ok_fields: "step_ok s s' \<Longrightarrow> rID s' = rID s \<and> rElect s' = rElect s \<and> rByz s' = rByz s"
  by (simp add: step_ok_def extends_def)

lemma chained_wf_view [simp]: "chained_wf s \<Longrightarrow> small_view (qcView (qc_at s r))"
  by (simp add: chained_wf_def qc_at_def)

lemma small_view_succ: "small_view v \<Longrightarrow> i64 (v + 1) = v + 1" "small_view v \<Longrightarrow> is_i64 v"
  by (simp_all add: small_view_def i64_succ)

lemma block_ok_update [simp]:
  "block_ok (s\<lparr>rPm := p\<rparr>) b = block_ok s b" "block_ok (s\<lparr>rBc := c\<rparr>) b = block_ok s b"
  "block_ok (s\<lparr>highQC := r\<rparr>) b = block_ok s b" "block_ok (s\<lparr>preferredView := v\<rparr>) b = block_ok s b"
  "block_ok (s\<lparr>bufferedQCs := q\<rparr>) b = block_ok s b" "block_ok (s\<lparr>bufferedBlocks := bs\<rparr>) b = block_ok s b"
  "block_ok (s\<lparr>committedBlocks := xs\<rparr>) b = block_ok s b" "block_ok (s\<lparr>forkedBlocks := xs\<rparr>) b = block_ok s b"
  "block_ok (s\<lparr>rOutbox := os\<rparr>) b = block_ok s b"
  by (simp_all add: block_ok_def)

lemma cur_update [simp]:
  "cur (s\<lparr>rBc := c\<rparr>) = cur s" "cur (s\<lparr>highQC := r\<rparr>) = cur s" "cur (s\<lparr>preferredView := v\<rparr>) = cur s"
  "cur (s\<lparr>bufferedQCs := q\<rparr>) = cur s" "cur (s\<lparr>bufferedBlocks := bs\<rparr>) = cur s"
  "cur (s\<lparr>committedBlocks := xs\<rparr>) = cur s" "cur (s\<lparr>forkedBlocks := xs\<rparr>) = cur s"
  "cur (s\<lparr>rOutbox := os\<rparr>) = cur s" "cur (s\<lparr>rQCs := h, rNextQC := n\<rparr>) = cur s"
  by (simp_all add: cur_def)

lemma qc_at_update [simp]:
  "qc_at (s\<lparr>rBc := c\<rparr>) = qc_at s" "qc_at (s\<lparr>highQC := r\<rparr>) = qc_at s" "qc_at (s\<lparr>preferredView := v\<rparr>) = qc_at s"
  "qc_at (s\<lparr>bufferedQCs := q\<rparr>) = qc_at s" "qc_at (s\<lparr>bufferedBlocks := bs\<rparr>) = qc_at s"
  "qc_at (s\<lparr>committedBlocks := xs\<rparr>) = qc_at s" "qc_at (s\<lparr>forkedBlocks := xs\<rparr>) = qc_at s"
  "qc_at (s\<lparr>rOutbox := os\<rparr>) = qc_at s" "qc_at (s\<lparr>rPm := p\<rparr>) = qc_at s"
  by (simp_all add: qc_at_def fun_eq_iff)

lemmas step_defs = step_ok_def extends_def chained_wf_def

lemma advance_ok:
  assumes "chained_wf s" and "small_view v"
  shows "step_ok s (advance s v)"
proof -
  have "i64 (v + 1) = v + 1" "is_i64 (v + 1)"
    using assms(2) by (auto simp: small_view_def i64_succ is_i64_def)
  then have "cur s \<le> cur (advance s v)" "is_i64 (cur (advance s v))"
    using assms(1) by (auto simp: cur_def advance_def AdvanceView_def GetCurView_def chained_wf_def)
  with assms show ?thesis by (simp add: step_defs advance_def)
qed

lemma pm_ok:
  "chained_wf s \<Longrightarrow> curView p = curView (rPm s) \<Longrightarrow> step_ok s (s\<lparr>rPm := p\<rparr>)"
  by (simp add: step_defs cur_def GetCurView_def)

lemma bc_update_ok: "chained_wf s \<Longrightarrow> bc_ok c \<Longrightarrow> step_ok s (s\<lparr>rBc := c\<rparr>)"
  by (simp add: step_defs)

lemma bufferQC_ok:
  "chained_wf s \<Longrightarrow> r < rNextQC s \<Longrightarrow> step_ok s (s\<lparr>bufferedQCs := (bufferedQCs s)(i \<mapsto> r)\<rparr>)"
  by (simp add: step_defs)

lemma dropQC_ok: "chained_wf s \<Longrightarrow> step_ok s (s\<lparr>bufferedQCs := (bufferedQCs s)(i := None)\<rparr>)"
  by (simp add: step_defs)

lemma bufferBlock_ok:
  assumes "chained_wf s" and "block_ok s b" and "i64 (cur s + 1) < bView b"
  shows "step_ok s (s\<lparr>bufferedBlocks := (bufferedBlocks s)(i64 (bView b - 1) \<mapsto> b)\<rparr>)"
proof -
  have "i64 (bView b - 1) = bView b - 1"
    using assms i64_range [of "cur s + 1"] by (auto simp: block_ok_def small_view_def is_i64_def intro!: i64_id)
  with assms show ?thesis by (simp add: step_defs)
qed

lemma dropBlock_ok: "chained_wf s \<Longrightarrow> step_ok s (s\<lparr>bufferedBlocks := (bufferedBlocks s)(v := None)\<rparr>)"
  by (simp add: step_defs)

lemma send_ok: "chained_wf s \<Longrightarrow> step_ok s (send s p)"
  by (simp add: step_defs send_def)

lemma highQC_ok:
  "chained_wf s \<Longrightarrow> r < rNextQC s \<Longrightarrow> qcView (qc_at s (highQC s)) \<le> qcView (qc_at s r) \<Longrightarrow> step_ok s (s\<lparr>highQC := r\<rparr>)"
  by (simp add: step_defs)

lemma preferred_ok: "chained_wf s \<Longrightarrow> preferredView s \<le> v \<Longrightarrow> step_ok s (s\<lparr>preferredView := v\<rparr>)"
  by (simp add: step_defs)

lemma commit_ok:
  "chained_wf s \<Longrightarrow> bc_ok c \<Longrightarrow>
     step_ok s (s\<lparr>rBc := c, committedBlocks := committedBlocks s @ xs, forkedBlocks := forkedBlocks s @ ys\<rparr>)"
  by (simp add: step_defs)

lemma alloc_ok:
  assumes "chained_wf s" and "small_view (qcView q)" and "alloc_qc s q = (s', r)"
  shows "step_ok s s'" and "r < rNextQC s'" and "qc_at s' r = q" and "rBc s' = rBc s"
proof -
  have s': "s' = s\<lparr>rQCs := (rQCs s)(rNextQC s := q), rNextQC := Suc (rNextQC s)\<rparr>" and r: "r = rNextQC s"
    using assms(3) by (auto simp: alloc_qc_def)
  have "block_ok s b \<Longrightarrow> block_ok s' b" for b
    by (auto simp: block_ok_def s' intro: less_SucI)
  with assms(1,2) show "step_ok s s'"
    by (auto simp: step_defs s' qc_at_def intro: less_SucI)
  show "r < rNextQC s'" "qc_at s' r = q" "rBc s' = rBc s" by (simp_all add: s' r qc_at_def)
qed

section \<open>The blockchain's operations keep its invariant\<close>

lemma AddBlock_ok: "bc_ok c \<Longrightarrow> go_all bc_ok (AddBlock h c b)"
  by (auto simp: go_all_def AddBlock_def bc_ok_def bindG_eq_Ret intro: forest_store.insert_wf)

lemma AddVote_ok: "bc_ok c \<Longrightarrow> AddVote ord c vote = (c', built, qc) \<Longrightarrow> bc_ok c'"
  using Quorum_Add_ord(1) [of ord "quorum c" vote] quorum_wf_counted_add [of "quorum c" vote]
  by (auto simp: AddVote_def bc_ok_def split: prod.splits)

lemma AddVote_view: "AddVote ord c vote = (c', built, Some qc) \<Longrightarrow> qcView qc = vView vote \<and> qcBlockID qc = vBlockID vote"
  by (auto simp: AddVote_def Quorum_Add_def Let_def split: prod.splits if_splits)

lemma quorum_wf_commit_all: "quorum_wf (quorum c) \<Longrightarrow> quorum_wf (quorum (commit_all view c cs))"
  by (auto simp: quorum_wf_def commit_all_votes)

lemma CommitBlock_ok:
  assumes "bc_ok c"
  shows "go_all (\<lambda>(c', _). bc_ok c') (CommitBlock h c i view)"
proof (rule go_allI)
  fix x assume r: "CommitBlock h c i view = retG x"
  show "case x of (c', _) \<Rightarrow> bc_ok c'"
  proof (cases "GetVertex (forrest c) i")
    case None
    with r assms show ?thesis by (auto simp: CommitBlock_def)
  next
    case (Some b)
    from r obtain c1 cs f res where l: "commit_loop view (c\<lparr>highestComitted := bView b\<rparr>) b [] = retG (c1, cs)"
      and p: "PruneUpToLevel h (forrest c1) (Level b) = retG (f, res)"
      and x: "(case res of
          Inl err \<Rightarrow> retG (c1\<lparr>forrest := f\<rparr>, Inl (CannotPrune err))
        | Inr (fs, prunedNo) \<Rightarrow>
            retG (c1\<lparr>forrest := f, prunedBlockNo := prunedBlockNo c1 + prunedNo\<rparr>, Inr (cs, fs))) = retG x"
      unfolding CommitBlock_def Some option.case Level_def [symmetric] by (auto elim!: bindG_RetE)
    from commit_loop_correct [OF l] obtain ds where c1: "c1 = commit_all view (c\<lparr>highestComitted := bView b\<rparr>) ds"
      by auto
    have "forest_inv f" using assms p by (auto simp: c1 bc_ok_def intro: forest_store.prune_wf)
    moreover have "quorum_wf (quorum c1)" using assms by (auto simp: c1 bc_ok_def intro: quorum_wf_commit_all)
    ultimately show ?thesis using x by (auto simp: bc_ok_def split: sum.splits prod.splits)
  qed
qed

lemma do_commit_ok:
  assumes "chained_wf s"
  shows "go_all (\<lambda>(s', _). step_ok s s') (do_commit s block)"
  unfolding do_commit_def
  by (rule go_all_bind [OF CommitBlock_ok [OF chained_wf_bc [OF assms]]])
    (use assms in \<open>auto split: sum.splits intro: bc_update_ok commit_ok\<close>)

lemma pm_ProcessRemoteTmo_fields:
  "pm_ProcessRemoteTmo p tmo = (p', built, tc) \<Longrightarrow>
     curView p' = curView p \<and> (\<forall>c. tc = Some c \<longrightarrow> tcView c = tmoView tmo) \<and> (built \<longrightarrow> tc \<noteq> None)"
  by (auto simp: pm_ProcessRemoteTmo_def NewTC_def split: if_splits prod.splits dest!: AddTmo_counted)

section \<open>Lookups in the block tree\<close>

lemma GetParentBlock_Inr:
  "GetParentBlock h c i = retG (Inr p) \<longleftrightarrow>
     (\<exists>b. GetVertex (forrest c) i = Some b \<and> bQC b \<noteq> None \<and> GetVertex (forrest c) (bPrevID b) = Some p)"
  by (auto simp: GetParentBlock_def Parent_def split: option.splits)

lemma GetBlockByID_Inr: "GetBlockByID c i = Inr b \<longleftrightarrow> GetVertex (forrest c) i = Some b"
  by (auto simp: GetBlockByID_def split: option.splits)

lemma do_commit_Ret:
  assumes "do_commit s g = retG (s', err)" and "committedBlocks s' \<noteq> committedBlocks s"
  shows "\<exists>cs b. GetVertex (forrest (rBc s)) (bID g) = Some b \<and> committedBlocks s' = committedBlocks s @ cs \<and>
     commit_chain (GetVertex (forrest (rBc s))) (LowestLevel (forrest (rBc s))) b cs"
  using assms
  by (auto simp: do_commit_def elim!: bindG_RetE CommitBlock_Inr split: sum.split_asm)

text \<open>The replica built the certificate itself or has checked its signatures.\<close>

definition qc_verified :: "env \<Rightarrow> chained \<Rightarrow> qcref \<Rightarrow> bool" where
  "qc_verified e s r \<longleftrightarrow> qcLeader (qc_at s r) = rID s \<or>
     (\<exists>err. VerifyQuorumSignature e (qcAggSig (qc_at s r)) (qcBlockID (qc_at s r)) (qcSigners (qc_at s r)) =
        retG (True, err))"

lemma stored_has_QC: "forest_run f \<Longrightarrow> GetVertex f i = Some b \<Longrightarrow> bQC b \<noteq> None"
  using forest_run_inv [of f] well_levelledD(3) [of f i]
  by (auto simp: GetVertex_def2 split: option.splits)

lemma stored_own_ID: "forest_run f \<Longrightarrow> GetVertex f i = Some b \<Longrightarrow> bID b = i"
  using forest_run_inv [of f] by (auto intro: GetVertex_ID)

lemma GetParentBlock_run:
  "forest_run (forrest c) \<Longrightarrow> GetVertex (forrest c) i = Some b \<Longrightarrow> GetVertex (forrest c) (bPrevID b) = Some p \<Longrightarrow>
     GetParentBlock h c i = retG (Inr p)"
  using stored_has_QC [of "forrest c" i b] by (auto simp: GetParentBlock_Inr)

lemma do_commit_run:
  assumes "forest_run (forrest (rBc s))" and "GetVertex (forrest (rBc s)) i = Some g"
    and "LowestLevel (forrest (rBc s)) \<le> Level g"
  obtains bc' cs fs where "do_commit s g = retG (s\<lparr>rBc := bc', committedBlocks := committedBlocks s @ cs,
        forkedBlocks := forkedBlocks s @ fs\<rparr>, None)"
    and "commit_chain (GetVertex (forrest (rBc s))) (LowestLevel (forrest (rBc s))) g cs"
    and "forrest bc' = pruned (forrest (rBc s)) (Level g)"
proof -
  have i: "bID g = i" using stored_own_ID [OF assms(1,2)] .
  show ?thesis
  proof (rule CommitBlock_total [OF assms, of "rQCs s" "cur s"])
    fix cs fs bc' assume c: "CommitBlock (rQCs s) (rBc s) i (cur s) = retG (bc', Inr (cs, fs))"
      "commit_chain (GetVertex (forrest (rBc s))) (LowestLevel (forrest (rBc s))) g cs"
      "forrest bc' = pruned (forrest (rBc s)) (Level g)"
    then show ?thesis by (intro that [where bc' = bc' and cs = cs and fs = fs]) (simp_all add: do_commit_def i)
  qed
qed

lemma qc_verified_check:
  assumes "qc_verified e s r"
  obtains err where "(if qcLeader (qc_at s r) \<noteq> rID s
      then VerifyQuorumSignature e (qcAggSig (qc_at s r)) (qcBlockID (qc_at s r)) (qcSigners (qc_at s r))
      else retG (True, None)) = retG (True, err)"
proof (cases "qcLeader (qc_at s r) = rID s")
  case True
  then show ?thesis by (intro that [of None]) simp
next
  case False
  with assms obtain err where
    "VerifyQuorumSignature e (qcAggSig (qc_at s r)) (qcBlockID (qc_at s r)) (qcSigners (qc_at s r)) = retG (True, err)"
    by (auto simp: qc_verified_def)
  with False show ?thesis by (intro that [of err]) simp
qed

end
