(* ===== verification/Safety.thy ===== *)
theory Safety
  imports Chained
begin

text \<open>
  The interface between a replica and its protocol (replica/safety.go). The four handlers of the
  interface are the events below; a protocol provides a handler for each, and the contract says
  what a sequence of events can do to its state.
\<close>

datatype event = OnBlock Block | OnVote Vote | OnRemoteTmo TMO | OnLocalTmo View

fun run_events :: "('s \<Rightarrow> event \<Rightarrow> 's go) \<Rightarrow> 's \<Rightarrow> event list \<Rightarrow> 's go" where
  "run_events handle s [] = retG s"
| "run_events handle s (ev # evs) = bindG (handle s ev) (\<lambda>s'. run_events handle s' evs)"

text \<open>
  \<open>wf\<close> is the protocol's invariant, \<open>admissible\<close> says which events the network layer can deliver
  in a state, and \<open>forward\<close> relates a state to the states it may become.
\<close>

locale safety =
  fixes wf :: "'s \<Rightarrow> bool"
    and admissible :: "'s \<Rightarrow> event \<Rightarrow> bool"
    and forward :: "'s \<Rightarrow> 's \<Rightarrow> bool"
    and handle :: "'s \<Rightarrow> event \<Rightarrow> 's go"
  assumes forward_refl: "wf s \<Longrightarrow> forward s s"
    and forward_trans: "forward s s' \<Longrightarrow> forward s' s'' \<Longrightarrow> forward s s''"
    and admissible_forward: "forward s s' \<Longrightarrow> admissible s ev \<Longrightarrow> admissible s' ev"
    and handle_ok: "wf s \<Longrightarrow> admissible s ev \<Longrightarrow> handle s ev = retG s' \<Longrightarrow> wf s' \<and> forward s s'"
begin

lemma run_ok:
  "wf s \<Longrightarrow> list_all (admissible s) evs \<Longrightarrow> run_events handle s evs = retG s' \<Longrightarrow> wf s' \<and> forward s s'"
proof (induction evs arbitrary: s)
  case Nil
  then show ?case by (simp add: forward_refl)
next
  case (Cons ev evs)
  then obtain s1 where s1: "handle s ev = retG s1" "run_events handle s1 evs = retG s'"
    by (auto elim!: bindG_RetE)
  with Cons.prems have ok: "wf s1" "forward s s1" using handle_ok by auto
  have "list_all (admissible s1) evs"
    using Cons.prems(2) admissible_forward [OF ok(2)] by (auto simp: list_all_iff)
  with Cons.IH [OF ok(1)] s1(2) ok(2) show ?case by (blast intro: forward_trans)
qed

lemma run_append:
  "run_events handle s (xs @ ys) = bindG (run_events handle s xs) (\<lambda>s'. run_events handle s' ys)"
  by (induction xs arbitrary: s) (simp_all add: bindG_assoc)

end

text \<open>What the network layer delivers to a chained replica: pointers are allocated, views leave room for a successor.\<close>

fun chained_admissible :: "chained \<Rightarrow> event \<Rightarrow> bool" where
  "chained_admissible s (OnBlock b) \<longleftrightarrow> block_ok s b"
| "chained_admissible s (OnVote v) \<longleftrightarrow> small_view (vView v)"
| "chained_admissible s (OnRemoteTmo t) \<longleftrightarrow> small_view (tmoView t) \<and> (\<forall>r. tmoHighQC t = Some r \<longrightarrow> r < rNextQC s)"
| "chained_admissible s (OnLocalTmo v) \<longleftrightarrow> small_view v \<and> small_view (v + 1)"

definition chained_forward :: "chained \<Rightarrow> chained \<Rightarrow> bool" where
  "chained_forward s s' \<longleftrightarrow> step_ok s s'"

lemma chained_admissible_step: "step_ok s s' \<Longrightarrow> chained_admissible s ev \<Longrightarrow> chained_admissible s' ev"
  by (cases ev) (auto dest: step_ok_block step_ok_ref)

text \<open>A chained protocol provides the interface when each of its handlers keeps the invariant and moves forward.\<close>

lemma chained_safety:
  assumes "\<And>s ev. chained_wf s \<Longrightarrow> chained_admissible s ev \<Longrightarrow> go_all (step_ok s) (handle s ev)"
  shows "safety chained_wf chained_admissible chained_forward handle"
proof unfold_locales
  fix s s' s'' :: chained and ev :: event
  show "chained_wf s \<Longrightarrow> chained_forward s s" by (simp add: chained_forward_def)
  show "chained_forward s s' \<Longrightarrow> chained_forward s' s'' \<Longrightarrow> chained_forward s s''"
    unfolding chained_forward_def by (rule step_ok_trans)
  show "chained_forward s s' \<Longrightarrow> chained_admissible s ev \<Longrightarrow> chained_admissible s' ev"
    unfolding chained_forward_def by (rule chained_admissible_step)
  show "chained_wf s' \<and> chained_forward s s'"
    if "chained_wf s" "chained_admissible s ev" "handle s ev = retG s'"
    using go_allD [OF assms [OF that(1,2)] that(3)] by (simp add: chained_forward_def step_ok_wf)
qed

section \<open>What the protocols build on their handling of certificates\<close>

text \<open>
  The handlers of a chained protocol rely on one promise of its \<open>processCertificate\<close>: it keeps the
  invariant and only moves forward. Counting a vote, taking a buffered certificate and handling the
  certificate of a block keep the promise in turn.
\<close>

locale certifier =
  fixes certificate :: "chained \<Rightarrow> qcref option \<Rightarrow> chained go"
  assumes certificate_ok: "chained_wf s \<Longrightarrow> (\<And>r. qc = Some r \<Longrightarrow> r < rNextQC s) \<Longrightarrow>
      go_all (step_ok s) (certificate s qc)"
begin

lemma certificate_step:
  "step_ok s s1 \<Longrightarrow> r < rNextQC s1 \<Longrightarrow> go_all (step_ok s) (certificate s1 (Some r))"
  by (rule go_all_step, assumption, rule certificate_ok) (auto dest: step_ok_wf)

lemma built_certificate_ok:
  assumes "step_ok s s1" and "small_view (qcView q)"
  shows "go_all (step_ok s) (case alloc_qc s1 q of (s2, r) \<Rightarrow>
      (case GetBlockByID (rBc s2) i of
         Inl err \<Rightarrow> retG (s2\<lparr>bufferedQCs := (bufferedQCs s2)(i \<mapsto> r)\<rparr>)
       | Inr _ \<Rightarrow> certificate s2 (Some r)))"
proof -
  obtain s2 r where al: "alloc_qc s1 q = (s2, r)" by fastforce
  note a = alloc_ok [OF step_ok_wf [OF assms(1)] assms(2) al]
  have s2: "step_ok s s2" using assms(1) a(1) by (rule step_ok_trans)
  have "step_ok s (s2\<lparr>bufferedQCs := (bufferedQCs s2)(i \<mapsto> r)\<rparr>)"
    using bufferQC_ok [OF step_ok_wf [OF s2] a(2)] s2 step_ok_trans by blast
  with certificate_step [OF s2 a(2)] show ?thesis by (simp add: al split: sum.splits)
qed

lemma counted_vote_ok:
  assumes "chained_wf s" and "small_view (vView vote)"
  shows "go_all (step_ok s) (case AddVote ord (rBc s) vote of (bc', isBuilt, qc) \<Rightarrow>
      let s1 = s\<lparr>rBc := bc'\<rparr> in
      if \<not> isBuilt then retG s1
      else case qc of
        None \<Rightarrow> panicG NilDereference
      | Some q \<Rightarrow>
          (case alloc_qc s1 (q\<lparr>qcLeader := rID s\<rparr>) of
             (s2, r) \<Rightarrow>
               (case GetBlockByID (rBc s2) (qcBlockID q) of
                  Inl err \<Rightarrow> retG (s2\<lparr>bufferedQCs := (bufferedQCs s2)(qcBlockID q \<mapsto> r)\<rparr>)
                | Inr _ \<Rightarrow> certificate s2 (Some r))))"
proof -
  obtain c' built qc where av: "AddVote ord (rBc s) vote = (c', built, qc)"
    by (metis prod_cases3)
  have s1: "step_ok s (s\<lparr>rBc := c'\<rparr>)"
    using AddVote_ok [OF chained_wf_bc [OF assms(1)] av] assms(1) by (rule bc_update_ok [rotated])
  have "small_view (qcView (q\<lparr>qcLeader := rID s\<rparr>))" if "qc = Some q" for q
    using AddVote_view [OF av [unfolded that]] assms(2) by simp
  with built_certificate_ok [OF s1] s1 show ?thesis
    by (simp add: av Let_def split: option.splits)
qed

lemma taken_certificate_ok:
  assumes "chained_wf s"
  shows "go_all (step_ok s) (case bufferedQCs s i of
        None \<Rightarrow> retG s
      | Some r \<Rightarrow>
          bindG (certificate s (Some r)) (\<lambda>s1. retG (s1\<lparr>bufferedQCs := (bufferedQCs s1)(i := None)\<rparr>)))"
proof (cases "bufferedQCs s i")
  case (Some r)
  with assms have "go_all (step_ok s) (certificate s (Some r))"
    by (intro certificate_ok) (auto simp: chained_wf_def)
  then show ?thesis
    unfolding Some option.case
    by (rule go_all_bind) (auto intro: step_ok_trans dropQC_ok step_ok_wf)
qed (use assms in simp)

lemma block_certificate_ok:
  assumes "chained_wf s" and "block_ok s b" and "bQC b = Some qc" and "step_ok s s1"
  shows "go_all (step_ok s) (if bProposer b \<noteq> rID s1 then certificate s1 (Some qc) else retG s1)"
  using assms certificate_step [OF assms(4)] step_ok_ref [OF assms(4), of qc] by (simp add: block_ok_def)

end

text \<open>The promise of a handler for votes, and the vote for a block that relies on it.\<close>

locale vote_counter =
  fixes count :: "chained \<Rightarrow> Vote \<Rightarrow> chained go"
  assumes count_ok: "chained_wf s \<Longrightarrow> small_view (vView vote) \<Longrightarrow> go_all (step_ok s) (count s vote)"
begin

lemma cast_vote_ok:
  assumes "chained_wf s" and "small_view (bView b)"
  shows "go_all (step_ok s) (bindG (MakeVote e (bView b) (rID s) (bID b)) (\<lambda>vote.
     bindG (FindLeaderFor (rElect s) (i64 (bView b + 1))) (\<lambda>voteAggregator.
       if voteAggregator = rID s then count s vote
       else retG (send s (SendTo voteAggregator (VoteMsg vote))))))"
proof -
  have "go_all (\<lambda>vote. vView vote = bView b) (MakeVote e (bView b) (rID s) (bID b))"
    by (auto simp: MakeVote_def split: sum.splits intro!: go_all_bind_any)
  then show ?thesis
    by (rule go_all_bind, intro go_all_bind_any) (simp add: assms count_ok send_ok)
qed

end

end
