(* ===== verification/HotStuff.thy ===== *)
theory HotStuff
  imports Safety
begin

text \<open>
  The chained HotStuff replica (hotstuff/hotstuff.go): one definition per method, each the whole
  handler. \<open>ProcessBlock\<close> calls itself on the block buffered for the next view; its body up to
  that call is \<open>hs_process_one\<close>.
\<close>

type_synonym HotStuff = chained

definition NewHotStuff :: "env \<Rightarrow> NodeID \<Rightarrow> bool \<Rightarrow> Pacemaker \<Rightarrow> Election \<Rightarrow> HotStuff" where
  "NewHotStuff e nodeID byz pm elec =
     \<lparr>rID = nodeID, rByz = byz, rElect = elec, rPm = pm, lastVotedView = 0, preferredView = 0,
      highQC = 0, rBc = NewBlockchain (config_N (cfg e)), committedBlocks = [], forkedBlocks = [],
      bufferedQCs = Map.empty, bufferedBlocks = Map.empty,
      rQCs = (\<lambda>_. zero_qc), rNextQC = 1, rOutbox = []\<rparr>"

definition hs_GetHighQC :: "HotStuff \<Rightarrow> qcref" where
  "hs_GetHighQC s = highQC s"

definition hs_updateHighQC :: "HotStuff \<Rightarrow> qcref \<Rightarrow> HotStuff" where
  "hs_updateHighQC s r =
     (if qcView (qc_at s r) > qcView (qc_at s (highQC s)) then s\<lparr>highQC := r\<rparr> else s)"

definition hs_processTC :: "HotStuff \<Rightarrow> TC \<Rightarrow> HotStuff" where
  "hs_processTC s tc = (if tcView tc < cur s then s else advance s (tcView tc))"

definition hs_updateLastVotedView :: "HotStuff \<Rightarrow> View \<Rightarrow> HotStuff \<times> go_error option" where
  "hs_updateLastVotedView s targetView =
     (if targetView < lastVotedView s then (s, Some TargetViewTooLow)
      else (s\<lparr>lastVotedView := targetView\<rparr>, None))"

definition hs_updatePreferredView :: "HotStuff \<Rightarrow> qcref \<Rightarrow> (HotStuff \<times> go_error option) go" where
  "hs_updatePreferredView s r =
     (if qcView (qc_at s r) \<le> 2 then retG (s, None)
      else case GetBlockByID (rBc s) (qcBlockID (qc_at s r)) of
        Inl err \<Rightarrow> retG (s, Some (CannotUpdatePreferredView err))
      | Inr _ \<Rightarrow>
          bindG (GetParentBlock (rQCs s) (rBc s) (qcBlockID (qc_at s r))) (\<lambda>p.
            case p of
              Inl err \<Rightarrow> retG (s, Some (CannotUpdatePreferredView err))
            | Inr grandParentBlock \<Rightarrow>
                retG (if bView grandParentBlock > preferredView s
                      then s\<lparr>preferredView := bView grandParentBlock\<rparr> else s, None)))"

definition hs_votingRule :: "HotStuff \<Rightarrow> Block \<Rightarrow> (go_error + bool) go" where
  "hs_votingRule s block =
     (if bView block \<le> 2 then retG (Inr True)
      else bindG (GetParentBlock (rQCs s) (rBc s) (bID block)) (\<lambda>p.
        case p of
          Inl err \<Rightarrow> retG (Inl (CannotVote err))
        | Inr parentBlock \<Rightarrow>
            if bView block \<le> lastVotedView s \<or> bView parentBlock < preferredView s
            then retG (Inr False) else retG (Inr True)))"

text \<open>\<open>Inr (Some b)\<close> says that \<open>b\<close> can be committed, \<open>Inr None\<close> that nothing can.\<close>

definition hs_commitRule :: "HotStuff \<Rightarrow> qcref \<Rightarrow> (go_error + Block option) go" where
  "hs_commitRule s r =
     bindG (GetParentBlock (rQCs s) (rBc s) (qcBlockID (qc_at s r))) (\<lambda>p.
       case p of
         Inl err \<Rightarrow> retG (Inl (CannotCommitAny err))
       | Inr parentBlock \<Rightarrow>
           bindG (GetParentBlock (rQCs s) (rBc s) (bID parentBlock)) (\<lambda>g.
             case g of
               Inl err \<Rightarrow> retG (Inl (CannotCommitAny err))
             | Inr grandParentBlock \<Rightarrow>
                 if i64 (bView grandParentBlock + 1) = bView parentBlock \<and>
                    i64 (bView parentBlock + 1) = qcView (qc_at s r)
                 then retG (Inr (Some grandParentBlock)) else retG (Inr None)))"

text \<open>The last part of \<open>processCertificate\<close>: commit what the commit rule allows.\<close>

definition hs_commit :: "HotStuff \<Rightarrow> qcref \<Rightarrow> HotStuff go" where
  "hs_commit s r =
     bindG (hs_commitRule s r) (\<lambda>ok.
       case ok of
         Inl _ \<Rightarrow> retG s
       | Inr None \<Rightarrow> retG s
       | Inr (Some block) \<Rightarrow> bindG (do_commit s block) (\<lambda>(s', _). retG s'))"

text \<open>\<open>processCertificate\<close> once the certificate's signatures have been checked.\<close>

definition hs_certified :: "HotStuff \<Rightarrow> qcref \<Rightarrow> HotStuff go" where
  "hs_certified s r =
     bindG (hs_updatePreferredView s r) (\<lambda>(s1, err).
       if err \<noteq> None
       then retG (s1\<lparr>bufferedQCs := (bufferedQCs s1)(qcBlockID (qc_at s1 r) \<mapsto> r)\<rparr>)
       else
         let s2 = hs_updateHighQC (advance s1 (qcView (qc_at s1 r))) r
         in if qcView (qc_at s2 r) < 3 then retG s2 else hs_commit s2 r)"

definition hs_processCertificate :: "env \<Rightarrow> HotStuff \<Rightarrow> qcref option \<Rightarrow> HotStuff go" where
  "hs_processCertificate e s qc =
     (case qc of
        None \<Rightarrow> panicG NilDereference
      | Some r \<Rightarrow>
          let q = qc_at s r in
          if qcView q < cur s then retG s
          else
            bindG (if qcLeader q \<noteq> rID s
                   then VerifyQuorumSignature e (qcAggSig q) (qcBlockID q) (qcSigners q)
                   else retG (True, None)) (\<lambda>(quorumIsVerified, _).
              if \<not> quorumIsVerified then retG s
              else
                bindG (if rByz s \<and> Strategy (cfg e) = FORK
                       then IsLeader (rElect s) (rID s) (i64 (qcView q + 1)) else retG False) (\<lambda>forking.
                  if forking then retG (advance s (qcView q)) else hs_certified s r)))"

definition hs_ProcessVote :: "env \<Rightarrow> HotStuff \<Rightarrow> Vote \<Rightarrow> HotStuff go" where
  "hs_ProcessVote e s vote =
     bindG (if vVoter vote \<noteq> rID s
            then PubVerify e (vSig vote) (IDToByte (vBlockID vote)) (vVoter vote)
            else retG (True, None)) (\<lambda>(voteIsVerified, err).
       if err \<noteq> None \<or> \<not> voteIsVerified then retG s
       else
         case AddVote (vote_order e) (rBc s) vote of
           (bc', isBuilt, qc) \<Rightarrow>
             let s1 = s\<lparr>rBc := bc'\<rparr> in
             if \<not> isBuilt then retG s1
             else case qc of
               None \<Rightarrow> panicG NilDereference
             | Some q \<Rightarrow>
                 (case alloc_qc s1 (q\<lparr>qcLeader := rID s\<rparr>) of
                    (s2, r) \<Rightarrow>
                      (case GetBlockByID (rBc s2) (qcBlockID q) of
                         Inl err \<Rightarrow> retG (s2\<lparr>bufferedQCs := (bufferedQCs s2)(qcBlockID q \<mapsto> r)\<rparr>)
                       | Inr _ \<Rightarrow> hs_processCertificate e s2 (Some r))))"

definition hs_ProcessRemoteTmo :: "env \<Rightarrow> HotStuff \<Rightarrow> TMO \<Rightarrow> HotStuff go" where
  "hs_ProcessRemoteTmo e s tmo =
     bindG (hs_processCertificate e s (tmoHighQC tmo)) (\<lambda>s1.
       case pm_ProcessRemoteTmo (rPm s1) tmo of
         (pm', isBuilt, tc) \<Rightarrow>
           let s2 = s1\<lparr>rPm := pm'\<rparr> in
           if \<not> isBuilt then retG s2
           else case tc of
             None \<Rightarrow> panicG NilDereference
           | Some c \<Rightarrow> retG (hs_processTC s2 c))"

definition hs_ProcessLocalTmo :: "env \<Rightarrow> HotStuff \<Rightarrow> View \<Rightarrow> HotStuff go" where
  "hs_ProcessLocalTmo e s view =
     (let s1 = advance s view;
          tmo = \<lparr>tmoView = i64 (view + 1), tmoNodeID = rID s1, tmoHighQC = Some (hs_GetHighQC s1)\<rparr>
      in hs_ProcessRemoteTmo e (send s1 (Broadcast (TmoMsg tmo))) tmo)"

definition hs_forkChoice :: "env \<Rightarrow> HotStuff \<Rightarrow> (HotStuff \<times> qcref) go" where
  "hs_forkChoice e s =
     (if \<not> rByz s \<or> Strategy (cfg e) \<noteq> FORK then retG (s, hs_GetHighQC s)
      else case GetBlockByID (rBc s) (qcBlockID (qc_at s (hs_GetHighQC s))) of
        Inl err \<Rightarrow> panicG NilDereference
      | Inr parBlock \<Rightarrow>
          (case bQC parBlock of
             None \<Rightarrow> panicG NilDereference
           | Some pr \<Rightarrow>
               let choice = (if qcView (qc_at s pr) < preferredView s then hs_GetHighQC s else pr)
               in retG (s\<lparr>rQCs := (rQCs s)(choice := (qc_at s choice)\<lparr>qcView := i64 (cur s - 1)\<rparr>)\<rparr>, choice)))"

definition hs_MakeProposal :: "env \<Rightarrow> HotStuff \<Rightarrow> View \<Rightarrow> Transaction list \<Rightarrow> (HotStuff \<times> Block) go" where
  "hs_MakeProposal e s view payload =
     bindG (hs_forkChoice e s) (\<lambda>(s1, r).
     bindG (MakeBlock e (rQCs s1) view (Some r) (qcBlockID (qc_at s1 r)) payload (rID s1)) (\<lambda>block.
       retG (s1, block)))"

definition hs_MakePProposal ::
  "env \<Rightarrow> (nat \<Rightarrow> PartialOrderBatch option) \<Rightarrow> HotStuff \<Rightarrow> View \<Rightarrow> (HotStuff \<times> Block) go" where
  "hs_MakePProposal e answers s view =
     bindG (hs_forkChoice e s) (\<lambda>(s1, r).
     bindG (poll_batch answers 0) (\<lambda>priori.
     bindG (MakePBlock e (rQCs s1) view (Some r) (qcBlockID (qc_at s1 r)) (Some priori) (rID s1)) (\<lambda>block.
       retG (s1, block))))"

text \<open>The vote for \<open>block\<close>, processed here or sent to the leader of the next view.\<close>

definition hs_vote :: "env \<Rightarrow> HotStuff \<Rightarrow> Block \<Rightarrow> HotStuff go" where
  "hs_vote e s block =
     bindG (MakeVote e (bView block) (rID s) (bID block)) (\<lambda>vote.
     bindG (FindLeaderFor (rElect s) (i64 (bView block + 1))) (\<lambda>voteAggregator.
       if voteAggregator = rID s then hs_ProcessVote e s vote
       else retG (send s (SendTo voteAggregator (VoteMsg vote)))))"

text \<open>A certificate that arrived before its block.\<close>

definition hs_take_bufferedQC :: "env \<Rightarrow> HotStuff \<Rightarrow> Identifier \<Rightarrow> HotStuff go" where
  "hs_take_bufferedQC e s i =
     (case bufferedQCs s i of
        None \<Rightarrow> retG s
      | Some r \<Rightarrow>
          bindG (hs_processCertificate e s (Some r)) (\<lambda>s1.
            retG (s1\<lparr>bufferedQCs := (bufferedQCs s1)(i := None)\<rparr>)))"

text \<open>
  \<open>ProcessBlock\<close> up to the look at the buffered blocks, in two parts: from the insertion of the
  block on, and from the start. \<open>Some err\<close> is a return with the error \<open>err\<close>, \<open>None\<close> falls through.
\<close>

definition hs_insert_and_vote :: "env \<Rightarrow> HotStuff \<Rightarrow> Block \<Rightarrow> (HotStuff \<times> go_error option option) go" where
  "hs_insert_and_vote e s block =
     bindG (AddBlock (rQCs s) (rBc s) block) (\<lambda>bc'.
     bindG (hs_take_bufferedQC e (s\<lparr>rBc := bc'\<rparr>) (bID block)) (\<lambda>s1.
     bindG (hs_votingRule s1 block) (\<lambda>rule.
       case rule of
         Inl err \<Rightarrow> retG (s1, Some (Some err))
       | Inr shouldVote \<Rightarrow>
           if \<not> shouldVote then retG (s1, Some None)
           else bindG (hs_vote e s1 block) (\<lambda>s2. retG (s2, None)))))"

definition hs_process_one :: "env \<Rightarrow> HotStuff \<Rightarrow> Block \<Rightarrow> (HotStuff \<times> go_error option option) go" where
  "hs_process_one e s block =
     bindG (if bProposer block \<noteq> rID s
            then PubVerify e (bSig block) (IDToByte (bID block)) (bProposer block)
            else retG (True, None)) (\<lambda>_.
       if bView block > i64 (cur s + 1)
       then retG (s\<lparr>bufferedBlocks := (bufferedBlocks s)(i64 (bView block - 1) \<mapsto> block)\<rparr>, Some None)
       else case bQC block of
         None \<Rightarrow> retG (s, Some (Some BlockWithoutQC))
       | Some qc \<Rightarrow>
           let s1 = hs_updateHighQC s qc in
           bindG (if bProposer block \<noteq> rID s1 then hs_processCertificate e s1 (Some qc) else retG s1) (\<lambda>s2.
             if bView block < cur s2 then retG (s2, Some None)
             else
               bindG (IsLeader (rElect s2) (bProposer block) (bView block)) (\<lambda>leader.
                 if \<not> leader then retG (s2, Some (Some (InvalidLeader (bView block) (bProposer block))))
                 else hs_insert_and_vote e s2 block)))"

partial_function (option) hs_ProcessBlock :: "env \<Rightarrow> HotStuff \<Rightarrow> Block \<Rightarrow> (HotStuff \<times> go_error option) go" where
  "hs_ProcessBlock e s block =
     bindG (hs_process_one e s block) (\<lambda>(s1, ret).
       case ret of
         Some err \<Rightarrow> retG (s1, err)
       | None \<Rightarrow>
           (case bufferedBlocks s1 (bView block) of
              None \<Rightarrow> retG (s1, None)
            | Some b \<Rightarrow>
                bindG (hs_ProcessBlock e s1 b) (\<lambda>(s2, _).
                  retG (s2\<lparr>bufferedBlocks := (bufferedBlocks s2)(bView block := None)\<rparr>, None))))"

section \<open>Every handler keeps the invariant and only moves forward\<close>

lemma hs_updateHighQC_ok: "chained_wf s \<Longrightarrow> r < rNextQC s \<Longrightarrow> step_ok s (hs_updateHighQC s r)"
  by (simp add: hs_updateHighQC_def highQC_ok)

lemma hs_updatePreferredView_ok:
  assumes "chained_wf s"
  shows "go_all (\<lambda>(s', _). step_ok s s') (hs_updatePreferredView s r)"
proof -
  have "go_all (\<lambda>(s', _). step_ok s s') (case p of
      Inl err \<Rightarrow> retG (s, Some (CannotUpdatePreferredView err))
    | Inr g \<Rightarrow> retG (if bView g > preferredView s then s\<lparr>preferredView := bView g\<rparr> else s, None))" for p
    using assms by (cases p) (auto intro: preferred_ok)
  with assms show ?thesis
    by (auto simp: hs_updatePreferredView_def split: sum.splits intro!: go_all_bind_any)
qed

lemma hs_commit_ok:
  assumes "chained_wf s"
  shows "go_all (step_ok s) (hs_commit s r)"
proof -
  have "go_all (step_ok s) (bindG (do_commit s block) (\<lambda>(s', _). retG s'))" for block
    by (rule go_all_bind [OF do_commit_ok [OF assms]]) auto
  with assms show ?thesis
    unfolding hs_commit_def
    by (intro go_all_bind_any) (simp split: sum.splits option.splits)
qed

lemma hs_certified_ok:
  assumes "chained_wf s" and "r < rNextQC s"
  shows "go_all (step_ok s) (hs_certified s r)"
  unfolding hs_certified_def
proof (rule go_all_bind [OF hs_updatePreferredView_ok [OF assms(1)]], clarify)
  fix s1 err assume s1: "step_ok s s1"
  let ?s2 = "hs_updateHighQC (advance s1 (qcView (qc_at s1 r))) r"
  have wf1: "chained_wf s1" using s1 by (rule step_ok_wf)
  have r1: "r < rNextQC s1" using step_ok_ref [OF s1 assms(2)] by simp
  have adv: "step_ok s1 (advance s1 (qcView (qc_at s1 r)))"
    using wf1 by (intro advance_ok) simp_all
  then have s2: "step_ok s1 ?s2"
    using hs_updateHighQC_ok [OF step_ok_wf [OF adv]] step_ok_ref [OF adv r1] step_ok_trans by blast
  then have "go_all (step_ok s) (hs_commit ?s2 r)"
    using go_all_step [OF step_ok_trans [OF s1 s2] hs_commit_ok [OF step_ok_wf [OF s2]]] by simp
  moreover have "step_ok s ?s2" using s1 s2 by (rule step_ok_trans)
  moreover have "step_ok s (s1\<lparr>bufferedQCs := (bufferedQCs s1)(qcBlockID (qc_at s1 r) \<mapsto> r)\<rparr>)"
    using bufferQC_ok [OF wf1 r1] s1 by (blast intro: step_ok_trans)
  ultimately show "go_all (step_ok s) (if err \<noteq> None
      then retG (s1\<lparr>bufferedQCs := (bufferedQCs s1)(qcBlockID (qc_at s1 r) \<mapsto> r)\<rparr>)
      else let s2 = ?s2 in if qcView (qc_at s2 r) < 3 then retG s2 else hs_commit s2 r)"
    by (simp add: Let_def)
qed

lemma hs_processCertificate_ok:
  assumes "chained_wf s" and "\<And>r. qc = Some r \<Longrightarrow> r < rNextQC s"
  shows "go_all (step_ok s) (hs_processCertificate e s qc)"
proof (cases qc)
  case (Some r)
  have "step_ok s (advance s (qcView (qc_at s r)))" using assms(1) by (intro advance_ok) simp_all
  with assms Some hs_certified_ok [OF assms(1), of r] show ?thesis
    by (auto simp: hs_processCertificate_def Let_def intro!: go_all_bind_any)
qed (simp add: hs_processCertificate_def)

interpretation hs_certifier: certifier "hs_processCertificate e"
  by unfold_locales (rule hs_processCertificate_ok)

lemma hs_ProcessVote_ok:
  assumes "chained_wf s" and "small_view (vView vote)"
  shows "go_all (step_ok s) (hs_ProcessVote e s vote)"
  using assms hs_certifier.counted_vote_ok [OF assms, of e "vote_order e"]
  by (auto simp: hs_ProcessVote_def intro!: go_all_bind_any)

interpretation hs_votes: vote_counter "hs_ProcessVote e"
  by unfold_locales (rule hs_ProcessVote_ok)

lemma hs_vote_ok: "chained_wf s \<Longrightarrow> small_view (bView b) \<Longrightarrow> go_all (step_ok s) (hs_vote e s b)"
  unfolding hs_vote_def by (rule hs_votes.cast_vote_ok)

lemma hs_take_bufferedQC_ok: "chained_wf s \<Longrightarrow> go_all (step_ok s) (hs_take_bufferedQC e s i)"
  unfolding hs_take_bufferedQC_def by (rule hs_certifier.taken_certificate_ok)

lemma hs_insert_and_vote_ok:
  assumes "chained_wf s" and "small_view (bView b)"
  shows "go_all (\<lambda>(s', _). step_ok s s') (hs_insert_and_vote e s b)"
  unfolding hs_insert_and_vote_def
proof (rule go_all_bind [OF AddBlock_ok [OF chained_wf_bc [OF assms(1)]]])
  fix bc' assume "bc_ok bc'"
  then have s1: "step_ok s (s\<lparr>rBc := bc'\<rparr>)" by (rule bc_update_ok [OF assms(1)])
  have vote: "go_all (\<lambda>(s', _). step_ok s s') 
      (bindG (hs_vote e s3 b) (\<lambda>s4. retG (s4, None :: go_error option option)))"
    if "step_ok s s3" for s3
    by (rule go_all_bind [OF hs_vote_ok [OF step_ok_wf [OF that] assms(2)]])
      (use that in \<open>auto intro: step_ok_trans\<close>)
  show "go_all (\<lambda>(s', _). step_ok s s')
    (bindG (hs_take_bufferedQC e (s\<lparr>rBc := bc'\<rparr>) (bID b)) (\<lambda>s1.
     bindG (hs_votingRule s1 b) (\<lambda>rule.
       case rule of
         Inl err \<Rightarrow> retG (s1, Some (Some err))
       | Inr shouldVote \<Rightarrow>
           if \<not> shouldVote then retG (s1, Some None)
           else bindG (hs_vote e s1 b) (\<lambda>s2. retG (s2, None)))))"
    by (rule go_all_bind [OF go_all_step [OF s1 hs_take_bufferedQC_ok [OF step_ok_wf [OF s1]]]],
        rule go_all_bind_any)
      (use vote in \<open>simp split: sum.splits\<close>)
qed

lemma hs_block_cert_ok:
  assumes "chained_wf s" and "block_ok s b" and "bQC b = Some qc" and "s1 = hs_updateHighQC s qc"
  shows "go_all (step_ok s) (if bProposer b \<noteq> rID s1 then hs_processCertificate e s1 (Some qc) else retG s1)"
proof (rule hs_certifier.block_certificate_ok [OF assms(1-3)])
  show "step_ok s s1" using hs_updateHighQC_ok [OF assms(1)] assms(2-4) by (simp add: block_ok_def)
qed

lemma hs_process_one_ok:
  assumes "chained_wf s" and "block_ok s b"
  shows "go_all (\<lambda>(s', _). step_ok s s') (hs_process_one e s b)"
proof -
  have small: "small_view (bView b)" using assms(2) by (simp add: block_ok_def)
  have ins: "go_all (\<lambda>(s', _). step_ok s s') (hs_insert_and_vote e s2 b)" if "step_ok s s2" for s2
    by (rule go_all_step2 [OF that hs_insert_and_vote_ok [OF step_ok_wf [OF that] small]])
  have rest: "go_all (\<lambda>(s', _). step_ok s s') (if bView b < cur s2 then retG (s2, Some None)
      else bindG (IsLeader (rElect s2) (bProposer b) (bView b)) (\<lambda>leader.
        if \<not> leader then retG (s2, Some (Some (InvalidLeader (bView b) (bProposer b))))
        else hs_insert_and_vote e s2 b))" if "step_ok s s2" for s2
    using that ins [OF that] by (auto intro: go_all_bind_any)
  show ?thesis
  proof (cases "bView b > i64 (cur s + 1) \<or> bQC b = None")
    case True
    with assms show ?thesis
      by (auto simp: hs_process_one_def intro!: go_all_bind_any bufferBlock_ok)
  next
    case False
    then obtain qc where qc: "bQC b = Some qc" "\<not> bView b > i64 (cur s + 1)" by auto
    show ?thesis
      unfolding hs_process_one_def Let_def qc(1) option.case if_not_P [OF qc(2)]
      by (rule go_all_bind_any, rule go_all_bind [OF hs_block_cert_ok [OF assms qc(1) refl] rest])
  qed
qed

lemmas hs_ProcessBlock_induct = hs_ProcessBlock.raw_induct [rotated, consumes 1, case_names step]

lemma hs_ProcessBlock_step:
  "hs_ProcessBlock e s b = Some r \<Longrightarrow> chained_wf s \<Longrightarrow> block_ok s b \<Longrightarrow> r = Ret (s', err) \<Longrightarrow> step_ok s s'"
proof (induction arbitrary: s' err rule: hs_ProcessBlock_induct)
  case (step pb e s b r)
  obtain s1 ret where one: "hs_process_one e s b = retG (s1, ret)"
    using step.hyps step.prems(3) by (auto elim!: bindG_RetE)
  have s1: "step_ok s s1"
    using go_allD [OF hs_process_one_ok [OF step.prems(1,2)] one] by simp
  show ?case
  proof (cases "ret = None \<and> bufferedBlocks s1 (bView b) \<noteq> None")
    case False
    with step.hyps step.prems(3) one s1 show ?thesis by (auto split: option.splits)
  next
    case True
    then obtain c where c: "bufferedBlocks s1 (bView b) = Some c" by auto
    with True step.hyps step.prems(3) one obtain s2 err' where
        rec: "pb e s1 c = retG (s2, err')"
      and s': "s' = s2\<lparr>bufferedBlocks := (bufferedBlocks s2)(bView b := None)\<rparr>"
      by (auto elim!: bindG_RetE)
    have "block_ok s1 c" using c step_ok_wf [OF s1] by (auto simp: chained_wf_def)
    with step.IH [OF rec step_ok_wf [OF s1]] have "step_ok s1 s2" by blast
    then have s2: "step_ok s s2" using s1 step_ok_trans by blast
    then show ?thesis unfolding s' using dropBlock_ok [OF step_ok_wf [OF s2]] step_ok_trans by blast
  qed
qed

lemma hs_ProcessBlock_ok:
  "chained_wf s \<Longrightarrow> block_ok s b \<Longrightarrow> go_all (\<lambda>(s', _). step_ok s s') (hs_ProcessBlock e s b)"
  by (rule go_allI) (auto dest: hs_ProcessBlock_step)

lemma hs_processTC_ok: "chained_wf s \<Longrightarrow> small_view (tcView tc) \<Longrightarrow> step_ok s (hs_processTC s tc)"
  by (simp add: hs_processTC_def advance_ok)

lemma hs_ProcessRemoteTmo_ok:
  assumes "chained_wf s" and "small_view (tmoView tmo)" and "\<And>r. tmoHighQC tmo = Some r \<Longrightarrow> r < rNextQC s"
  shows "go_all (step_ok s) (hs_ProcessRemoteTmo e s tmo)"
  unfolding hs_ProcessRemoteTmo_def
proof (rule go_all_bind [OF hs_processCertificate_ok [OF assms(1,3)]])
  fix s1 assume s1: "step_ok s s1"
  obtain p built tc where pm: "pm_ProcessRemoteTmo (rPm s1) tmo = (p, built, tc)" by (metis prod_cases3)
  note f = pm_ProcessRemoteTmo_fields [OF pm]
  have s2: "step_ok s (s1\<lparr>rPm := p\<rparr>)"
    using pm_ok [OF step_ok_wf [OF s1], of p] f s1 by (blast intro: step_ok_trans)
  have "step_ok s (hs_processTC (s1\<lparr>rPm := p\<rparr>) c)" if "tc = Some c" for c
    using hs_processTC_ok [OF step_ok_wf [OF s2], of c] f that assms(2) s2 step_ok_trans by auto
  with s2 show "go_all (step_ok s) (case pm_ProcessRemoteTmo (rPm s1) tmo of
      (pm', isBuilt, tc) \<Rightarrow> let s2 = s1\<lparr>rPm := pm'\<rparr> in if \<not> isBuilt then retG s2
        else case tc of None \<Rightarrow> panicG NilDereference | Some c \<Rightarrow> retG (hs_processTC s2 c))"
    by (simp add: pm Let_def split: option.splits)
qed

lemma hs_ProcessLocalTmo_ok:
  assumes "chained_wf s" and "small_view view" and "small_view (view + 1)"
  shows "go_all (step_ok s) (hs_ProcessLocalTmo e s view)"
proof -
  let ?tmo = "\<lparr>tmoView = i64 (view + 1), tmoNodeID = rID (advance s view), tmoHighQC = Some (highQC (advance s view))\<rparr>"
  let ?s2 = "send (advance s view) (Broadcast (TmoMsg ?tmo))"
  have s1: "step_ok s (advance s view)" using assms(1,2) by (rule advance_ok)
  have s2: "step_ok s ?s2" using send_ok [OF step_ok_wf [OF s1]] s1 by (blast intro: step_ok_trans)
  have "highQC (advance s view) < rNextQC ?s2"
    using assms(1) by (simp add: chained_wf_def advance_def send_def)
  with hs_ProcessRemoteTmo_ok [OF step_ok_wf [OF s2], of ?tmo e] go_all_step [OF s2] assms(2,3) show ?thesis
    by (simp add: hs_ProcessLocalTmo_def Let_def hs_GetHighQC_def small_view_succ)
qed

section \<open>HotStuff provides the safety interface\<close>

fun hs_handle :: "env \<Rightarrow> HotStuff \<Rightarrow> event \<Rightarrow> HotStuff go" where
  "hs_handle e s (OnBlock b) = bindG (hs_ProcessBlock e s b) (\<lambda>(s', _). retG s')"
| "hs_handle e s (OnVote v) = hs_ProcessVote e s v"
| "hs_handle e s (OnRemoteTmo t) = hs_ProcessRemoteTmo e s t"
| "hs_handle e s (OnLocalTmo v) = hs_ProcessLocalTmo e s v"

lemma hs_handle_ok: "chained_wf s \<Longrightarrow> chained_admissible s ev \<Longrightarrow> go_all (step_ok s) (hs_handle e s ev)"
proof (cases ev)
  case (OnBlock b)
  assume "chained_wf s" "chained_admissible s ev"
  with OnBlock have "go_all (\<lambda>(s', _). step_ok s s') (hs_ProcessBlock e s b)"
    by (simp add: hs_ProcessBlock_ok)
  then have "go_all (step_ok s) (bindG (hs_ProcessBlock e s b) (\<lambda>(s', _). retG s'))"
    by (rule go_all_bind) auto
  with OnBlock show ?thesis by simp
qed (auto intro: hs_ProcessVote_ok hs_ProcessRemoteTmo_ok hs_ProcessLocalTmo_ok)

interpretation hotstuff: safety chained_wf chained_admissible chained_forward "hs_handle e"
  by (rule chained_safety) (rule hs_handle_ok)

lemma NewHotStuff_wf: "chained_wf (NewHotStuff e i byz (NewPacemaker n) elec)"
  by (simp add: chained_wf_def NewHotStuff_def cur_def GetCurView_def NewPacemaker_def bc_ok_def NewBlockchain_def
      zero_qc_def small_view_def is_i64_def)

end
