(* ===== verification/Samples.thy ===== *)
theory Samples
  imports Safety
begin

text \<open>
  Concrete inputs for the instances of the properties: an environment in which the handlers can
  run, and a chain of three blocks, each certified by the next.
\<close>

section \<open>A concrete environment\<close>

text \<open>
  \<open>n\<close> nodes whose signatures are all the same pair, and a verifier that always answers
  \<open>verdict\<close>: used to run the handlers on concrete messages.
\<close>

definition sample_env :: "nat \<Rightarrow> bool \<Rightarrow> env" where
  "sample_env n verdict =
     \<lparr>keys = replicate n (Some \<lparr>privSignAlg = ''ECDSA_P256'', privD = 1, privPub = (1, 1)\<rparr>),
      pubKeys = replicate n (Some \<lparr>pubSignAlg = ''ECDSA_P256'', pubPoint = (1, 1)\<rparr>),
      ecdsaSign = (\<lambda>_ _. Some (1, 1)), ecdsaVerify = (\<lambda>_ _ _ _. verdict),
      cfg = MakeDefaultConfig\<lparr>cfg_n := n\<rparr>, json_Marshal = (\<lambda>_. Some []), sha3_256 = (\<lambda>_. replicate 32 (CHR 0x00)),
      vote_order = (\<lambda>vs. vs)\<rparr>"

lemma Node_samples [simp]: "Node ''1'' = 1" "Node ''2'' = 2" "Node ''3'' = 3" "Node ''4'' = 4"
  by (simp_all add: Node_def ParseUint_def digit_value_def Let_def i64_nonneg_id)

lemma Itoa_1 [simp]: "Itoa 1 = ''1''"
  using digit_char_simps(2) by (simp add: Itoa_def dec_digits.simps)

lemma i64_numeral [simp]: "i64 0 = 0" "i64 1 = 1" "i64 2 = 2" "i64 3 = 3" "i64 4 = 4" "i64 5 = 5"
  by (simp_all add: i64_def)

lemma sample_PubVerify [simp]:
  "PubVerify (sample_env 4 verdict) [''1'', ''1''] data ''2'' = retG (verdict, None)"
  "PubVerify (sample_env 4 verdict) [''1'', ''1''] data ''3'' = retG (verdict, None)"
  "PubVerify (sample_env 4 verdict) [''1'', ''1''] data ''4'' = retG (verdict, None)"
  by (simp_all add: PubVerify_def sample_env_def index_slice_def pub_Verify_def ToECDSA_def)

lemma sample_MakeVote [simp]:
  "MakeVote (sample_env 4 verdict) view ''1'' i = retG \<lparr>vView = view, vVoter = ''1'', vBlockID = i, vSig = [''1'', ''1'']\<rparr>"
  by (simp add: MakeVote_def PrivSign_def sample_env_def index_slice_def priv_Sign_def)

section \<open>A chain of blocks\<close>

text \<open>
  Block \<open>k\<close> has view \<open>k\<close>, identifier \<open>10 + k\<close> and the certificate at address \<open>k\<close>, which
  certifies block \<open>k - 1\<close> in its view.
\<close>

definition link :: "nat \<Rightarrow> Block" where
  "link k = empty_block\<lparr>bView := int k, bQC := Some k, bID := of_nat (10 + k), bPrevID := of_nat (9 + k)\<rparr>"

definition links_heap :: qcheap where
  "links_heap = (\<lambda>r. zero_qc\<lparr>qcView := (if r < 10 then int r - 1 else 0), qcBlockID := of_nat (9 + r)\<rparr>)"

definition grow :: "LevelledForest \<Rightarrow> Block \<Rightarrow> LevelledForest" where
  "grow f b = (case AddVertex links_heap f b of Some (Ret f') \<Rightarrow> f' | _ \<Rightarrow> f)"

definition links1 :: LevelledForest where "links1 = grow NewLevelledForest (link 1)"
definition links2 :: LevelledForest where "links2 = grow links1 (link 2)"
definition links3 :: LevelledForest where "links3 = grow links2 (link 3)"

lemma grow_eq: "AddVertex links_heap f (link k) = retG (grow f (link k))"
proof -
  obtain f' where "AddVertex links_heap f (link k) = retG f'"
    using AddVertex_returns [of "link k" k] by (fastforce simp: link_def)
  then show ?thesis by (simp add: grow_def)
qed

lemmas link_defs = link_def links_heap_def zero_qc_def empty_block_def Level_def VertexID_def
lemmas grow_eval = grow_def AddVertex_def registerWithParent_def getOrCreateVertexContainer_def Let_def
  isEmptyContainer_def empty_container_def set_container_def Parent_def

lemma vertices_links:
  "vertices links1 = [11 \<mapsto> 0, 10 \<mapsto> 1]" "vertices links2 = [11 \<mapsto> 0, 10 \<mapsto> 1, 12 \<mapsto> 2]"
  by (simp_all add: links1_def links2_def NewLevelledForest_def grow_eval link_defs at_level_def numeral_2_eq_2)

lemma links_inv: "forest_inv links1" "forest_inv links2" "forest_inv links3"
proof -
  show 1: "forest_inv links1"
    unfolding links1_def by (rule forest_store.insert_wf [OF forest_inv_New grow_eq])
  show 2: "forest_inv links2"
    unfolding links2_def by (rule forest_store.insert_wf [OF 1 grow_eq])
  show "forest_inv links3"
    unfolding links3_def by (rule forest_store.insert_wf [OF 2 grow_eq])
qed

lemma links_lowest [simp]: "LowestLevel links1 = 0" "LowestLevel links2 = 0" "LowestLevel links3 = 0"
  using forest_store.insert_lowest [OF forest_inv_New grow_eq, of 1, folded links1_def]
    forest_store.insert_lowest [OF links_inv(1) grow_eq, of 2, folded links2_def]
    forest_store.insert_lowest [OF links_inv(2) grow_eq, of 3, folded links3_def] by simp_all

lemma links_lookup:
  "GetVertex links1 i = (if i = 11 then Some (link 1) else None)"
  "GetVertex links2 i = (if i = 11 then Some (link 1) else if i = 12 then Some (link 2) else None)"
  "GetVertex links3 i = (if i = 11 then Some (link 1) else if i = 12 then Some (link 2)
     else if i = 13 then Some (link 3) else None)"
proof -
  show 1: "GetVertex links1 i = (if i = 11 then Some (link 1) else None)" for i
    using forest_store.insert_lookup [OF forest_inv_New grow_eq, of 1 i, folded links1_def]
    by (simp add: link_def)
  show 2: "GetVertex links2 i = (if i = 11 then Some (link 1) else if i = 12 then Some (link 2) else None)" for i
    using forest_store.insert_lookup [OF links_inv(1) grow_eq, of 2 i, folded links2_def]
    by (simp add: 1 link_def)
  show "GetVertex links3 i = (if i = 11 then Some (link 1) else if i = 12 then Some (link 2)
     else if i = 13 then Some (link 3) else None)"
    using forest_store.insert_lookup [OF links_inv(2) grow_eq, of 3 i, folded links3_def]
    by (simp add: 2 link_def)
qed

lemma links_in_order:
  "in_order links_heap NewLevelledForest (link 1)" "in_order links_heap links1 (link 2)"
  "in_order links_heap links2 (link 3)"
  by (simp_all add: in_order_def VerifyVertex_def isEquivalentToStoredVertex_def verifyParent_def Parent_def
      HasVertex_iff links_lookup vertices_links link_defs NewLevelledForest_def [THEN arg_cong, of vertices])

lemma links_run: "forest_run links3"
proof -
  have "forest_run links1"
    unfolding links1_def by (rule run_add [OF run_new links_in_order(1) grow_eq])
  then have "forest_run links2"
    unfolding links2_def by (rule run_add [OF _ links_in_order(2) grow_eq])
  then show ?thesis
    unfolding links3_def by (rule run_add [OF _ links_in_order(3) grow_eq])
qed

text \<open>A chained replica, node 1 of 4 with node \<open>leader\<close> as the static leader, that has stored the chain.\<close>

definition links_state :: "NodeID \<Rightarrow> chained" where
  "links_state leader =
     \<lparr>rID = ''1'', rByz = False, rElect = StaticE (NewStatic leader), rPm = NewPacemaker 4,
      lastVotedView = 0, preferredView = 0, highQC = 0, rBc = (NewBlockchain 4)\<lparr>forrest := links3\<rparr>,
      committedBlocks = [], forkedBlocks = [], bufferedQCs = Map.empty, bufferedBlocks = Map.empty,
      rQCs = links_heap, rNextQC = 5, rOutbox = []\<rparr>"

lemma links_state_wf: "chained_wf (links_state leader)"
  by (auto simp: chained_wf_def links_state_def bc_ok_def links_inv NewBlockchain_def cur_def GetCurView_def
      NewPacemaker_def links_heap_def zero_qc_def small_view_def is_i64_def)

lemma link_simps [simp]:
  "bView (link k) = int k" "bQC (link k) = Some k" "bID (link k) = of_nat (10 + k)" "bPrevID (link k) = of_nat (9 + k)"
  "Level (link (Suc 0)) = 1" "Level (link 1) = 1" "Level (link 2) = 2" "Level (link 3) = 3"
  by (simp_all add: link_def Level_def)

lemma links_heap_simps [simp]:
  "qcView (links_heap 4) = 3" "qcBlockID (links_heap 4) = 13" "qcView (links_heap 3) = 2" "qcBlockID (links_heap 3) = 12"
  "qcSigners (links_heap r) = []" "qcLeader (links_heap r) = []" "qcAggSig (links_heap r) = []"
  by (simp_all add: links_heap_def zero_qc_def)

lemma links_state_simps [simp]:
  "rID (links_state l) = ''1''" "rByz (links_state l) = False" "rElect (links_state l) = StaticE (NewStatic l)"
  "forrest (rBc (links_state l)) = links3" "quorum (rBc (links_state l)) = NewQuorum 4"
  "committedBlocks (links_state l) = []" "rOutbox (links_state l) = []"
  "preferredView (links_state l) = 0" "lastVotedView (links_state l) = 0" "highQC (links_state l) = 0"
  "cur (links_state l) = 0" "qc_at (links_state l) = links_heap" "rQCs (links_state l) = links_heap"
  "rNextQC (links_state l) = 5" "bufferedQCs (links_state l) = Map.empty" "bufferedBlocks (links_state l) = Map.empty"
  by (simp_all add: links_state_def cur_def GetCurView_def NewPacemaker_def NewBlockchain_def qc_at_def fun_eq_iff)

lemma links_verified [simp]: "qc_verified e (links_state l) r"
  by (simp add: qc_verified_def VerifyQuorumSignature_def)

end
