(* ===== verification/HotStuff_Props.thy ===== *)
theory HotStuff_Props
  imports HotStuff Samples
begin

text \<open>
  What the HotStuff handlers guarantee: when blocks are committed and voted for, what an event
  can change, and which checks the code leaves out.
\<close>

lemma hs_updatePreferredView_frame:
  "hs_updatePreferredView s r = retG (s1, err) \<Longrightarrow> \<exists>v \<ge> preferredView s. s1 = s\<lparr>preferredView := v\<rparr>"
proof -
  have id: "\<exists>v \<ge> preferredView s. s = s\<lparr>preferredView := v\<rparr>" by (intro exI [of _ "preferredView s"]) simp
  assume "hs_updatePreferredView s r = retG (s1, err)"
  then show ?thesis
    by (auto simp: hs_updatePreferredView_def id elim!: bindG_RetE split: if_split_asm sum.split_asm)
      (auto intro: less_imp_le)
qed

lemma hs_commitRule_Some:
  assumes "forest_inv (forrest (rBc s))" and "hs_commitRule s r = retG (Inr (Some g))"
  shows "\<exists>c p. GetVertex (forrest (rBc s)) (qcBlockID (qc_at s r)) = Some c \<and>
     GetVertex (forrest (rBc s)) (bPrevID c) = Some p \<and> GetVertex (forrest (rBc s)) (bPrevID p) = Some g \<and>
     i64 (bView g + 1) = bView p \<and> i64 (bView p + 1) = qcView (qc_at s r)"
proof -
  obtain p where p: "GetParentBlock (rQCs s) (rBc s) (qcBlockID (qc_at s r)) = retG (Inr p)"
      and g: "GetParentBlock (rQCs s) (rBc s) (bID p) = retG (Inr g)"
      and views: "i64 (bView g + 1) = bView p" "i64 (bView p + 1) = qcView (qc_at s r)"
    using assms(2) by (auto simp: hs_commitRule_def elim!: bindG_RetE split: sum.split_asm if_split_asm)
  from p obtain c where c: "GetVertex (forrest (rBc s)) (qcBlockID (qc_at s r)) = Some c"
      "GetVertex (forrest (rBc s)) (bPrevID c) = Some p" by (auto simp: GetParentBlock_Inr)
  have "bID p = bPrevID c"
    using assms(1) c(2) by (rule GetVertex_ID)
  with g c(2) have "GetVertex (forrest (rBc s)) (bPrevID p) = Some g" by (auto simp: GetParentBlock_Inr)
  with c views show ?thesis by blast
qed

lemma hs_commit_Ret:
  assumes "forest_inv (forrest (rBc s))" and "hs_commit s r = retG s'" and "committedBlocks s' \<noteq> committedBlocks s"
  shows "\<exists>c p g cs. GetVertex (forrest (rBc s)) (qcBlockID (qc_at s r)) = Some c \<and>
     GetVertex (forrest (rBc s)) (bPrevID c) = Some p \<and> GetVertex (forrest (rBc s)) (bPrevID p) = Some g \<and>
     i64 (bView g + 1) = bView p \<and> i64 (bView p + 1) = qcView (qc_at s r) \<and>
     committedBlocks s' = committedBlocks s @ cs \<and>
     commit_chain (GetVertex (forrest (rBc s))) (LowestLevel (forrest (rBc s))) g cs"
proof -
  obtain g err where rule: "hs_commitRule s r = retG (Inr (Some g))" and cm: "do_commit s g = retG (s', err)"
    using assms(2,3) by (auto simp: hs_commit_def elim!: bindG_RetE split: sum.split_asm option.split_asm)
  from hs_commitRule_Some [OF assms(1) rule] obtain c p where cp:
      "GetVertex (forrest (rBc s)) (qcBlockID (qc_at s r)) = Some c"
      "GetVertex (forrest (rBc s)) (bPrevID c) = Some p" "GetVertex (forrest (rBc s)) (bPrevID p) = Some g"
      "i64 (bView g + 1) = bView p" "i64 (bView p + 1) = qcView (qc_at s r)" by blast
  have "GetVertex (forrest (rBc s)) (bID g) = Some g"
    using cp(3) GetVertex_ID [OF assms(1) cp(3)] by simp
  with do_commit_Ret [OF cm assms(3)] cp show ?thesis by auto
qed

lemma hs_processCertificate_cases:
  assumes "hs_processCertificate e s (Some r) = retG s'"
  shows "s' = s \<or> s' = advance s (qcView (qc_at s r)) \<or>
    cur s \<le> qcView (qc_at s r) \<and> hs_certified s r = retG s' \<and> qc_verified e s r"
  using assms unfolding hs_processCertificate_def Let_def option.case qc_verified_def
  by (cases "qcView (qc_at s r) < cur s"; cases "qcLeader (qc_at s r) = rID s"; cases "rByz s \<and> Strategy (cfg e) = FORK")
    (auto elim!: bindG_RetE split: if_split_asm simp: not_less)

lemma hs_certified_cases:
  assumes "hs_certified s r = retG s'" and "committedBlocks s' \<noteq> committedBlocks s"
  obtains v where "3 \<le> qcView (qc_at s r)"
    and "hs_commit (hs_updateHighQC (advance (s\<lparr>preferredView := v\<rparr>) (qcView (qc_at s r))) r) r = retG s'"
proof -
  from assms(1) obtain s1 err where up: "hs_updatePreferredView s r = retG (s1, err)"
    and k: "(if err \<noteq> None
       then retG (s1\<lparr>bufferedQCs := (bufferedQCs s1)(qcBlockID (qc_at s1 r) \<mapsto> r)\<rparr>)
       else let s2 = hs_updateHighQC (advance s1 (qcView (qc_at s1 r))) r
         in if qcView (qc_at s2 r) < 3 then retG s2 else hs_commit s2 r) = retG s'"
    unfolding hs_certified_def by (auto elim!: bindG_RetE)
  from hs_updatePreferredView_frame [OF up] obtain v where s1: "s1 = s\<lparr>preferredView := v\<rparr>" by blast
  have [simp]: "qc_at (hs_updateHighQC t a) = qc_at t" "committedBlocks (hs_updateHighQC t a) = committedBlocks t"
      "qc_at (advance t w) = qc_at t" "committedBlocks (advance t w) = committedBlocks t" for t a w
    by (simp_all add: hs_updateHighQC_def advance_def)
  from k assms(2) show ?thesis
    by (intro that [of v]) (auto simp: s1 Let_def split: if_splits)
qed

lemma hs_three_chain:
  assumes "forest_run (forrest (rBc s))" and "\<not> rByz s" and "qc_verified e s r"
    and "cur s \<le> qcView (qc_at s r)" and "3 \<le> qcView (qc_at s r)"
    and "GetVertex (forrest (rBc s)) (qcBlockID (qc_at s r)) = Some c"
    and "GetVertex (forrest (rBc s)) (bPrevID c) = Some p" and "GetVertex (forrest (rBc s)) (bPrevID p) = Some g"
    and "i64 (bView g + 1) = bView p" and "i64 (bView p + 1) = qcView (qc_at s r)"
    and "LowestLevel (forrest (rBc s)) \<le> Level g"
  shows "\<exists>s' cs. hs_processCertificate e s (Some r) = retG s' \<and>
     commit_chain (GetVertex (forrest (rBc s))) (LowestLevel (forrest (rBc s))) g cs \<and>
     committedBlocks s' = committedBlocks s @ cs \<and> cur s' = i64 (qcView (qc_at s r) + 1) \<and>
     preferredView s' = max (preferredView s) (bView p) \<and> LowestLevel (forrest (rBc s')) = Level g"
proof -
  let ?v = "max (preferredView s) (bView p)"
  let ?s2 = "hs_updateHighQC (advance (s\<lparr>preferredView := ?v\<rparr>) (qcView (qc_at s r))) r"
  have f: "rBc ?s2 = rBc s" "rQCs ?s2 = rQCs s" "qc_at ?s2 = qc_at s" "committedBlocks ?s2 = committedBlocks s"
    "preferredView ?s2 = ?v" "cur ?s2 = i64 (qcView (qc_at s r) + 1)"
    using assms(4) by (simp_all add: hs_updateHighQC_def advance_def cur_def GetCurView_def AdvanceView_def)
  note par = GetParentBlock_run [OF assms(1,6,7)] GetParentBlock_run [OF assms(1) _ assms(8)]
  have pid: "GetVertex (forrest (rBc s)) (bID p) = Some p"
    using assms(7) stored_own_ID [OF assms(1,7)] by simp
  have "hs_updatePreferredView s r = retG (s\<lparr>preferredView := ?v\<rparr>, None)"
    using assms(5,6) par(1) by (auto simp: hs_updatePreferredView_def GetBlockByID_def max_def)
  moreover have rule: "hs_commitRule ?s2 r = retG (Inr (Some g))"
    using par(1) par(2) [OF pid] assms(9,10) by (simp add: hs_commitRule_def f)
  moreover obtain err where "(if qcLeader (qc_at s r) \<noteq> rID s
      then VerifyQuorumSignature e (qcAggSig (qc_at s r)) (qcBlockID (qc_at s r)) (qcSigners (qc_at s r))
      else retG (True, None)) = retG (True, err)" using assms(3) by (rule qc_verified_check)
  ultimately have pc: "hs_processCertificate e s (Some r) = bindG (do_commit ?s2 g) (\<lambda>(s', _). retG s')"
    using assms(2,4,5) unfolding hs_processCertificate_def hs_certified_def hs_commit_def Let_def option.case
    by (simp add: f)
  show ?thesis
  proof (rule do_commit_run [of ?s2 "bPrevID p" g, unfolded f, OF assms(1,8,11)])
    fix bc' cs fs assume d: "do_commit ?s2 g = retG (?s2\<lparr>rBc := bc', committedBlocks := committedBlocks s @ cs,
        forkedBlocks := forkedBlocks ?s2 @ fs\<rparr>, None)"
      "commit_chain (GetVertex (forrest (rBc s))) (LowestLevel (forrest (rBc s))) g cs"
      "forrest bc' = pruned (forrest (rBc s)) (Level g)"
    then show ?thesis by (auto simp: pc f pruned_def)
  qed
qed

section \<open>Commits\<close>

text \<open>
  C3: processing a certificate commits blocks only on a three-chain: the certified block, its
  parent and its grandparent are stored, the grandparent's and the parent's views are
  consecutive and so are the parent's and the certificate's, the certificate is not behind and
  its signatures were accepted; the blocks committed are exactly the stored ancestors of the
  grandparent above the last committed level.
\<close>
theorem hs_commits_three_chain:
  assumes "chained_wf s" and "hs_processCertificate e s (Some r) = retG s'"
    and "committedBlocks s' \<noteq> committedBlocks s"
  shows "\<exists>c p g cs. GetVertex (forrest (rBc s)) (qcBlockID (qc_at s r)) = Some c \<and>
     GetVertex (forrest (rBc s)) (bPrevID c) = Some p \<and> GetVertex (forrest (rBc s)) (bPrevID p) = Some g \<and>
     i64 (bView g + 1) = bView p \<and> i64 (bView p + 1) = qcView (qc_at s r) \<and>
     3 \<le> qcView (qc_at s r) \<and> cur s \<le> qcView (qc_at s r) \<and> qc_verified e s r \<and>
     committedBlocks s' = committedBlocks s @ cs \<and>
     commit_chain (GetVertex (forrest (rBc s))) (LowestLevel (forrest (rBc s))) g cs"
proof -
  from hs_processCertificate_cases [OF assms(2)] assms(3) have
    c: "cur s \<le> qcView (qc_at s r)" "hs_certified s r = retG s'" "qc_verified e s r"
    by (auto simp: advance_def)
  from c(2) assms(3) show ?thesis
  proof (rule hs_certified_cases)
    fix v let ?s2 = "hs_updateHighQC (advance (s\<lparr>preferredView := v\<rparr>) (qcView (qc_at s r))) r"
    assume v: "3 \<le> qcView (qc_at s r)" "hs_commit ?s2 r = retG s'"
    have f: "rBc ?s2 = rBc s" "qc_at ?s2 = qc_at s" "committedBlocks ?s2 = committedBlocks s"
      by (simp_all add: hs_updateHighQC_def advance_def)
    have "forest_inv (forrest (rBc ?s2))" using assms(1) by (simp add: f chained_wf_def bc_ok_def)
    from hs_commit_Ret [OF this v(2)] assms(3) c v(1) show ?thesis by (simp add: f)
  qed
qed

lemma links_three_chain:
  "\<exists>s'. hs_processCertificate (sample_env 4 True) (links_state ''2'') (Some 4) = retG s' \<and>
     committedBlocks s' = [link 1] \<and> cur s' = 4"
proof -
  obtain s' cs where s': "hs_processCertificate (sample_env 4 True) (links_state ''2'') (Some 4) = retG s'"
      "commit_chain (GetVertex links3) 0 (link 1) cs" "committedBlocks s' = cs" "cur s' = 4"
    using hs_three_chain [of "links_state ''2''" "sample_env 4 True" 4 "link 3" "link 2" "link 1"]
    by (auto simp: links_run links_lookup)
  moreover have "commit_chain (GetVertex links3) 0 (link 1) [link 1]"
    by (simp add: links_lookup)
  ultimately show ?thesis using commit_chain_unique by blast
qed

theorem hs_commits_three_chain_witness:
  "\<exists>s'. hs_processCertificate (sample_env 4 True) (links_state ''2'') (Some 4) = retG s' \<and>
     committedBlocks s' = [link 1] \<and> cur (links_state ''2'') \<le> qcView (qc_at (links_state ''2'') 4)"
proof -
  obtain s' where s': "hs_processCertificate (sample_env 4 True) (links_state ''2'') (Some 4) = retG s'"
      "committedBlocks s' = [link 1]" using links_three_chain by blast
  have "committedBlocks s' \<noteq> committedBlocks (links_state ''2'')" by (simp add: s'(2))
  from hs_commits_three_chain [OF links_state_wf s'(1) this] s' show ?thesis by blast
qed

text \<open>
  C4: conversely, a well-behaved replica that processes an accepted certificate at or above its
  view, for a block whose parent and grandparent are stored with consecutive views, returns,
  commits the grandparent with its stored ancestors, locks on the parent's view, moves to the view
  after the certificate and prunes up to the grandparent.
\<close>
theorem hs_three_chain_commits:
  assumes "forest_run (forrest (rBc s))" and "\<not> rByz s" and "qc_verified e s r"
    and "cur s \<le> qcView (qc_at s r)" and "3 \<le> qcView (qc_at s r)"
    and "GetVertex (forrest (rBc s)) (qcBlockID (qc_at s r)) = Some c"
    and "GetVertex (forrest (rBc s)) (bPrevID c) = Some p" and "GetVertex (forrest (rBc s)) (bPrevID p) = Some g"
    and "i64 (bView g + 1) = bView p" and "i64 (bView p + 1) = qcView (qc_at s r)"
    and "LowestLevel (forrest (rBc s)) \<le> Level g"
  shows "\<exists>s' cs. hs_processCertificate e s (Some r) = retG s' \<and>
     commit_chain (GetVertex (forrest (rBc s))) (LowestLevel (forrest (rBc s))) g cs \<and>
     committedBlocks s' = committedBlocks s @ cs \<and> cur s' = i64 (qcView (qc_at s r) + 1) \<and>
     preferredView s' = max (preferredView s) (bView p) \<and> LowestLevel (forrest (rBc s')) = Level g"
  using assms by (rule hs_three_chain)

theorem hs_three_chain_commits_witness:
  "\<exists>s' cs. hs_processCertificate (sample_env 4 True) (links_state ''2'') (Some 4) = retG s' \<and>
     committedBlocks s' = cs \<and> cur s' = 4 \<and> preferredView s' = 2"
  using hs_three_chain_commits [of "links_state ''2''" "sample_env 4 True" 4 "link 3" "link 2" "link 1"]
  by (auto simp: links_run links_lookup)

section \<open>Runs\<close>

text \<open>
  Over any sequence of blocks, votes and timeouts that returns, the replica's view, its lock
  and the view of its highest certificate never go back, the sequence of committed blocks is only
  extended, and the last voted view never changes: the code has an update for it that no handler
  calls.
\<close>
theorem hs_run_monotone:
  assumes "chained_wf s" and "list_all (chained_admissible s) evs" and "run_events (hs_handle e) s evs = retG s'"
  shows "chained_wf s' \<and> cur s \<le> cur s' \<and> preferredView s \<le> preferredView s' \<and>
     qcView (qc_at s (highQC s)) \<le> qcView (qc_at s' (highQC s')) \<and>
     prefix (committedBlocks s) (committedBlocks s') \<and> lastVotedView s' = lastVotedView s"
  using hotstuff.run_ok [OF assms] by (simp add: chained_forward_def step_ok_def extends_def)

theorem hs_run_monotone_witness:
  "\<exists>s'. run_events (hs_handle (sample_env 4 True)) (links_state ''2'') [OnVote (sample_vote ''1'' 7)] = retG s' \<and>
     chained_wf s' \<and> lastVotedView s' = 0"
proof -
  have "\<exists>s'. run_events (hs_handle (sample_env 4 True)) (links_state ''2'') [OnVote (sample_vote ''1'' 7)] = retG s'"
    by (simp add: hs_ProcessVote_def sample_vote_def AddVote_def Quorum_Add_def
        NewQuorum_def superMajority_def q_size_def votes_of_def Let_def)
  then obtain s' where s':
    "run_events (hs_handle (sample_env 4 True)) (links_state ''2'') [OnVote (sample_vote ''1'' 7)] = retG s'" by blast
  have "list_all (chained_admissible (links_state ''2'')) [OnVote (sample_vote ''1'' 7)]"
    by (simp add: sample_vote_def small_view_def is_i64_def)
  from hs_run_monotone [OF links_state_wf this s'] s' show ?thesis by auto
qed

section \<open>Votes\<close>

lemma hs_votingRule_True:
  assumes "hs_votingRule s b = retG (Inr True)" and "2 < bView b"
  shows "\<exists>p. GetParentBlock (rQCs s) (rBc s) (bID b) = retG (Inr p) \<and>
     preferredView s \<le> bView p \<and> lastVotedView s < bView b"
  using assms by (auto simp: hs_votingRule_def elim!: bindG_RetE split: if_split_asm sum.split_asm)

lemma hs_insert_and_vote_None:
  assumes "chained_wf s" and "hs_insert_and_vote e s b = retG (s', None)"
  shows "\<exists>s1. step_ok s s1 \<and> hs_votingRule s1 b = retG (Inr True) \<and> hs_vote e s1 b = retG s'"
proof -
  obtain bc' s1 where bc: "AddBlock (rQCs s) (rBc s) b = retG bc'"
      and q: "hs_take_bufferedQC e (s\<lparr>rBc := bc'\<rparr>) (bID b) = retG s1"
      and v: "hs_votingRule s1 b = retG (Inr True)" "hs_vote e s1 b = retG s'"
    using assms(2) by (auto simp: hs_insert_and_vote_def elim!: bindG_RetE split: sum.split_asm if_split_asm)
  have "step_ok s (s\<lparr>rBc := bc'\<rparr>)"
    using bc_update_ok [OF assms(1) go_allD [OF AddBlock_ok [OF chained_wf_bc [OF assms(1)]] bc]] .
  with go_allD [OF hs_take_bufferedQC_ok [OF step_ok_wf] q] step_ok_trans v show ?thesis by blast
qed

lemma hs_process_one_None:
  assumes "chained_wf s" and "block_ok s b" and "hs_process_one e s b = retG (s', None)"
  shows "\<exists>s1 qc. step_ok s s1 \<and> bQC b = Some qc \<and> bView b \<le> i64 (cur s + 1) \<and> cur s1 \<le> bView b \<and>
     IsLeader (rElect s) (bProposer b) (bView b) = retG True \<and> hs_insert_and_vote e s1 b = retG (s', None)"
proof -
  have one: "(if bView b > i64 (cur s + 1)
       then retG (s\<lparr>bufferedBlocks := (bufferedBlocks s)(i64 (bView b - 1) \<mapsto> b)\<rparr>, Some None)
       else case bQC b of
         None \<Rightarrow> retG (s, Some (Some BlockWithoutQC))
       | Some qc \<Rightarrow>
           bindG (if bProposer b \<noteq> rID (hs_updateHighQC s qc)
             then hs_processCertificate e (hs_updateHighQC s qc) (Some qc) else retG (hs_updateHighQC s qc)) (\<lambda>s2.
             if bView b < cur s2 then retG (s2, Some None)
             else
               bindG (IsLeader (rElect s2) (bProposer b) (bView b)) (\<lambda>leader.
                 if \<not> leader then retG (s2, Some (Some (InvalidLeader (bView b) (bProposer b))))
                 else hs_insert_and_vote e s2 b))) = retG (s', None)"
    using assms(3) unfolding hs_process_one_def Let_def by (rule bindG_RetE)
  then obtain qc where qc: "bView b \<le> i64 (cur s + 1)" "bQC b = Some qc"
    by (cases "bQC b") (auto split: if_split_asm)
  from one qc obtain s1 where s1:
      "(if bProposer b \<noteq> rID (hs_updateHighQC s qc)
        then hs_processCertificate e (hs_updateHighQC s qc) (Some qc) else retG (hs_updateHighQC s qc)) = retG s1"
      "cur s1 \<le> bView b" "IsLeader (rElect s1) (bProposer b) (bView b) = retG True"
      "hs_insert_and_vote e s1 b = retG (s', None)"
    by (auto elim!: bindG_RetE split: if_split_asm)
  have "step_ok s s1" using go_allD [OF hs_block_cert_ok [OF assms(1,2) qc(2) refl] s1(1)] .
  with s1 qc step_ok_fields show ?thesis by metis
qed

text \<open>The first view: a block of the leader with an unsigned certificate of view 0 gets a vote.\<close>

definition first_view :: "chained \<Rightarrow> NodeID \<Rightarrow> bool" where
  "first_view s l \<longleftrightarrow> \<not> rByz s \<and> rElect s = StaticE (NewStatic l) \<and> rID s \<noteq> l \<and> (cur s = 0 \<or> cur s = 1) \<and>
     qcView (qc_at s (highQC s)) = 0 \<and> bufferedQCs s = Map.empty \<and> bufferedBlocks s = Map.empty"

lemma hs_first_view_certificate:
  assumes "first_view s l" and "qcView (qc_at s r) = 0" and "qcSigners (qc_at s r) = []"
  shows "hs_processCertificate e s (Some r) = retG (if cur s = 0 then advance s 0 else s)"
  using assms
  by (auto simp: first_view_def hs_processCertificate_def VerifyQuorumSignature_def hs_certified_def
      hs_updatePreferredView_def hs_updateHighQC_def advance_def Let_def)

lemma hs_first_view_vote:
  assumes fv: "first_view s l" and b: "bView b = 1" "bProposer b = l" "bQC b = Some r"
    and q: "qcView (qc_at s r) = 0" "qcSigners (qc_at s r) = []"
    and pv: "PubVerify e (bSig b) (IDToByte (bID b)) l = retG x" and mv: "MakeVote e 1 (rID s) (bID b) = retG v"
  shows "\<exists>s'. hs_process_one e s b = retG (s', None) \<and> hs_ProcessBlock e s b = retG (s', None) \<and>
     rOutbox s' = rOutbox s @ [SendTo l (VoteMsg v)] \<and> first_view s' l \<and> rID s' = rID s \<and> rQCs s' = rQCs s"
proof -
  let ?s2 = "if cur s = 0 then advance s 0 else s"
  obtain f where f: "AddVertex (rQCs s) (forrest (rBc s)) b = retG f"
    using AddVertex_returns [OF b(3)] by blast
  let ?s3 = "?s2\<lparr>rBc := (rBc s)\<lparr>forrest := f\<rparr>\<rparr>"
  have [simp]: "rQCs ?s2 = rQCs s" "rBc ?s2 = rBc s" "rElect ?s2 = rElect s" "bufferedQCs ?s2 = bufferedQCs s"
      "rID ?s2 = rID s" "cur ?s2 = 1"
    using fv by (auto simp: advance_def first_view_def cur_def GetCurView_def AdvanceView_def)
  have up: "hs_updateHighQC s r = s" using fv q by (simp add: hs_updateHighQC_def first_view_def)
  have iv: "hs_insert_and_vote e ?s2 b = retG (send ?s3 (SendTo l (VoteMsg v)), None)"
    using fv b mv f by (auto simp: hs_insert_and_vote_def AddBlock_def hs_take_bufferedQC_def hs_votingRule_def
        hs_vote_def first_view_def Static_FindLeaderFor_def NewStatic_def)
  have one: "hs_process_one e s b = retG (send ?s3 (SendTo l (VoteMsg v)), None)"
    using fv b pv hs_first_view_certificate [OF fv q, of e] iv
    by (auto simp: hs_process_one_def up first_view_def Static_IsLeader_def NewStatic_def)
  have "first_view (send ?s3 (SendTo l (VoteMsg v))) l"
    using fv by (auto simp: first_view_def send_def advance_def cur_def GetCurView_def AdvanceView_def qc_at_def)
  moreover have "bufferedBlocks (send ?s3 (SendTo l (VoteMsg v))) = Map.empty"
    using fv by (simp add: first_view_def send_def advance_def)
  ultimately show ?thesis
    using one by (subst hs_ProcessBlock.simps) (simp add: send_def advance_def)
qed

text \<open>
  C7: a replica votes for a block only when the block is at most one view ahead, its proposer
  is the leader of its view, and, beyond the second view, its parent is stored and not older than
  the view the replica is locked on. The vote is signed under the replica's own name for the
  block's view and identifier and goes to the leader of the next view.
\<close>
theorem hs_votes_safely:
  assumes "chained_wf s" and "block_ok s b" and "hs_process_one e s b = retG (s', None)"
  shows "bView b \<le> i64 (cur s + 1) \<and> IsLeader (rElect s) (bProposer b) (bView b) = retG True \<and>
     (\<exists>s1 vote agg. step_ok s s1 \<and> cur s \<le> bView b \<and>
        (2 < bView b \<longrightarrow> (\<exists>p. GetParentBlock (rQCs s1) (rBc s1) (bID b) = retG (Inr p) \<and> preferredView s1 \<le> bView p)) \<and>
        MakeVote e (bView b) (rID s) (bID b) = retG vote \<and>
        FindLeaderFor (rElect s) (i64 (bView b + 1)) = retG agg \<and>
        (if agg = rID s then hs_ProcessVote e s1 vote = retG s' else s' = send s1 (SendTo agg (VoteMsg vote))))"
proof -
  from hs_process_one_None [OF assms] obtain s1 where s1: "step_ok s s1" "bView b \<le> i64 (cur s + 1)"
      "cur s1 \<le> bView b" "IsLeader (rElect s) (bProposer b) (bView b) = retG True"
      "hs_insert_and_vote e s1 b = retG (s', None)" by blast
  from hs_insert_and_vote_None [OF step_ok_wf [OF s1(1)] s1(5)] obtain s2 where
      s2: "step_ok s1 s2" "hs_votingRule s2 b = retG (Inr True)" "hs_vote e s2 b = retG s'" by blast
  have s: "step_ok s s2" using s1(1) s2(1) by (rule step_ok_trans)
  have "cur s \<le> bView b" using s1(1,3) by (simp add: step_ok_def extends_def)
  moreover obtain vote agg where "MakeVote e (bView b) (rID s) (bID b) = retG vote"
      "FindLeaderFor (rElect s) (i64 (bView b + 1)) = retG agg"
      "if agg = rID s then hs_ProcessVote e s2 vote = retG s' else s' = send s2 (SendTo agg (VoteMsg vote))"
    using s2(3) step_ok_fields [OF s] by (force simp: hs_vote_def elim!: bindG_RetE split: if_split_asm)
  ultimately show ?thesis
    using s s1(2,4) hs_votingRule_True [OF s2(2)] by blast
qed

definition first_block :: "Identifier \<Rightarrow> Block" where
  "first_block i = empty_block\<lparr>bView := 1, bQC := Some 0, bProposer := ''2'', bID := i, bSig := [''1'', ''1'']\<rparr>"

definition first_state :: HotStuff where
  "first_state = NewHotStuff (sample_env 4 True) ''1'' False (NewPacemaker 4) (StaticE (NewStatic ''2''))"

lemma first_state_view: "first_view first_state ''2''" "rID first_state = ''1''" "rOutbox first_state = []"
    "qc_at first_state 0 = zero_qc"
  by (simp_all add: first_view_def first_state_def NewHotStuff_def qc_at_def zero_qc_def cur_def GetCurView_def NewPacemaker_def)

lemma first_block_ok: "chained_wf first_state" "block_ok first_state (first_block i)"
  using NewHotStuff_wf by (simp_all add: first_state_def first_block_def block_ok_def small_view_def is_i64_def NewHotStuff_def)

lemma first_block_simps [simp]:
  "bView (first_block i) = 1" "bQC (first_block i) = Some 0" "bProposer (first_block i) = ''2''"
  "bID (first_block i) = i" "bSig (first_block i) = [''1'', ''1'']"
  by (simp_all add: first_block_def)

lemma first_block_voted: "\<exists>s'. hs_process_one (sample_env 4 True) first_state (first_block i) = retG (s', None)"
  using hs_first_view_vote [OF first_state_view(1), of "first_block i" 0 "sample_env 4 True" "(True, None)"]
  by (auto simp: first_state_view zero_qc_def)

theorem hs_votes_safely_witness:
  "\<exists>s' vote. hs_process_one (sample_env 4 True) first_state (first_block 7) = retG (s', None) \<and>
     MakeVote (sample_env 4 True) 1 ''1'' 7 = retG vote"
proof -
  obtain s' where "hs_process_one (sample_env 4 True) first_state (first_block 7) = retG (s', None)"
    using first_block_voted by blast
  from hs_votes_safely [OF first_block_ok this] this show ?thesis
    by (auto simp: first_state_view)
qed



section \<open>Checks the code leaves out\<close>

text \<open>
  A block with a rejected certificate from a node that is not even the leader is refused
  with an error, yet the rejected certificate replaces the replica's highest one, because
  \<open>ProcessBlock\<close> records it before it is verified.
\<close>
theorem hs_highQC_unverified:
  assumes "bView b \<le> i64 (cur s + 1)" and "cur s \<le> bView b" and "bQC b = Some r" and "bProposer b \<noteq> rID s"
    and "PubVerify e (bSig b) (IDToByte (bID b)) (bProposer b) = retG x"
    and "qcView (qc_at s (highQC s)) < qcView (qc_at s r)" and "qcLeader (qc_at s r) \<noteq> rID s"
    and "VerifyQuorumSignature e (qcAggSig (qc_at s r)) (qcBlockID (qc_at s r)) (qcSigners (qc_at s r)) = retG (False, err)"
    and "IsLeader (rElect s) (bProposer b) (bView b) = retG False"
  shows "hs_ProcessBlock e s b = retG (s\<lparr>highQC := r\<rparr>, Some (InvalidLeader (bView b) (bProposer b)))"
proof -
  have "hs_processCertificate e (s\<lparr>highQC := r\<rparr>) (Some r) = retG (s\<lparr>highQC := r\<rparr>)"
    using assms(7,8) by (simp add: hs_processCertificate_def Let_def)
  then have "hs_process_one e s b = retG (s\<lparr>highQC := r\<rparr>, Some (Some (InvalidLeader (bView b) (bProposer b))))"
    using assms by (simp add: hs_process_one_def hs_updateHighQC_def)
  then show ?thesis by (subst hs_ProcessBlock.simps) simp
qed

theorem hs_highQC_unverified_witness:
  "\<exists>s e b r err. hs_ProcessBlock e s b = retG (s\<lparr>highQC := r\<rparr>, Some err) \<and>
     VerifyQuorumSignature e (qcAggSig (qc_at s r)) (qcBlockID (qc_at s r)) (qcSigners (qc_at s r)) = retG (False, None) \<and>
     highQC s \<noteq> r"
proof -
  define q where "q = zero_qc\<lparr>qcView := 9, qcSigners := [''3''], qcAggSig := [[''1'', ''1'']]\<rparr>"
  define s where "s = first_state\<lparr>rQCs := (\<lambda>_. zero_qc)(3 := q), rNextQC := 4\<rparr>"
  define b where "b = (first_block 7)\<lparr>bQC := Some 3, bProposer := ''3''\<rparr>"
  have s: "cur s = 0" "rID s = ''1''" "rElect s = StaticE (NewStatic ''2'')" "highQC s = 0" "qc_at s 0 = zero_qc" "qc_at s 3 = q"
    by (simp_all add: s_def first_state_def NewHotStuff_def cur_def GetCurView_def NewPacemaker_def qc_at_def)
  have v: "VerifyQuorumSignature (sample_env 4 False) (qcAggSig q) (qcBlockID q) (qcSigners q) = retG (False, None)"
    by (simp add: q_def VerifyQuorumSignature_def)
  have "hs_ProcessBlock (sample_env 4 False) s b = retG (s\<lparr>highQC := 3\<rparr>, Some (InvalidLeader (bView b) (bProposer b)))"
    by (rule hs_highQC_unverified [where x = "(False, None)" and err = None])
      (use v in \<open>simp_all add: s b_def Static_IsLeader_def NewStatic_def\<close>, simp_all add: q_def zero_qc_def)
  with v s show ?thesis
    by (intro exI [of _ s] exI [of _ "sample_env 4 False"] exI [of _ b] exI [of _ 3]) simp
qed

text \<open>
  A certificate that nobody signed passes verification, and moves a well-behaved replica to
  the view after whatever view it claims, as long as it names a stored block with a stored parent.
\<close>
theorem hs_unsigned_certificate_moves_view:
  assumes "\<not> rByz s" and "qcSigners (qc_at s r) = []" and "cur s \<le> qcView (qc_at s r)" and "2 < qcView (qc_at s r)"
    and "GetVertex (forrest (rBc s)) (qcBlockID (qc_at s r)) = Some c" and "bQC c \<noteq> None"
    and "GetVertex (forrest (rBc s)) (bPrevID c) = Some p" and "bID p = bPrevID c" and "bQC p \<noteq> None"
    and "i64 (bView p + 1) \<noteq> qcView (qc_at s r)"
  shows "\<exists>s'. hs_processCertificate e s (Some r) = retG s' \<and> cur s' = i64 (qcView (qc_at s r) + 1) \<and>
     committedBlocks s' = committedBlocks s"
proof -
  let ?v = "max (preferredView s) (bView p)"
  let ?s2 = "hs_updateHighQC (advance (s\<lparr>preferredView := ?v\<rparr>) (qcView (qc_at s r))) r"
  have f: "rBc ?s2 = rBc s" "rQCs ?s2 = rQCs s" "qc_at ?s2 = qc_at s" "committedBlocks ?s2 = committedBlocks s"
    "cur ?s2 = i64 (qcView (qc_at s r) + 1)"
    using assms(3) by (simp_all add: hs_updateHighQC_def advance_def cur_def GetCurView_def AdvanceView_def)
  have par: "GetParentBlock (rQCs s) (rBc s) (qcBlockID (qc_at s r)) = retG (Inr p)"
    using assms(5-7) by (auto simp: GetParentBlock_Inr)
  have "hs_updatePreferredView s r = retG (s\<lparr>preferredView := ?v\<rparr>, None)"
    using assms(4,5) par by (auto simp: hs_updatePreferredView_def GetBlockByID_def max_def)
  moreover have "hs_commit ?s2 r = retG ?s2"
    using par assms(7-10) by (auto simp: hs_commit_def hs_commitRule_def f GetParentBlock_def Parent_def split: option.splits)
  ultimately have "hs_processCertificate e s (Some r) = retG ?s2"
    using assms(1-4) by (simp add: hs_processCertificate_def hs_certified_def VerifyQuorumSignature_def Let_def f)
  with f show ?thesis by blast
qed

theorem hs_unsigned_certificate_moves_view_witness:
  "\<exists>s s' r e. hs_processCertificate e s (Some r) = retG s' \<and> qcSigners (qc_at s r) = [] \<and> cur s = 0 \<and> cur s' = 1001"
proof -
  define s where "s = (links_state ''2'')\<lparr>rQCs := links_heap(4 := (links_heap 4)\<lparr>qcView := 1000\<rparr>)\<rparr>"
  have s: "\<not> rByz s" "cur s = 0" "forrest (rBc s) = links3" "qc_at s 4 = (links_heap 4)\<lparr>qcView := 1000\<rparr>"
    by (simp_all add: s_def qc_at_def cur_def GetCurView_def links_state_def NewPacemaker_def)
  have "\<exists>s'. hs_processCertificate e s (Some 4) = retG s' \<and> cur s' = i64 (qcView (qc_at s 4) + 1) \<and>
      committedBlocks s' = committedBlocks s"
    for e by (rule hs_unsigned_certificate_moves_view [where c = "link 3" and p = "link 2"])
      (simp_all add: s links_lookup i64_def)
  then obtain s' where "hs_processCertificate (sample_env 4 True) s (Some 4) = retG s'" "cur s' = 1001"
    by (auto simp: s i64_def)
  moreover have "qcSigners (qc_at s 4) = []" by (simp add: s)
  ultimately show ?thesis using s(2) by blast
qed

section \<open>Proposals\<close>

text \<open>
  A well-behaved leader's proposal extends the block of its highest certificate: it carries
  that certificate, names the certified block as its parent, has the requested view, payload and
  the leader as its proposer, and making it changes nothing in the replica.
\<close>
theorem hs_proposal_extends_highQC:
  assumes "hs_MakeProposal e s view payload = retG (s', b)" and "\<not> rByz s"
  shows "s' = s \<and> bQC b = Some (highQC s) \<and> bPrevID b = qcBlockID (qc_at s (highQC s)) \<and> bView b = view \<and>
     bPayload b = payload \<and> bProposer b = rID s"
proof -
  from assms have mb: "MakeBlock e (rQCs s) view (Some (highQC s)) (qcBlockID (qc_at s (highQC s))) payload (rID s) = retG b"
      and s': "s' = s"
    by (auto simp: hs_MakeProposal_def hs_forkChoice_def hs_GetHighQC_def elim!: bindG_RetE)
  from go_allD [OF MakeBlock_fields mb] s' show ?thesis by simp
qed

theorem hs_proposal_extends_highQC_witness:
  "\<exists>b. hs_MakeProposal (sample_env 4 True) first_state 1 [] = retG (first_state, b) \<and> bQC b = Some 0 \<and> bView b = 1"
proof -
  have "\<exists>s' b. hs_MakeProposal (sample_env 4 True) first_state 1 [] = retG (s', b)"
    by (simp add: hs_MakeProposal_def hs_forkChoice_def first_state_def NewHotStuff_def MakeBlock_def makeID_def
        sign_block_def blockID_of_def MakeID_def sample_env_def PrivSign_def index_slice_def priv_Sign_def Let_def)
  then obtain s' b where b: "hs_MakeProposal (sample_env 4 True) first_state 1 [] = retG (s', b)" by blast
  have "\<not> rByz first_state" "highQC first_state = 0" by (simp_all add: first_state_def NewHotStuff_def)
  with hs_proposal_extends_highQC [OF b] b show ?thesis by auto
qed

end
