(* ===== verification/Tchs.thy ===== *)
theory Tchs
  imports Safety
begin

text \<open>
  The two-chain HotStuff replica (tchs/tchs.go). It differs from HotStuff in its lock (the view of
  the certificate), its commit rule (two blocks with consecutive views, checked when a block
  arrives), its timeouts and its choice of a fork.
\<close>

type_synonym Tchs = chained

definition NewTchs :: "env \<Rightarrow> NodeID \<Rightarrow> bool \<Rightarrow> Pacemaker \<Rightarrow> Election \<Rightarrow> Tchs" where
  "NewTchs e nodeID byz pm elec =
     \<lparr>rID = nodeID, rByz = byz, rElect = elec, rPm = pm, lastVotedView = 0, preferredView = 0,
      highQC = 0, rBc = NewBlockchain (config_N (cfg e)), committedBlocks = [], forkedBlocks = [],
      bufferedQCs = Map.empty, bufferedBlocks = Map.empty,
      rQCs = (\<lambda>_. zero_qc), rNextQC = 1, rOutbox = []\<rparr>"

definition th_GetHighQC :: "Tchs \<Rightarrow> qcref" where
  "th_GetHighQC s = highQC s"

definition th_updateHighQC :: "Tchs \<Rightarrow> qcref \<Rightarrow> Tchs" where
  "th_updateHighQC s r =
     (if qcView (qc_at s r) > qcView (qc_at s (highQC s)) then s\<lparr>highQC := r\<rparr> else s)"

definition th_processTC :: "Tchs \<Rightarrow> TC \<Rightarrow> Tchs" where
  "th_processTC s tc = (if tcView tc < cur s then s else advance s (tcView tc))"

definition th_updateLastVotedView :: "Tchs \<Rightarrow> View \<Rightarrow> Tchs \<times> go_error option" where
  "th_updateLastVotedView s targetView =
     (if targetView < lastVotedView s then (s, Some TargetViewTooLow)
      else (s\<lparr>lastVotedView := targetView\<rparr>, None))"

definition th_updatePreferredView :: "Tchs \<Rightarrow> qcref \<Rightarrow> Tchs \<times> go_error option" where
  "th_updatePreferredView s r =
     (if qcView (qc_at s r) < 2 then (s, None)
      else case GetBlockByID (rBc s) (qcBlockID (qc_at s r)) of
        Inl err \<Rightarrow> (s, Some (CannotUpdatePreferredView err))
      | Inr _ \<Rightarrow>
          (if qcView (qc_at s r) > preferredView s
           then s\<lparr>preferredView := qcView (qc_at s r)\<rparr> else s, None))"

definition th_votingRule :: "Tchs \<Rightarrow> Block \<Rightarrow> (go_error + bool) go" where
  "th_votingRule s block =
     (if bView block \<le> 2 then retG (Inr True)
      else bindG (GetParentBlock (rQCs s) (rBc s) (bID block)) (\<lambda>p.
        case p of
          Inl err \<Rightarrow> retG (Inl (CannotVote err))
        | Inr parentBlock \<Rightarrow>
            if bView block \<le> lastVotedView s \<or> bView parentBlock < preferredView s
            then retG (Inr False) else retG (Inr True)))"

text \<open>\<open>Inr (Some b)\<close> says that \<open>b\<close> can be committed, \<open>Inr None\<close> that nothing can.\<close>

definition th_commitRule :: "Tchs \<Rightarrow> Block \<Rightarrow> (go_error + Block option) go" where
  "th_commitRule s block =
     (case bQC block of
        None \<Rightarrow> panicG NilDereference
      | Some r \<Rightarrow>
          bindG (GetParentBlock (rQCs s) (rBc s) (qcBlockID (qc_at s r))) (\<lambda>p.
            case p of
              Inl err \<Rightarrow> retG (Inl (CannotCommitAny err))
            | Inr parentBlock \<Rightarrow>
                if i64 (bView parentBlock + 1) = qcView (qc_at s r)
                then retG (Inr (Some parentBlock)) else retG (Inr None)))"

text \<open>
  The part of \<open>ProcessBlock\<close> that checks the commit rule. \<open>Some err\<close> is a return of the handler
  with the error \<open>err\<close>, \<open>None\<close> falls through.
\<close>

definition th_commit :: "Tchs \<Rightarrow> Block \<Rightarrow> qcref \<Rightarrow> (Tchs \<times> go_error option option) go" where
  "th_commit s block r =
     (if qcView (qc_at s r) \<ge> 2 \<and> i64 (qcView (qc_at s r) + 1) = bView block
      then
        bindG (th_commitRule s block) (\<lambda>ok.
          case ok of
            Inl _ \<Rightarrow> retG (s, Some None)
          | Inr None \<Rightarrow> retG (s, Some None)
          | Inr (Some b) \<Rightarrow>
              bindG (do_commit s b) (\<lambda>(s', err).
                retG (s', if err \<noteq> None then Some (Some CannotCommitBlocks) else None)))
      else retG (s, None))"

definition th_processCertificate :: "env \<Rightarrow> Tchs \<Rightarrow> qcref option \<Rightarrow> Tchs go" where
  "th_processCertificate e s qc =
     (case qc of
        None \<Rightarrow> panicG NilDereference
      | Some r \<Rightarrow>
          let q = qc_at s r in
          if qcView q < cur s then retG s
          else
            bindG (if qcLeader q \<noteq> rID s
                   then VerifyQuorumSignature e (qcAggSig q) (qcBlockID q) (qcSigners q)
                   else retG (True, None)) (\<lambda>(quorumIsVerified, _).
              if \<not> quorumIsVerified then retG s
              else
                bindG (if rByz s \<and> Strategy (cfg e) = FORK
                       then IsLeader (rElect s) (rID s) (i64 (qcView q + 1)) else retG False) (\<lambda>forking.
                  if forking then retG (advance s (qcView q))
                  else
                    case th_updatePreferredView s r of
                      (s1, Some err) \<Rightarrow>
                        retG (s1\<lparr>bufferedQCs := (bufferedQCs s1)(qcBlockID q \<mapsto> r)\<rparr>)
                    | (s1, None) \<Rightarrow> retG (advance (th_updateHighQC s1 r) (qcView q)))))"

definition th_ProcessVote :: "env \<Rightarrow> Tchs \<Rightarrow> Vote \<Rightarrow> Tchs go" where
  "th_ProcessVote e s vote =
     bindG (if rID s \<noteq> vVoter vote
            then PubVerify e (vSig vote) (IDToByte (vBlockID vote)) (vVoter vote)
            else retG (True, None)) (\<lambda>(voteIsVerified, err).
       if err \<noteq> None then panicG LogFatal
       else if \<not> voteIsVerified then retG s
       else
         case AddVote (vote_order e) (rBc s) vote of
           (bc', isBuilt, qc) \<Rightarrow>
             let s1 = s\<lparr>rBc := bc'\<rparr> in
             if \<not> isBuilt then retG s1
             else case qc of
               None \<Rightarrow> panicG NilDereference
             | Some q \<Rightarrow>
                 (case alloc_qc s1 (q\<lparr>qcLeader := rID s\<rparr>) of
                    (s2, r) \<Rightarrow>
                      (case GetBlockByID (rBc s2) (qcBlockID q) of
                         Inl err \<Rightarrow> retG (s2\<lparr>bufferedQCs := (bufferedQCs s2)(qcBlockID q \<mapsto> r)\<rparr>)
                       | Inr _ \<Rightarrow> th_processCertificate e s2 (Some r))))"

definition th_ProcessRemoteTmo :: "Tchs \<Rightarrow> TMO \<Rightarrow> Tchs go" where
  "th_ProcessRemoteTmo s tmo =
     (if tmoView tmo < cur s then retG s
      else
        case pm_ProcessRemoteTmo (rPm s) tmo of
          (pm', isBuilt, tc) \<Rightarrow>
            let s1 = s\<lparr>rPm := pm'\<rparr> in
            if \<not> isBuilt then retG s1
            else case tc of
              None \<Rightarrow> panicG NilDereference
            | Some c \<Rightarrow> retG (th_processTC s1 c))"

definition th_ProcessLocalTmo :: "Tchs \<Rightarrow> View \<Rightarrow> Tchs go" where
  "th_ProcessLocalTmo s view =
     (let s1 = advance s (i64 (view + 1));
          tmo = \<lparr>tmoView = i64 (view + 1), tmoNodeID = rID s1, tmoHighQC = Some (th_GetHighQC s1)\<rparr>
      in th_ProcessRemoteTmo (send s1 (Broadcast (TmoMsg tmo))) tmo)"

text \<open>The certificate is shared: setting its view changes it for every block that carries it.\<close>

definition th_forkChoice :: "Tchs \<Rightarrow> Tchs \<times> qcref" where
  "th_forkChoice s =
     (let choice = th_GetHighQC s
      in (s\<lparr>rQCs := (rQCs s)(choice := (qc_at s choice)\<lparr>qcView := i64 (cur s - 1)\<rparr>)\<rparr>, choice))"

definition th_MakeProposal :: "env \<Rightarrow> Tchs \<Rightarrow> View \<Rightarrow> Transaction list \<Rightarrow> (Tchs \<times> Block) go" where
  "th_MakeProposal e s view payload =
     (case th_forkChoice s of (s1, r) \<Rightarrow>
        bindG (MakeBlock e (rQCs s1) view (Some r) (qcBlockID (qc_at s1 r)) payload (rID s1)) (\<lambda>block.
          retG (s1, block)))"

definition th_MakePProposal ::
  "env \<Rightarrow> (nat \<Rightarrow> PartialOrderBatch option) \<Rightarrow> Tchs \<Rightarrow> View \<Rightarrow> (Tchs \<times> Block) go" where
  "th_MakePProposal e answers s view =
     (case th_forkChoice s of (s1, r) \<Rightarrow>
        bindG (poll_batch answers 0) (\<lambda>priori.
        bindG (MakePBlock e (rQCs s1) view (Some r) (qcBlockID (qc_at s1 r)) (Some priori) (rID s1)) (\<lambda>block.
          retG (s1, block))))"

text \<open>The vote for \<open>block\<close>, processed here or sent to the leader of the next view.\<close>

definition th_vote :: "env \<Rightarrow> Tchs \<Rightarrow> Block \<Rightarrow> Tchs go" where
  "th_vote e s block =
     bindG (MakeVote e (bView block) (rID s) (bID block)) (\<lambda>vote.
     bindG (FindLeaderFor (rElect s) (i64 (bView block + 1))) (\<lambda>voteAggregator.
       if voteAggregator = rID s then th_ProcessVote e s vote
       else retG (send s (SendTo voteAggregator (VoteMsg vote)))))"

definition th_take_bufferedQC :: "env \<Rightarrow> Tchs \<Rightarrow> Identifier \<Rightarrow> Tchs go" where
  "th_take_bufferedQC e s i =
     (case bufferedQCs s i of
        None \<Rightarrow> retG s
      | Some r \<Rightarrow>
          bindG (th_processCertificate e s (Some r)) (\<lambda>s1.
            retG (s1\<lparr>bufferedQCs := (bufferedQCs s1)(i := None)\<rparr>)))"

text \<open>\<open>ProcessBlock\<close> from the commit on, from the insertion of the block on, and from the start.\<close>

definition th_decide_vote :: "env \<Rightarrow> Tchs \<Rightarrow> Block \<Rightarrow> (Tchs \<times> go_error option option) go" where
  "th_decide_vote e s block =
     bindG (th_take_bufferedQC e s (bID block)) (\<lambda>s1.
     bindG (th_votingRule s1 block) (\<lambda>rule.
       case rule of
         Inl err \<Rightarrow> retG (s1, Some (Some err))
       | Inr shouldVote \<Rightarrow>
           if \<not> shouldVote then retG (s1, Some None)
           else bindG (th_vote e s1 block) (\<lambda>s2. retG (s2, None))))"

definition th_insert_and_vote :: "env \<Rightarrow> Tchs \<Rightarrow> Block \<Rightarrow> qcref \<Rightarrow> (Tchs \<times> go_error option option) go" where
  "th_insert_and_vote e s block qc =
     bindG (AddBlock (rQCs s) (rBc s) block) (\<lambda>bc'.
     bindG (th_commit (s\<lparr>rBc := bc'\<rparr>) block qc) (\<lambda>(s1, ret).
       case ret of
         Some err \<Rightarrow> retG (s1, Some err)
       | None \<Rightarrow> th_decide_vote e s1 block))"

definition th_process_one :: "env \<Rightarrow> Tchs \<Rightarrow> Block \<Rightarrow> (Tchs \<times> go_error option option) go" where
  "th_process_one e s block =
     bindG (if bProposer block \<noteq> rID s
            then PubVerify e (bSig block) (IDToByte (bID block)) (bProposer block)
            else retG (True, None)) (\<lambda>_.
       if bView block > i64 (cur s + 1)
       then retG (s\<lparr>bufferedBlocks := (bufferedBlocks s)(i64 (bView block - 1) \<mapsto> block)\<rparr>, Some None)
       else case bQC block of
         None \<Rightarrow> retG (s, Some (Some BlockWithoutQC))
       | Some qc \<Rightarrow>
           let s1 = th_updateHighQC s qc in
           bindG (if bProposer block \<noteq> rID s1 then th_processCertificate e s1 (Some qc) else retG s1) (\<lambda>s2.
             if bView block < cur s2 then retG (s2, Some None)
             else
               bindG (IsLeader (rElect s2) (bProposer block) (bView block)) (\<lambda>leader.
                 if \<not> leader then retG (s2, Some (Some (InvalidLeader (bView block) (bProposer block))))
                 else th_insert_and_vote e s2 block qc)))"

partial_function (option) th_ProcessBlock :: "env \<Rightarrow> Tchs \<Rightarrow> Block \<Rightarrow> (Tchs \<times> go_error option) go" where
  "th_ProcessBlock e s block =
     bindG (th_process_one e s block) (\<lambda>(s1, ret).
       case ret of
         Some err \<Rightarrow> retG (s1, err)
       | None \<Rightarrow>
           (case bufferedBlocks s1 (bView block) of
              None \<Rightarrow> retG (s1, None)
            | Some b \<Rightarrow> th_ProcessBlock e s1 b))"

section \<open>Every handler keeps the invariant and only moves forward\<close>

lemma th_updateHighQC_ok: "chained_wf s \<Longrightarrow> r < rNextQC s \<Longrightarrow> step_ok s (th_updateHighQC s r)"
  by (simp add: th_updateHighQC_def highQC_ok)

lemma th_updatePreferredView_ok: "chained_wf s \<Longrightarrow> th_updatePreferredView s r = (s1, err) \<Longrightarrow> step_ok s s1"
  by (auto simp: th_updatePreferredView_def split: if_split_asm sum.split_asm intro: preferred_ok)

lemma th_certified_ok:
  assumes "chained_wf s" and "r < rNextQC s" and "th_updatePreferredView s r = (s1, err)"
  shows "step_ok s (advance (th_updateHighQC s1 r) (qcView (qc_at s r)))"
    and "step_ok s (s1\<lparr>bufferedQCs := (bufferedQCs s1)(i \<mapsto> r)\<rparr>)"
proof -
  have s1: "step_ok s s1" using assms(1,3) by (rule th_updatePreferredView_ok)
  have r1: "r < rNextQC s1" using step_ok_ref [OF s1 assms(2)] by simp
  have s2: "step_ok s1 (th_updateHighQC s1 r)" using step_ok_wf [OF s1] r1 by (rule th_updateHighQC_ok)
  from advance_ok [OF step_ok_wf [OF s2]] chained_wf_view [OF assms(1)] s1 s2
  show "step_ok s (advance (th_updateHighQC s1 r) (qcView (qc_at s r)))" by (blast intro: step_ok_trans)
  from bufferQC_ok [OF step_ok_wf [OF s1] r1] s1
  show "step_ok s (s1\<lparr>bufferedQCs := (bufferedQCs s1)(i \<mapsto> r)\<rparr>)" by (blast intro: step_ok_trans)
qed

lemma th_processCertificate_ok:
  assumes "chained_wf s" and "\<And>r. qc = Some r \<Longrightarrow> r < rNextQC s"
  shows "go_all (step_ok s) (th_processCertificate e s qc)"
proof (cases qc)
  case (Some r)
  obtain s1 err where up: "th_updatePreferredView s r = (s1, err)" by fastforce
  have "step_ok s (advance s (qcView (qc_at s r)))" using assms(1) by (intro advance_ok) simp_all
  with assms Some th_certified_ok [OF assms(1) _ up] show ?thesis
    by (auto simp: th_processCertificate_def Let_def up intro!: go_all_bind_any split: option.splits)
qed (simp add: th_processCertificate_def)

interpretation th_certifier: certifier "th_processCertificate e"
  by unfold_locales (rule th_processCertificate_ok)

lemma th_ProcessVote_ok:
  assumes "chained_wf s" and "small_view (vView vote)"
  shows "go_all (step_ok s) (th_ProcessVote e s vote)"
  using assms th_certifier.counted_vote_ok [OF assms, of e "vote_order e"]
  by (auto simp: th_ProcessVote_def intro!: go_all_bind_any)

interpretation th_votes: vote_counter "th_ProcessVote e"
  by unfold_locales (rule th_ProcessVote_ok)

lemma th_vote_ok: "chained_wf s \<Longrightarrow> small_view (bView b) \<Longrightarrow> go_all (step_ok s) (th_vote e s b)"
  unfolding th_vote_def by (rule th_votes.cast_vote_ok)

lemma th_take_bufferedQC_ok: "chained_wf s \<Longrightarrow> go_all (step_ok s) (th_take_bufferedQC e s i)"
  unfolding th_take_bufferedQC_def by (rule th_certifier.taken_certificate_ok)

lemma th_commit_ok:
  assumes "chained_wf s"
  shows "go_all (\<lambda>(s', _). step_ok s s') (th_commit s b r)"
proof -
  have "go_all (\<lambda>(s', _). step_ok s s') (bindG (do_commit s c) (\<lambda>(s', err).
      retG (s', if err \<noteq> None then Some (Some CannotCommitBlocks) else None)))" for c
    by (rule go_all_bind [OF do_commit_ok [OF assms]]) auto
  with assms show ?thesis
    by (auto simp: th_commit_def intro!: go_all_bind_any split: sum.split option.split)
qed

lemma th_decide_vote_ok:
  assumes "chained_wf s" and "small_view (bView b)"
  shows "go_all (\<lambda>(s', _). step_ok s s') (th_decide_vote e s b)"
  unfolding th_decide_vote_def
proof (rule go_all_bind [OF th_take_bufferedQC_ok [OF assms(1)]], rule go_all_bind_any)
  fix s1 and rule :: "go_error + bool" assume s1: "step_ok s s1"
  have "go_all (\<lambda>(s', _). step_ok s s') (bindG (th_vote e s1 b) (\<lambda>s2. retG (s2, None :: go_error option option)))"
    by (rule go_all_bind [OF th_vote_ok [OF step_ok_wf [OF s1] assms(2)]])
      (use s1 in \<open>auto intro: step_ok_trans\<close>)
  with s1 show "go_all (\<lambda>(s', _). step_ok s s') (case rule of
      Inl err \<Rightarrow> retG (s1, Some (Some err))
    | Inr shouldVote \<Rightarrow> if \<not> shouldVote then retG (s1, Some None)
        else bindG (th_vote e s1 b) (\<lambda>s2. retG (s2, None)))"
    by (simp split: sum.split)
qed

lemma th_insert_and_vote_ok:
  assumes "chained_wf s" and "small_view (bView b)"
  shows "go_all (\<lambda>(s', _). step_ok s s') (th_insert_and_vote e s b qc)"
  unfolding th_insert_and_vote_def
proof (rule go_all_bind [OF AddBlock_ok [OF chained_wf_bc [OF assms(1)]]])
  fix bc' assume "bc_ok bc'"
  then have s1: "step_ok s (s\<lparr>rBc := bc'\<rparr>)" by (rule bc_update_ok [OF assms(1)])
  have "go_all (\<lambda>(s', _). step_ok s s') (th_decide_vote e s2 b)" if "step_ok s s2" for s2
    by (rule go_all_step2 [OF that th_decide_vote_ok [OF step_ok_wf [OF that] assms(2)]])
  then show "go_all (\<lambda>(s', _). step_ok s s') (bindG (th_commit (s\<lparr>rBc := bc'\<rparr>) b qc) (\<lambda>(s1, ret).
      case ret of Some err \<Rightarrow> retG (s1, Some err) | None \<Rightarrow> th_decide_vote e s1 b))"
    by (intro go_all_bind [OF go_all_step2 [OF s1 th_commit_ok [OF step_ok_wf [OF s1]]]])
      (auto split: option.split)
qed

lemma th_block_cert_ok:
  assumes "chained_wf s" and "block_ok s b" and "bQC b = Some qc" and "s1 = th_updateHighQC s qc"
  shows "go_all (step_ok s) (if bProposer b \<noteq> rID s1 then th_processCertificate e s1 (Some qc) else retG s1)"
proof (rule th_certifier.block_certificate_ok [OF assms(1-3)])
  show "step_ok s s1" using th_updateHighQC_ok [OF assms(1)] assms(2-4) by (simp add: block_ok_def)
qed

lemma th_process_one_ok:
  assumes "chained_wf s" and "block_ok s b"
  shows "go_all (\<lambda>(s', _). step_ok s s') (th_process_one e s b)"
proof -
  have small: "small_view (bView b)" using assms(2) by (simp add: block_ok_def)
  have ins: "go_all (\<lambda>(s', _). step_ok s s') (th_insert_and_vote e s2 b qc)" if "step_ok s s2" for s2 qc
    by (rule go_all_step2 [OF that th_insert_and_vote_ok [OF step_ok_wf [OF that] small]])
  have rest: "go_all (\<lambda>(s', _). step_ok s s') (if bView b < cur s2 then retG (s2, Some None)
      else bindG (IsLeader (rElect s2) (bProposer b) (bView b)) (\<lambda>leader.
        if \<not> leader then retG (s2, Some (Some (InvalidLeader (bView b) (bProposer b))))
        else th_insert_and_vote e s2 b qc))" if "step_ok s s2" for s2 qc
    using that ins [OF that] by (auto intro: go_all_bind_any)
  show ?thesis
  proof (cases "bView b > i64 (cur s + 1) \<or> bQC b = None")
    case True
    with assms show ?thesis
      by (auto simp: th_process_one_def intro!: go_all_bind_any bufferBlock_ok)
  next
    case False
    then obtain qc where qc: "bQC b = Some qc" "\<not> bView b > i64 (cur s + 1)" by auto
    show ?thesis
      unfolding th_process_one_def Let_def qc(1) option.case if_not_P [OF qc(2)]
      by (rule go_all_bind_any, rule go_all_bind [OF th_block_cert_ok [OF assms qc(1) refl] rest])
  qed
qed

lemmas th_ProcessBlock_induct = th_ProcessBlock.raw_induct [rotated, consumes 1, case_names step]

lemma th_ProcessBlock_step:
  "th_ProcessBlock e s b = Some r \<Longrightarrow> chained_wf s \<Longrightarrow> block_ok s b \<Longrightarrow> r = Ret (s', err) \<Longrightarrow> step_ok s s'"
proof (induction arbitrary: s' err rule: th_ProcessBlock_induct)
  case (step pb e s b r)
  obtain s1 ret where one: "th_process_one e s b = retG (s1, ret)"
    using step.hyps step.prems(3) by (auto elim!: bindG_RetE)
  have s1: "step_ok s s1"
    using go_allD [OF th_process_one_ok [OF step.prems(1,2)] one] by simp
  show ?case
  proof (cases "ret = None \<and> bufferedBlocks s1 (bView b) \<noteq> None")
    case False
    with step.hyps step.prems(3) one s1 show ?thesis by (auto split: option.splits)
  next
    case True
    then obtain c where c: "bufferedBlocks s1 (bView b) = Some c" by auto
    with True step.hyps step.prems(3) one have rec: "pb e s1 c = retG (s', err)" by auto
    have "block_ok s1 c" using c step_ok_wf [OF s1] by (auto simp: chained_wf_def)
    with step.IH [OF rec step_ok_wf [OF s1]] s1 show ?thesis by (blast intro: step_ok_trans)
  qed
qed

lemma th_ProcessBlock_ok:
  "chained_wf s \<Longrightarrow> block_ok s b \<Longrightarrow> go_all (\<lambda>(s', _). step_ok s s') (th_ProcessBlock e s b)"
  by (rule go_allI) (auto dest: th_ProcessBlock_step)

lemma th_processTC_ok: "chained_wf s \<Longrightarrow> small_view (tcView tc) \<Longrightarrow> step_ok s (th_processTC s tc)"
  by (simp add: th_processTC_def advance_ok)

lemma th_ProcessRemoteTmo_ok:
  assumes "chained_wf s" and "small_view (tmoView tmo)"
  shows "go_all (step_ok s) (th_ProcessRemoteTmo s tmo)"
proof -
  obtain p built tc where pm: "pm_ProcessRemoteTmo (rPm s) tmo = (p, built, tc)" by (metis prod_cases3)
  note f = pm_ProcessRemoteTmo_fields [OF pm]
  have s1: "step_ok s (s\<lparr>rPm := p\<rparr>)" using pm_ok [OF assms(1), of p] f by blast
  have "step_ok s (th_processTC (s\<lparr>rPm := p\<rparr>) c)" if "tc = Some c" for c
    using th_processTC_ok [OF step_ok_wf [OF s1], of c] f that assms(2) s1 step_ok_trans by auto
  with s1 assms(1) show ?thesis
    by (simp add: th_ProcessRemoteTmo_def pm Let_def split: option.splits)
qed

lemma th_ProcessLocalTmo_ok:
  assumes "chained_wf s" and "small_view view" and "small_view (view + 1)"
  shows "go_all (step_ok s) (th_ProcessLocalTmo s view)"
proof -
  let ?s1 = "advance s (i64 (view + 1))"
  let ?tmo = "\<lparr>tmoView = i64 (view + 1), tmoNodeID = rID ?s1, tmoHighQC = Some (highQC ?s1)\<rparr>"
  let ?s2 = "send ?s1 (Broadcast (TmoMsg ?tmo))"
  have v: "small_view (i64 (view + 1))" using assms(2,3) by (simp add: small_view_succ)
  have s1: "step_ok s ?s1" using assms(1) v by (rule advance_ok)
  have s2: "step_ok s ?s2" using send_ok [OF step_ok_wf [OF s1]] s1 by (blast intro: step_ok_trans)
  from th_ProcessRemoteTmo_ok [OF step_ok_wf [OF s2], of ?tmo] go_all_step [OF s2] v show ?thesis
    by (simp add: th_ProcessLocalTmo_def Let_def th_GetHighQC_def)
qed

section \<open>Two-chain HotStuff provides the safety interface\<close>

fun th_handle :: "env \<Rightarrow> Tchs \<Rightarrow> event \<Rightarrow> Tchs go" where
  "th_handle e s (OnBlock b) = bindG (th_ProcessBlock e s b) (\<lambda>(s', _). retG s')"
| "th_handle e s (OnVote v) = th_ProcessVote e s v"
| "th_handle e s (OnRemoteTmo t) = th_ProcessRemoteTmo s t"
| "th_handle e s (OnLocalTmo v) = th_ProcessLocalTmo s v"

lemma th_handle_ok: "chained_wf s \<Longrightarrow> chained_admissible s ev \<Longrightarrow> go_all (step_ok s) (th_handle e s ev)"
proof (cases ev)
  case (OnBlock b)
  assume "chained_wf s" "chained_admissible s ev"
  with OnBlock have "go_all (\<lambda>(s', _). step_ok s s') (th_ProcessBlock e s b)"
    by (simp add: th_ProcessBlock_ok)
  then have "go_all (step_ok s) (bindG (th_ProcessBlock e s b) (\<lambda>(s', _). retG s'))"
    by (rule go_all_bind) auto
  with OnBlock show ?thesis by simp
qed (auto intro: th_ProcessVote_ok th_ProcessRemoteTmo_ok th_ProcessLocalTmo_ok)

interpretation two_chain: safety chained_wf chained_admissible chained_forward "th_handle e"
  by (rule chained_safety) (rule th_handle_ok)

lemma NewTchs_wf: "chained_wf (NewTchs e i byz (NewPacemaker n) elec)"
  by (simp add: chained_wf_def NewTchs_def cur_def GetCurView_def NewPacemaker_def bc_ok_def NewBlockchain_def
      zero_qc_def small_view_def is_i64_def)

end
