(* ===== verification/Fhs.thy ===== *)
theory Fhs
  imports Tchs
begin

text \<open>
  The Fast-HotStuff replica (fasthostuff/fhs.go), and that each of its handlers is the handler of
  the two-chain HotStuff replica.
\<close>

type_synonym Fhs = chained

definition NewFhs :: "env \<Rightarrow> NodeID \<Rightarrow> bool \<Rightarrow> Pacemaker \<Rightarrow> Election \<Rightarrow> Fhs" where
  "NewFhs e nodeID byz pm elec =
     \<lparr>rID = nodeID, rByz = byz, rElect = elec, rPm = pm, lastVotedView = 0, preferredView = 0,
      highQC = 0, rBc = NewBlockchain (config_N (cfg e)), committedBlocks = [], forkedBlocks = [],
      bufferedQCs = Map.empty, bufferedBlocks = Map.empty,
      rQCs = (\<lambda>_. zero_qc), rNextQC = 1, rOutbox = []\<rparr>"

definition f_GetHighQC :: "Fhs \<Rightarrow> qcref" where
  "f_GetHighQC s = highQC s"

definition f_updateHighQC :: "Fhs \<Rightarrow> qcref \<Rightarrow> Fhs" where
  "f_updateHighQC s r =
     (if qcView (qc_at s r) > qcView (qc_at s (highQC s)) then s\<lparr>highQC := r\<rparr> else s)"

definition f_processTC :: "Fhs \<Rightarrow> TC \<Rightarrow> Fhs" where
  "f_processTC s tc = (if tcView tc < cur s then s else advance s (tcView tc))"

definition f_updateLastVotedView :: "Fhs \<Rightarrow> View \<Rightarrow> Fhs \<times> go_error option" where
  "f_updateLastVotedView s targetView =
     (if targetView < lastVotedView s then (s, Some TargetViewTooLow)
      else (s\<lparr>lastVotedView := targetView\<rparr>, None))"

definition f_updatePreferredView :: "Fhs \<Rightarrow> qcref \<Rightarrow> Fhs \<times> go_error option" where
  "f_updatePreferredView s r =
     (if qcView (qc_at s r) < 2 then (s, None)
      else case GetBlockByID (rBc s) (qcBlockID (qc_at s r)) of
        Inl err \<Rightarrow> (s, Some (CannotUpdatePreferredView err))
      | Inr _ \<Rightarrow>
          (if qcView (qc_at s r) > preferredView s
           then s\<lparr>preferredView := qcView (qc_at s r)\<rparr> else s, None))"

definition f_votingRule :: "Fhs \<Rightarrow> Block \<Rightarrow> (go_error + bool) go" where
  "f_votingRule s block =
     (if bView block \<le> 2 then retG (Inr True)
      else bindG (GetParentBlock (rQCs s) (rBc s) (bID block)) (\<lambda>p.
        case p of
          Inl err \<Rightarrow> retG (Inl (CannotVote err))
        | Inr parentBlock \<Rightarrow>
            if bView block \<le> lastVotedView s \<or> bView parentBlock < preferredView s
            then retG (Inr False) else retG (Inr True)))"

text \<open>\<open>Inr (Some b)\<close> says that \<open>b\<close> can be committed, \<open>Inr None\<close> that nothing can.\<close>

definition f_commitRule :: "Fhs \<Rightarrow> Block \<Rightarrow> (go_error + Block option) go" where
  "f_commitRule s block =
     (case bQC block of
        None \<Rightarrow> panicG NilDereference
      | Some r \<Rightarrow>
          bindG (GetParentBlock (rQCs s) (rBc s) (qcBlockID (qc_at s r))) (\<lambda>p.
            case p of
              Inl err \<Rightarrow> retG (Inl (CannotCommitAny err))
            | Inr parentBlock \<Rightarrow>
                if i64 (bView parentBlock + 1) = qcView (qc_at s r)
                then retG (Inr (Some parentBlock)) else retG (Inr None)))"

text \<open>
  The part of \<open>ProcessBlock\<close> that checks the commit rule. \<open>Some err\<close> is a return of the handler
  with the error \<open>err\<close>, \<open>None\<close> falls through.
\<close>

definition f_commit :: "Fhs \<Rightarrow> Block \<Rightarrow> qcref \<Rightarrow> (Fhs \<times> go_error option option) go" where
  "f_commit s block r =
     (if qcView (qc_at s r) \<ge> 2 \<and> i64 (qcView (qc_at s r) + 1) = bView block
      then
        bindG (f_commitRule s block) (\<lambda>ok.
          case ok of
            Inl _ \<Rightarrow> retG (s, Some None)
          | Inr None \<Rightarrow> retG (s, Some None)
          | Inr (Some b) \<Rightarrow>
              bindG (do_commit s b) (\<lambda>(s', err).
                retG (s', if err \<noteq> None then Some (Some CannotCommitBlocks) else None)))
      else retG (s, None))"

definition f_processCertificate :: "env \<Rightarrow> Fhs \<Rightarrow> qcref option \<Rightarrow> Fhs go" where
  "f_processCertificate e s qc =
     (case qc of
        None \<Rightarrow> panicG NilDereference
      | Some r \<Rightarrow>
          let q = qc_at s r in
          if qcView q < cur s then retG s
          else
            bindG (if qcLeader q \<noteq> rID s
                   then VerifyQuorumSignature e (qcAggSig q) (qcBlockID q) (qcSigners q)
                   else retG (True, None)) (\<lambda>(quorumIsVerified, _).
              if \<not> quorumIsVerified then retG s
              else
                bindG (if rByz s \<and> Strategy (cfg e) = FORK
                       then IsLeader (rElect s) (rID s) (i64 (qcView q + 1)) else retG False) (\<lambda>forking.
                  if forking then retG (advance s (qcView q))
                  else
                    case f_updatePreferredView s r of
                      (s1, Some err) \<Rightarrow>
                        retG (s1\<lparr>bufferedQCs := (bufferedQCs s1)(qcBlockID q \<mapsto> r)\<rparr>)
                    | (s1, None) \<Rightarrow> retG (advance (f_updateHighQC s1 r) (qcView q)))))"

definition f_ProcessVote :: "env \<Rightarrow> Fhs \<Rightarrow> Vote \<Rightarrow> Fhs go" where
  "f_ProcessVote e s vote =
     bindG (if rID s \<noteq> vVoter vote
            then PubVerify e (vSig vote) (IDToByte (vBlockID vote)) (vVoter vote)
            else retG (True, None)) (\<lambda>(voteIsVerified, err).
       if err \<noteq> None then panicG LogFatal
       else if \<not> voteIsVerified then retG s
       else
         case AddVote (vote_order e) (rBc s) vote of
           (bc', isBuilt, qc) \<Rightarrow>
             let s1 = s\<lparr>rBc := bc'\<rparr> in
             if \<not> isBuilt then retG s1
             else case qc of
               None \<Rightarrow> panicG NilDereference
             | Some q \<Rightarrow>
                 (case alloc_qc s1 (q\<lparr>qcLeader := rID s\<rparr>) of
                    (s2, r) \<Rightarrow>
                      (case GetBlockByID (rBc s2) (qcBlockID q) of
                         Inl err \<Rightarrow> retG (s2\<lparr>bufferedQCs := (bufferedQCs s2)(qcBlockID q \<mapsto> r)\<rparr>)
                       | Inr _ \<Rightarrow> f_processCertificate e s2 (Some r))))"

definition f_ProcessRemoteTmo :: "Fhs \<Rightarrow> TMO \<Rightarrow> Fhs go" where
  "f_ProcessRemoteTmo s tmo =
     (if tmoView tmo < cur s then retG s
      else
        case pm_ProcessRemoteTmo (rPm s) tmo of
          (pm', isBuilt, tc) \<Rightarrow>
            let s1 = s\<lparr>rPm := pm'\<rparr> in
            if \<not> isBuilt then retG s1
            else case tc of
              None \<Rightarrow> panicG NilDereference
            | Some c \<Rightarrow> retG (f_processTC s1 c))"

definition f_ProcessLocalTmo :: "Fhs \<Rightarrow> View \<Rightarrow> Fhs go" where
  "f_ProcessLocalTmo s view =
     (let s1 = advance s (i64 (view + 1));
          tmo = \<lparr>tmoView = i64 (view + 1), tmoNodeID = rID s1, tmoHighQC = Some (f_GetHighQC s1)\<rparr>
      in f_ProcessRemoteTmo (send s1 (Broadcast (TmoMsg tmo))) tmo)"

text \<open>The certificate is shared: setting its view changes it for every block that carries it.\<close>

definition f_forkChoice :: "Fhs \<Rightarrow> Fhs \<times> qcref" where
  "f_forkChoice s =
     (let choice = f_GetHighQC s
      in (s\<lparr>rQCs := (rQCs s)(choice := (qc_at s choice)\<lparr>qcView := i64 (cur s - 1)\<rparr>)\<rparr>, choice))"

definition f_MakeProposal :: "env \<Rightarrow> Fhs \<Rightarrow> View \<Rightarrow> Transaction list \<Rightarrow> (Fhs \<times> Block) go" where
  "f_MakeProposal e s view payload =
     (case f_forkChoice s of (s1, r) \<Rightarrow>
        bindG (MakeBlock e (rQCs s1) view (Some r) (qcBlockID (qc_at s1 r)) payload (rID s1)) (\<lambda>block.
          retG (s1, block)))"

definition f_MakePProposal ::
  "env \<Rightarrow> (nat \<Rightarrow> PartialOrderBatch option) \<Rightarrow> Fhs \<Rightarrow> View \<Rightarrow> (Fhs \<times> Block) go" where
  "f_MakePProposal e answers s view =
     (case f_forkChoice s of (s1, r) \<Rightarrow>
        bindG (poll_batch answers 0) (\<lambda>priori.
        bindG (MakePBlock e (rQCs s1) view (Some r) (qcBlockID (qc_at s1 r)) (Some priori) (rID s1)) (\<lambda>block.
          retG (s1, block))))"

text \<open>The vote for \<open>block\<close>, processed here or sent to the leader of the next view.\<close>

definition f_vote :: "env \<Rightarrow> Fhs \<Rightarrow> Block \<Rightarrow> Fhs go" where
  "f_vote e s block =
     bindG (MakeVote e (bView block) (rID s) (bID block)) (\<lambda>vote.
     bindG (FindLeaderFor (rElect s) (i64 (bView block + 1))) (\<lambda>voteAggregator.
       if voteAggregator = rID s then f_ProcessVote e s vote
       else retG (send s (SendTo voteAggregator (VoteMsg vote)))))"

definition f_take_bufferedQC :: "env \<Rightarrow> Fhs \<Rightarrow> Identifier \<Rightarrow> Fhs go" where
  "f_take_bufferedQC e s i =
     (case bufferedQCs s i of
        None \<Rightarrow> retG s
      | Some r \<Rightarrow>
          bindG (f_processCertificate e s (Some r)) (\<lambda>s1.
            retG (s1\<lparr>bufferedQCs := (bufferedQCs s1)(i := None)\<rparr>)))"

text \<open>\<open>ProcessBlock\<close> from the commit on, from the insertion of the block on, and from the start.\<close>

definition f_decide_vote :: "env \<Rightarrow> Fhs \<Rightarrow> Block \<Rightarrow> (Fhs \<times> go_error option option) go" where
  "f_decide_vote e s block =
     bindG (f_take_bufferedQC e s (bID block)) (\<lambda>s1.
     bindG (f_votingRule s1 block) (\<lambda>rule.
       case rule of
         Inl err \<Rightarrow> retG (s1, Some (Some err))
       | Inr shouldVote \<Rightarrow>
           if \<not> shouldVote then retG (s1, Some None)
           else bindG (f_vote e s1 block) (\<lambda>s2. retG (s2, None))))"

definition f_insert_and_vote :: "env \<Rightarrow> Fhs \<Rightarrow> Block \<Rightarrow> qcref \<Rightarrow> (Fhs \<times> go_error option option) go" where
  "f_insert_and_vote e s block qc =
     bindG (AddBlock (rQCs s) (rBc s) block) (\<lambda>bc'.
     bindG (f_commit (s\<lparr>rBc := bc'\<rparr>) block qc) (\<lambda>(s1, ret).
       case ret of
         Some err \<Rightarrow> retG (s1, Some err)
       | None \<Rightarrow> f_decide_vote e s1 block))"

definition f_process_one :: "env \<Rightarrow> Fhs \<Rightarrow> Block \<Rightarrow> (Fhs \<times> go_error option option) go" where
  "f_process_one e s block =
     bindG (if bProposer block \<noteq> rID s
            then PubVerify e (bSig block) (IDToByte (bID block)) (bProposer block)
            else retG (True, None)) (\<lambda>_.
       if bView block > i64 (cur s + 1)
       then retG (s\<lparr>bufferedBlocks := (bufferedBlocks s)(i64 (bView block - 1) \<mapsto> block)\<rparr>, Some None)
       else case bQC block of
         None \<Rightarrow> retG (s, Some (Some BlockWithoutQC))
       | Some qc \<Rightarrow>
           let s1 = f_updateHighQC s qc in
           bindG (if bProposer block \<noteq> rID s1 then f_processCertificate e s1 (Some qc) else retG s1) (\<lambda>s2.
             if bView block < cur s2 then retG (s2, Some None)
             else
               bindG (IsLeader (rElect s2) (bProposer block) (bView block)) (\<lambda>leader.
                 if \<not> leader then retG (s2, Some (Some (InvalidLeader (bView block) (bProposer block))))
                 else f_insert_and_vote e s2 block qc)))"

partial_function (option) f_ProcessBlock :: "env \<Rightarrow> Fhs \<Rightarrow> Block \<Rightarrow> (Fhs \<times> go_error option) go" where
  "f_ProcessBlock e s block =
     bindG (f_process_one e s block) (\<lambda>(s1, ret).
       case ret of
         Some err \<Rightarrow> retG (s1, err)
       | None \<Rightarrow>
           (case bufferedBlocks s1 (bView block) of
              None \<Rightarrow> retG (s1, None)
            | Some b \<Rightarrow> f_ProcessBlock e s1 b))"

section \<open>The handlers are those of two-chain HotStuff\<close>

named_theorems fhs_tchs

lemma NewFhs_eq [fhs_tchs]: "NewFhs = NewTchs"
  by (simp add: NewFhs_def NewTchs_def fun_eq_iff)

lemma f_GetHighQC_eq [fhs_tchs]: "f_GetHighQC = th_GetHighQC"
  by (intro ext) (unfold f_GetHighQC_def th_GetHighQC_def fhs_tchs, rule refl)

lemma f_updateHighQC_eq [fhs_tchs]: "f_updateHighQC = th_updateHighQC"
  by (intro ext) (unfold f_updateHighQC_def th_updateHighQC_def fhs_tchs, rule refl)

lemma f_processTC_eq [fhs_tchs]: "f_processTC = th_processTC"
  by (intro ext) (unfold f_processTC_def th_processTC_def fhs_tchs, rule refl)

lemma f_updateLastVotedView_eq [fhs_tchs]: "f_updateLastVotedView = th_updateLastVotedView"
  by (intro ext) (unfold f_updateLastVotedView_def th_updateLastVotedView_def fhs_tchs, rule refl)

lemma f_updatePreferredView_eq [fhs_tchs]: "f_updatePreferredView = th_updatePreferredView"
  by (intro ext) (unfold f_updatePreferredView_def th_updatePreferredView_def fhs_tchs, rule refl)

lemma f_votingRule_eq [fhs_tchs]: "f_votingRule = th_votingRule"
  by (intro ext) (unfold f_votingRule_def th_votingRule_def fhs_tchs, rule refl)

lemma f_commitRule_eq [fhs_tchs]: "f_commitRule = th_commitRule"
  by (intro ext) (unfold f_commitRule_def th_commitRule_def fhs_tchs, rule refl)

lemma f_commit_eq [fhs_tchs]: "f_commit = th_commit"
  by (intro ext) (unfold f_commit_def th_commit_def fhs_tchs, rule refl)

lemma f_processCertificate_eq [fhs_tchs]: "f_processCertificate = th_processCertificate"
  by (intro ext) (unfold f_processCertificate_def th_processCertificate_def fhs_tchs, rule refl)

lemma f_ProcessVote_eq [fhs_tchs]: "f_ProcessVote = th_ProcessVote"
  by (intro ext) (unfold f_ProcessVote_def th_ProcessVote_def fhs_tchs, rule refl)

lemma f_ProcessRemoteTmo_eq [fhs_tchs]: "f_ProcessRemoteTmo = th_ProcessRemoteTmo"
  by (intro ext) (unfold f_ProcessRemoteTmo_def th_ProcessRemoteTmo_def fhs_tchs, rule refl)

lemma f_ProcessLocalTmo_eq [fhs_tchs]: "f_ProcessLocalTmo = th_ProcessLocalTmo"
  by (intro ext) (unfold f_ProcessLocalTmo_def th_ProcessLocalTmo_def fhs_tchs, rule refl)

lemma f_forkChoice_eq [fhs_tchs]: "f_forkChoice = th_forkChoice"
  by (intro ext) (unfold f_forkChoice_def th_forkChoice_def fhs_tchs, rule refl)

lemma f_MakeProposal_eq [fhs_tchs]: "f_MakeProposal = th_MakeProposal"
  by (intro ext) (unfold f_MakeProposal_def th_MakeProposal_def fhs_tchs, rule refl)

lemma f_MakePProposal_eq [fhs_tchs]: "f_MakePProposal = th_MakePProposal"
  by (intro ext) (unfold f_MakePProposal_def th_MakePProposal_def fhs_tchs, rule refl)

lemma f_vote_eq [fhs_tchs]: "f_vote = th_vote"
  by (intro ext) (unfold f_vote_def th_vote_def fhs_tchs, rule refl)

lemma f_take_bufferedQC_eq [fhs_tchs]: "f_take_bufferedQC = th_take_bufferedQC"
  by (intro ext) (unfold f_take_bufferedQC_def th_take_bufferedQC_def fhs_tchs, rule refl)

lemma f_decide_vote_eq [fhs_tchs]: "f_decide_vote = th_decide_vote"
  by (intro ext) (unfold f_decide_vote_def th_decide_vote_def fhs_tchs, rule refl)

lemma f_insert_and_vote_eq [fhs_tchs]: "f_insert_and_vote = th_insert_and_vote"
  by (intro ext) (unfold f_insert_and_vote_def th_insert_and_vote_def fhs_tchs, rule refl)

lemma f_process_one_eq [fhs_tchs]: "f_process_one = th_process_one"
  by (intro ext) (unfold f_process_one_def th_process_one_def fhs_tchs, rule refl)

lemma f_ProcessBlock_le: "f_ProcessBlock e s b = Some r \<Longrightarrow> th_ProcessBlock e s b = Some r"
proof (induction rule: f_ProcessBlock.raw_induct [rotated, consumes 1, case_names step])
  case (step pb e s b r)
  from step.hyps show ?case
    by (subst th_ProcessBlock.simps)
      (cases "th_process_one e s b", auto simp: fhs_tchs bindG_def split: outcome.split_asm option.split_asm intro: step.IH)
qed

lemma th_ProcessBlock_le: "th_ProcessBlock e s b = Some r \<Longrightarrow> f_ProcessBlock e s b = Some r"
proof (induction rule: th_ProcessBlock_induct)
  case (step pb e s b r)
  from step.hyps show ?case
    by (subst f_ProcessBlock.simps)
      (cases "th_process_one e s b", auto simp: fhs_tchs bindG_def split: outcome.split_asm option.split_asm intro: step.IH)
qed

lemma f_ProcessBlock_eq [fhs_tchs]: "f_ProcessBlock = th_ProcessBlock"
proof (intro ext)
  fix e s b show "f_ProcessBlock e s b = th_ProcessBlock e s b"
    using f_ProcessBlock_le [of e s b] th_ProcessBlock_le [of e s b] 
    by (cases "f_ProcessBlock e s b"; cases "th_ProcessBlock e s b") simp_all
qed

fun f_handle :: "env \<Rightarrow> Fhs \<Rightarrow> event \<Rightarrow> Fhs go" where
  "f_handle e s (OnBlock b) = bindG (f_ProcessBlock e s b) (\<lambda>(s', _). retG s')"
| "f_handle e s (OnVote v) = f_ProcessVote e s v"
| "f_handle e s (OnRemoteTmo t) = f_ProcessRemoteTmo s t"
| "f_handle e s (OnLocalTmo v) = f_ProcessLocalTmo s v"

lemma f_handle_eq [fhs_tchs]: "f_handle e s ev = th_handle e s ev"
  by (cases ev) (simp_all add: fhs_tchs)

interpretation fast: safety chained_wf chained_admissible chained_forward "f_handle e"
  by (rule chained_safety) (simp add: f_handle_eq th_handle_ok)

end
