(* ===== verification/Tchs_Props.thy ===== *)
theory Tchs_Props
  imports Fhs Samples
begin

text \<open>
  What the handlers of two-chain HotStuff guarantee, and that Fast-HotStuff has the same handlers:
  when blocks are committed, what an event can change, and where a replica loses a vote or a
  timeout.
\<close>

section \<open>What commits blocks\<close>

definition same_chain :: "Tchs \<Rightarrow> Tchs \<Rightarrow> bool" where
  "same_chain s s' \<longleftrightarrow> committedBlocks s' = committedBlocks s \<and> rBc s' = rBc s \<and> rQCs s' = rQCs s"

definition same_log :: "Tchs \<Rightarrow> Tchs \<Rightarrow> bool" where
  "same_log s s' \<longleftrightarrow> committedBlocks s' = committedBlocks s"

lemma same_chain_updateHighQC: "same_chain s (th_updateHighQC s r)" "same_chain (th_updateHighQC s r) = same_chain s"
  by (simp_all add: same_chain_def th_updateHighQC_def fun_eq_iff)

lemma th_processCertificate_chain: "go_all (same_chain s) (th_processCertificate e s qc)"
  by (auto simp: th_processCertificate_def same_chain_def advance_def th_updateHighQC_def th_updatePreferredView_def Let_def
      split: option.split sum.split intro!: go_all_bind_any)

lemma th_processCertificate_log: "go_all (same_log s) (th_processCertificate e s qc)"
  by (rule go_all_mono [OF th_processCertificate_chain]) (simp add: same_chain_def same_log_def)

lemma th_ProcessVote_log: "go_all (same_log s) (th_ProcessVote e s vote)"
proof -
  obtain c' built qc where av: "AddVote (vote_order e) (rBc s) vote = (c', built, qc)" by (metis prod_cases3)
  have "go_all (same_log s) (th_processCertificate e t (Some r))" if "same_log s t" for t r
    using that by (intro go_all_mono [OF th_processCertificate_log]) (simp add: same_log_def)
  then show ?thesis
    by (auto simp: th_ProcessVote_def av alloc_qc_def Let_def same_log_def
        split: option.split sum.split intro!: go_all_bind_any)
qed

lemma th_decide_vote_log: "go_all (\<lambda>(s', _). same_log s s') (th_decide_vote e s b)"
proof -
  have v: "go_all (same_log s) (th_vote e t b)" if "same_log s t" for t
    using that th_ProcessVote_log
    by (auto simp: th_vote_def same_log_def send_def go_all_def bindG_eq_Ret split: if_split_asm)
  have "go_all (same_log s) (th_take_bufferedQC e s (bID b))"
    using th_processCertificate_log
    by (auto simp: th_take_bufferedQC_def same_log_def go_all_def bindG_eq_Ret split: option.split)
  then show ?thesis
    unfolding th_decide_vote_def
  proof (rule go_all_bind, intro go_all_bind_any)
    fix t and rule :: "go_error + bool" assume t: "same_log s t"
    have "go_all (\<lambda>(s', _). same_log s s') (bindG (th_vote e t b) (\<lambda>s2. retG (s2, None :: go_error option option)))"
      by (rule go_all_bind [OF v [OF t]]) simp
    with t show "go_all (\<lambda>(s', _). same_log s s') (case rule of
         Inl err \<Rightarrow> retG (t, Some (Some err))
       | Inr shouldVote \<Rightarrow> if \<not> shouldVote then retG (t, Some None)
           else bindG (th_vote e t b) (\<lambda>s2. retG (s2, None)))"
      by (simp split: sum.split)
  qed
qed

lemma th_commit_Ret:
  assumes "forest_inv (forrest (rBc s))" and "bQC b = Some r" and "th_commit s b r = retG (s', ret)"
    and "committedBlocks s' \<noteq> committedBlocks s"
  shows "\<exists>c p cs. GetVertex (forrest (rBc s)) (qcBlockID (qc_at s r)) = Some c \<and>
     GetVertex (forrest (rBc s)) (bPrevID c) = Some p \<and> i64 (bView p + 1) = qcView (qc_at s r) \<and>
     i64 (qcView (qc_at s r) + 1) = bView b \<and> 2 \<le> qcView (qc_at s r) \<and>
     committedBlocks s' = committedBlocks s @ cs \<and>
     commit_chain (GetVertex (forrest (rBc s))) (LowestLevel (forrest (rBc s))) p cs"
proof -
  from assms(3,4) obtain p err where q: "2 \<le> qcView (qc_at s r)" "i64 (qcView (qc_at s r) + 1) = bView b"
      and rule: "th_commitRule s b = retG (Inr (Some p))" and cm: "do_commit s p = retG (s', err)"
    by (auto simp: th_commit_def elim!: bindG_RetE split: if_split_asm sum.split_asm option.split_asm)
  from rule assms(2) have "GetParentBlock (rQCs s) (rBc s) (qcBlockID (qc_at s r)) = retG (Inr p)"
      and v: "i64 (bView p + 1) = qcView (qc_at s r)"
    by (auto simp: th_commitRule_def elim!: bindG_RetE split: sum.split_asm if_split_asm)
  then obtain c where c: "GetVertex (forrest (rBc s)) (qcBlockID (qc_at s r)) = Some c"
      "GetVertex (forrest (rBc s)) (bPrevID c) = Some p" by (auto simp: GetParentBlock_Inr)
  have "GetVertex (forrest (rBc s)) (bID p) = Some p" using c(2) GetVertex_ID [OF assms(1) c(2)] by simp
  with do_commit_Ret [OF cm assms(4)] c v q show ?thesis by auto
qed

lemma th_insert_and_vote_commits:
  assumes "chained_wf s" and "bQC b = Some r" and "th_insert_and_vote e s b r = retG (s', ret)"
    and "committedBlocks s' \<noteq> committedBlocks s"
  shows "\<exists>bc' s2 x. AddBlock (rQCs s) (rBc s) b = retG bc' \<and> bc_ok bc' \<and> th_commit (s\<lparr>rBc := bc'\<rparr>) b r = retG (s2, x) \<and>
     committedBlocks s2 = committedBlocks s'"
proof -
  from assms(3) obtain bc' s2 x where bc': "AddBlock (rQCs s) (rBc s) b = retG bc'"
      and cm: "th_commit (s\<lparr>rBc := bc'\<rparr>) b r = retG (s2, x)"
      and k: "(case x of Some err \<Rightarrow> retG (s2, Some err) | None \<Rightarrow> th_decide_vote e s2 b) = retG (s', ret)"
    by (auto simp: th_insert_and_vote_def elim!: bindG_RetE)
  have "committedBlocks s2 = committedBlocks s'"
    using k th_decide_vote_log [of s2 e b] by (auto simp: go_all_def same_log_def split: option.split_asm)
  moreover have "bc_ok bc'" using go_allD [OF AddBlock_ok [OF chained_wf_bc [OF assms(1)]] bc'] .
  ultimately show ?thesis using bc' cm by blast
qed

lemma th_process_one_inserts:
  assumes "chained_wf s" and "block_ok s b" and "th_process_one e s b = retG (s', ret)"
    and "committedBlocks s' \<noteq> committedBlocks s"
  shows "\<exists>s1 r. step_ok s s1 \<and> bQC b = Some r \<and> bView b \<le> i64 (cur s + 1) \<and> cur s1 \<le> bView b \<and>
     same_chain s s1 \<and> IsLeader (rElect s) (bProposer b) (bView b) = retG True \<and>
     th_insert_and_vote e s1 b r = retG (s', ret)"
proof -
  have one: "(if bView b > i64 (cur s + 1)
       then retG (s\<lparr>bufferedBlocks := (bufferedBlocks s)(i64 (bView b - 1) \<mapsto> b)\<rparr>, Some None)
       else case bQC b of
         None \<Rightarrow> retG (s, Some (Some BlockWithoutQC))
       | Some qc \<Rightarrow>
           bindG (if bProposer b \<noteq> rID (th_updateHighQC s qc)
             then th_processCertificate e (th_updateHighQC s qc) (Some qc) else retG (th_updateHighQC s qc)) (\<lambda>s2.
             if bView b < cur s2 then retG (s2, Some None)
             else
               bindG (IsLeader (rElect s2) (bProposer b) (bView b)) (\<lambda>leader.
                 if \<not> leader then retG (s2, Some (Some (InvalidLeader (bView b) (bProposer b))))
                 else th_insert_and_vote e s2 b qc))) = retG (s', ret)"
    using assms(3) unfolding th_process_one_def Let_def by (rule bindG_RetE)
  then obtain qc where qc: "bView b \<le> i64 (cur s + 1)" "bQC b = Some qc"
    using assms(4) by (cases "bQC b") (auto split: if_split_asm)
  have log: "go_all (same_chain s) (if bProposer b \<noteq> rID (th_updateHighQC s qc)
      then th_processCertificate e (th_updateHighQC s qc) (Some qc) else retG (th_updateHighQC s qc))"
    using th_processCertificate_chain [of "th_updateHighQC s qc" e "Some qc"] same_chain_updateHighQC [of s qc] by simp
  from one qc obtain s1 where cert: "(if bProposer b \<noteq> rID (th_updateHighQC s qc)
        then th_processCertificate e (th_updateHighQC s qc) (Some qc) else retG (th_updateHighQC s qc)) = retG s1"
      and k: "(if bView b < cur s1 then retG (s1, Some None)
        else bindG (IsLeader (rElect s1) (bProposer b) (bView b)) (\<lambda>leader.
          if \<not> leader then retG (s1, Some (Some (InvalidLeader (bView b) (bProposer b))))
          else th_insert_and_vote e s1 b qc)) = retG (s', ret)"
    by (auto elim!: bindG_RetE)
  have s1: "step_ok s s1" "same_chain s s1"
    using go_allD [OF th_block_cert_ok [OF assms(1,2) qc(2) refl] cert] go_allD [OF log cert] by simp_all
  with k assms(4) have "cur s1 \<le> bView b" "IsLeader (rElect s1) (bProposer b) (bView b) = retG True"
      "th_insert_and_vote e s1 b qc = retG (s', ret)"
    by (auto simp: same_chain_def elim!: bindG_RetE split: if_split_asm)
  with s1 qc step_ok_fields [OF s1(1)] show ?thesis by auto
qed


lemma GetParentBlock_returns:
  "forest_run (forrest c) \<Longrightarrow> \<exists>x. GetParentBlock h c i = retG x"
  using stored_has_QC [of "forrest c" i]
  by (cases "GetVertex (forrest c) i") (auto simp: GetParentBlock_def Parent_def split: option.split)

lemma th_two_chain:
  assumes "forest_run (forrest (rBc s))" and "bQC b = Some r"
    and "GetVertex (forrest (rBc s)) (qcBlockID (qc_at s r)) = Some c" and "GetVertex (forrest (rBc s)) (bPrevID c) = Some p"
    and "i64 (bView p + 1) = qcView (qc_at s r)" and "i64 (qcView (qc_at s r) + 1) = bView b" and "2 \<le> qcView (qc_at s r)"
    and "LowestLevel (forrest (rBc s)) \<le> Level p"
  obtains bc' cs fs where "th_commit s b r = retG (s\<lparr>rBc := bc', committedBlocks := committedBlocks s @ cs,
        forkedBlocks := forkedBlocks s @ fs\<rparr>, None)"
    and "commit_chain (GetVertex (forrest (rBc s))) (LowestLevel (forrest (rBc s))) p cs"
    and "forrest bc' = pruned (forrest (rBc s)) (Level p)"
proof -
  have "th_commitRule s b = retG (Inr (Some p))"
    using assms(2,5) GetParentBlock_run [OF assms(1,3,4)] by (simp add: th_commitRule_def)
  with assms(6,7) have c: "th_commit s b r = bindG (do_commit s p) (\<lambda>(s', err).
      retG (s', if err \<noteq> None then Some (Some CannotCommitBlocks) else None))"
    by (simp add: th_commit_def)
  show ?thesis
  proof (rule do_commit_run [OF assms(1,4,8)])
    fix bc' cs fs assume "do_commit s p = retG (s\<lparr>rBc := bc', committedBlocks := committedBlocks s @ cs,
        forkedBlocks := forkedBlocks s @ fs\<rparr>, None)"
      "commit_chain (GetVertex (forrest (rBc s))) (LowestLevel (forrest (rBc s))) p cs"
      "forrest bc' = pruned (forrest (rBc s)) (Level p)"
    then show ?thesis by (intro that [where bc' = bc' and cs = cs and fs = fs]) (simp_all add: c)
  qed
qed

text \<open>
  C17: conversely, when the certificate of an inserted block names a stored block with a stored
  parent and the three views are consecutive, the commit returns, commits the parent with its
  stored ancestors and prunes the tree up to it.
\<close>
theorem th_two_chain_commits:
  assumes "forest_run (forrest (rBc s))" and "bQC b = Some r"
    and "GetVertex (forrest (rBc s)) (qcBlockID (qc_at s r)) = Some c" and "GetVertex (forrest (rBc s)) (bPrevID c) = Some p"
    and "i64 (bView p + 1) = qcView (qc_at s r)" and "i64 (qcView (qc_at s r) + 1) = bView b" and "2 \<le> qcView (qc_at s r)"
    and "LowestLevel (forrest (rBc s)) \<le> Level p"
  shows "\<exists>s' cs. th_commit s b r = retG (s', None) \<and> committedBlocks s' = committedBlocks s @ cs \<and>
     commit_chain (GetVertex (forrest (rBc s))) (LowestLevel (forrest (rBc s))) p cs \<and>
     LowestLevel (forrest (rBc s')) = Level p"
  by (rule th_two_chain [OF assms]) (auto simp: pruned_def)

theorem th_two_chain_commits_witness:
  "\<exists>s' cs. th_commit (links_state ''2'') (link 3) 3 = retG (s', None) \<and> committedBlocks s' = cs \<and>
     commit_chain (GetVertex links3) 0 (link 1) cs"
  using th_two_chain_commits [of "links_state ''2''" "link 3" 3 "link 2" "link 1"]
  by (auto simp: links_run links_lookup)

text \<open>The replica of the samples before it has stored block 3, in view 2, and block 3 as its leader sends it.\<close>

definition two_links :: Tchs where
  "two_links = (links_state ''2'')\<lparr>rBc := (NewBlockchain 4)\<lparr>forrest := links2\<rparr>, rPm := AdvanceView (NewPacemaker 4) 1\<rparr>"

definition led3 :: Block where
  "led3 = (link 3)\<lparr>bProposer := ''2'', bSig := [''1'', ''1'']\<rparr>"

lemma led3_simps [simp]: "bView led3 = 3" "bPrevID led3 = 12" "bQC led3 = Some 3" "bProposer led3 = ''2''"
    "bID led3 = 13" "bSig led3 = [''1'', ''1'']"
  by (simp_all add: led3_def)

lemma two_links_simps [simp]:
  "rID two_links = ''1''" "rByz two_links = False" "rElect two_links = StaticE (NewStatic ''2'')"
  "forrest (rBc two_links) = links2" "committedBlocks two_links = []" "preferredView two_links = 0" "lastVotedView two_links = 0"
  "highQC two_links = 0" "cur two_links = 2" "qc_at two_links = links_heap" "rQCs two_links = links_heap"
  "bufferedQCs two_links = Map.empty" "rNextQC two_links = 5" "rOutbox two_links = []"
  by (simp_all add: two_links_def cur_def GetCurView_def AdvanceView_def NewPacemaker_def NewBlockchain_def qc_at_def
      fun_eq_iff links_state_def)

lemma two_links_wf: "chained_wf two_links" "block_ok two_links led3"
  by (auto simp: chained_wf_def two_links_def links_state_def bc_ok_def links_inv NewBlockchain_def cur_def GetCurView_def
      NewPacemaker_def AdvanceView_def links_heap_def zero_qc_def small_view_def is_i64_def block_ok_def)

definition links_led :: LevelledForest where
  "links_led = grow links2 led3"

lemma led3_add: "AddVertex links_heap links2 led3 = retG links_led"
  using AddVertex_returns [of led3 3 links_heap links2] by (auto simp: links_led_def grow_def)

lemma links_led_lookup:
  "GetVertex links_led i = (if i = 11 then Some (link 1) else if i = 12 then Some (link 2)
     else if i = 13 then Some led3 else None)"
  using forest_store.insert_lookup [OF links_inv(2) led3_add, of i] by (simp add: links_lookup)

lemma links2_run: "forest_run links2"
  using run_add [OF run_add [OF run_new links_in_order(1) grow_eq], folded links1_def, OF links_in_order(2) grow_eq]
  by (simp add: links2_def)

lemma links_led_run: "forest_run links_led" "LowestLevel links_led = 0"
proof -
  have "in_order links_heap links2 led3"
    by (simp add: in_order_def VerifyVertex_def isEquivalentToStoredVertex_def verifyParent_def Parent_def
        HasVertex_iff links_lookup vertices_links link_defs led3_def)
  with links2_run show "forest_run links_led" using led3_add by (rule run_add)
  show "LowestLevel links_led = 0"
    using forest_store.insert_lowest [OF links_inv(2) led3_add] by simp
qed

text \<open>The replica after the certificate of block 3, and with block 3 inserted.\<close>

definition two_links_next :: Tchs where
  "two_links_next = advance (two_links\<lparr>highQC := 3, preferredView := 2\<rparr>) 2"

lemma two_links_certificate:
  "th_processCertificate (sample_env 4 True) (th_updateHighQC two_links 3) (Some 3) = retG two_links_next"
proof -
  have "th_updateHighQC two_links 3 = two_links\<lparr>highQC := 3\<rparr>"
    by (simp add: th_updateHighQC_def) (simp add: links_heap_def zero_qc_def)
  then show ?thesis
    by (simp add: th_processCertificate_def VerifyQuorumSignature_def th_updatePreferredView_def GetBlockByID_def
        links_lookup th_updateHighQC_def two_links_next_def)
qed

lemma two_links_next_simps [simp]:
  "rID two_links_next = ''1''" "rElect two_links_next = StaticE (NewStatic ''2'')" "rBc two_links_next = rBc two_links"
  "rQCs two_links_next = links_heap" "qc_at two_links_next = links_heap" "cur two_links_next = 3"
  "committedBlocks two_links_next = []" "bufferedQCs two_links_next = Map.empty"
  by (simp_all add: two_links_next_def advance_def cur_def GetCurView_def AdvanceView_def NewPacemaker_def qc_at_def
      two_links_def fun_eq_iff)

lemma th_decide_vote_returns:
  assumes "forest_run (forrest (rBc s))" and "bufferedQCs s (bID b) = None" and "rElect s = StaticE (NewStatic l)"
    and "l \<noteq> rID s" and "MakeVote e (bView b) (rID s) (bID b) = retG v"
  shows "\<exists>s' ret. th_decide_vote e s b = retG (s', ret) \<and> committedBlocks s' = committedBlocks s"
proof -
  obtain x where "GetParentBlock (rQCs s) (rBc s) (bID b) = retG x"
    using GetParentBlock_returns [OF assms(1)] by blast
  with assms(2-5) have "\<exists>s' ret. th_decide_vote e s b = retG (s', ret)"
    by (cases x) (auto simp: th_decide_vote_def th_take_bufferedQC_def th_votingRule_def th_vote_def
        Static_FindLeaderFor_def NewStatic_def)
  with th_decide_vote_log [of s e b] show ?thesis by (auto simp: go_all_def same_log_def)
qed

lemma led3_commits:
  "\<exists>s' ret. th_process_one (sample_env 4 True) two_links led3 = retG (s', ret) \<and> committedBlocks s' = [link 1]"
proof -
  let ?s = "two_links_next\<lparr>rBc := (rBc two_links)\<lparr>forrest := links_led\<rparr>\<rparr>"
  have one: "th_process_one (sample_env 4 True) two_links led3 = th_insert_and_vote (sample_env 4 True) two_links_next led3 3"
    using two_links_certificate
    by (simp add: th_process_one_def Let_def Static_IsLeader_def NewStatic_def) (simp add: th_updateHighQC_def)
  obtain bc' cs fs where c: "th_commit ?s led3 3 = retG (?s\<lparr>rBc := bc', committedBlocks := committedBlocks ?s @ cs,
        forkedBlocks := forkedBlocks ?s @ fs\<rparr>, None)"
      "commit_chain (GetVertex links_led) 0 (link 1) cs" "forrest bc' = pruned links_led (Level (link 1))"
    by (rule th_two_chain [of ?s led3 3 "link 2" "link 1"]) (simp_all add: links_led_run links_led_lookup)
  have "commit_chain (GetVertex links_led) 0 (link 1) [link 1]" by (simp add: links_led_lookup)
  with c(2) have cs: "cs = [link 1]" using commit_chain_unique by blast
  let ?t = "?s\<lparr>rBc := bc', committedBlocks := committedBlocks ?s @ cs, forkedBlocks := forkedBlocks ?s @ fs\<rparr>"
  have "forest_run (forrest bc')"
    unfolding c(3) by (rule prune_returns [OF links_led_run(1), of 11 "link 1" links_heap])
      (simp_all add: links_led_lookup links_led_run(2))
  then obtain s' ret where "th_decide_vote (sample_env 4 True) ?t led3 = retG (s', ret)" "committedBlocks s' = committedBlocks ?t"
    using th_decide_vote_returns [of ?t led3 "''2''" "sample_env 4 True"] by auto
  with one c(1) cs led3_add show ?thesis by (simp add: th_insert_and_vote_def AddBlock_def)
qed


section \<open>Runs\<close>

text \<open>
  Over any sequence of blocks, votes and timeouts that returns, a two-chain replica keeps its
  invariant, its view, its lock and the view of its highest certificate never go back, and its
  sequence of committed blocks is only extended.
\<close>
theorem th_run_monotone:
  assumes "chained_wf s" and "list_all (chained_admissible s) evs" and "run_events (th_handle e) s evs = retG s'"
  shows "chained_wf s' \<and> cur s \<le> cur s' \<and> preferredView s \<le> preferredView s' \<and>
     qcView (qc_at s (highQC s)) \<le> qcView (qc_at s' (highQC s')) \<and>
     prefix (committedBlocks s) (committedBlocks s') \<and> lastVotedView s' = lastVotedView s"
  using two_chain.run_ok [OF assms] by (simp add: chained_forward_def step_ok_def extends_def)

lemma th_ProcessLocalTmo_eq:
  assumes "small_view view" and "small_view (view + 1)"
  shows "th_ProcessLocalTmo s view = retG (send (advance s (view + 1))
     (Broadcast (TmoMsg \<lparr>tmoView = view + 1, tmoNodeID = rID s, tmoHighQC = Some (highQC s)\<rparr>)))"
    and "view + 1 < cur (advance s (view + 1))"
proof -
  have "i64 (view + 1 + 1) = view + 1 + 1" using assms(2) by (rule small_view_succ)
  then show c: "view + 1 < cur (advance s (view + 1))"
    by (simp add: cur_def advance_def AdvanceView_def GetCurView_def)
  then have "view + 1 < cur (send (advance s (view + 1)) x)" for x by (simp add: send_def)
  with assms show "th_ProcessLocalTmo s view = retG (send (advance s (view + 1))
     (Broadcast (TmoMsg \<lparr>tmoView = view + 1, tmoNodeID = rID s, tmoHighQC = Some (highQC s)\<rparr>)))"
    by (simp add: th_ProcessLocalTmo_def th_ProcessRemoteTmo_def small_view_succ th_GetHighQC_def Let_def)
      (simp add: advance_def)
qed

theorem th_run_monotone_witness:
  "\<exists>s'. run_events (th_handle (sample_env 4 True)) two_links [OnLocalTmo 2] = retG s' \<and> chained_wf s' \<and> 2 \<le> cur s'"
proof -
  have v: "small_view 2" "small_view (2 + 1)" by (simp_all add: small_view_def is_i64_def)
  then obtain s' where s': "run_events (th_handle (sample_env 4 True)) two_links [OnLocalTmo 2] = retG s'"
    by (simp add: th_ProcessLocalTmo_eq(1))
  have "list_all (chained_admissible two_links) [OnLocalTmo 2]" using v by simp
  from th_run_monotone [OF two_links_wf(1) this s'] s' show ?thesis by auto
qed

section \<open>Where votes and timeouts are lost\<close>

text \<open>
  A local timeout moves the replica two views on and broadcasts a timeout message that the
  replica itself then ignores as stale: its own timeout is never counted.
\<close>
theorem th_local_timeout_not_counted:
  assumes "small_view view" and "small_view (view + 1)"
  shows "\<exists>s' tmo. th_ProcessLocalTmo s view = retG s' \<and> rOutbox s' = rOutbox s @ [Broadcast (TmoMsg tmo)] \<and>
     tmoView tmo = view + 1 \<and> tmoView tmo < cur s' \<and> timeoutController (rPm s') = timeoutController (rPm s)"
proof -
  let ?tmo = "\<lparr>tmoView = view + 1, tmoNodeID = rID s, tmoHighQC = Some (highQC s)\<rparr>"
  have "view + 1 < cur (send (advance s (view + 1)) (Broadcast (TmoMsg ?tmo)))"
    using th_ProcessLocalTmo_eq(2) [OF assms, of s] by (simp add: send_def)
  then show ?thesis
    by (intro exI [of _ "send (advance s (view + 1)) (Broadcast (TmoMsg ?tmo))"] exI [of _ ?tmo])
      (simp add: th_ProcessLocalTmo_eq(1) [OF assms], simp add: send_def advance_def)
qed

theorem th_local_timeout_not_counted_witness:
  "\<exists>s'. th_ProcessLocalTmo two_links 2 = retG s' \<and> timeoutController (rPm s') = timeoutController (rPm two_links)"
  using th_local_timeout_not_counted [of 2 two_links] by (auto simp: small_view_def is_i64_def)

text \<open>
  Making a proposal rewrites the highest certificate in place, for honest leaders too: the
  certificate now claims the view before the current one, whatever view it was built in, for every
  block that shares it.
\<close>
theorem th_proposal_rewrites_certificate:
  assumes "th_MakeProposal e s view payload = retG (s', b)"
  shows "bQC b = Some (highQC s) \<and> bPrevID b = qcBlockID (qc_at s (highQC s)) \<and> bView b = view \<and>
     qc_at s' (highQC s) = (qc_at s (highQC s))\<lparr>qcView := i64 (cur s - 1)\<rparr> \<and>
     (\<forall>r. r \<noteq> highQC s \<longrightarrow> qc_at s' r = qc_at s r) \<and> highQC s' = highQC s \<and> cur s' = cur s"
proof -
  let ?s1 = "s\<lparr>rQCs := (rQCs s)(highQC s := (qc_at s (highQC s))\<lparr>qcView := i64 (cur s - 1)\<rparr>)\<rparr>"
  from assms have "MakeBlock e (rQCs ?s1) view (Some (highQC s)) (qcBlockID (qc_at ?s1 (highQC s))) payload (rID s) = retG b"
      and s': "s' = ?s1"
    by (auto simp: th_MakeProposal_def th_forkChoice_def th_GetHighQC_def Let_def elim!: bindG_RetE)
  from go_allD [OF MakeBlock_fields this(1)] s' show ?thesis by (simp add: qc_at_def cur_def)
qed

theorem th_proposal_rewrites_certificate_witness:
  "\<exists>s' b. th_MakeProposal (sample_env 4 True) (two_links\<lparr>highQC := 3, rPm := AdvanceView (NewPacemaker 4) 8\<rparr>) 9 [] = retG (s', b) \<and>
     qcView (qc_at two_links 3) = 2 \<and> qcView (qc_at s' 3) = 8"
proof -
  let ?s = "two_links\<lparr>highQC := 3, rPm := AdvanceView (NewPacemaker 4) 8\<rparr>"
  have "\<exists>s' b. th_MakeProposal (sample_env 4 True) ?s 9 [] = retG (s', b)"
    by (simp add: th_MakeProposal_def th_forkChoice_def th_GetHighQC_def MakeBlock_def makeID_def Let_def
        sign_block_def blockID_of_def MakeID_def sample_env_def PrivSign_def index_slice_def priv_Sign_def)
  then obtain s' b where b: "th_MakeProposal (sample_env 4 True) ?s 9 [] = retG (s', b)" by blast
  from th_proposal_rewrites_certificate [OF b] have "qc_at s' 3 = (qc_at ?s 3)\<lparr>qcView := i64 (cur ?s - 1)\<rparr>" by simp
  then have "qcView (qc_at s' 3) = 8"
    by (simp add: cur_def GetCurView_def AdvanceView_def NewPacemaker_def i64_def)
  with b show ?thesis by auto
qed

text \<open>
  A block whose certificate is of the view before it is not voted for when the certified block
  does not itself extend a block of the view before: the handler returns as soon as the commit
  rule fails. A leader gives its certificate that view, so this is the fate of the first proposal after
  a view change.
\<close>
theorem th_no_vote_after_gap:
  assumes "AddBlock (rQCs s) (rBc s) b = retG bc'" and "bQC b = Some r" and "2 \<le> qcView (qc_at s r)"
    and "i64 (qcView (qc_at s r) + 1) = bView b"
    and "GetParentBlock (rQCs s) bc' (qcBlockID (qc_at s r)) = retG (Inr p)" and "i64 (bView p + 1) \<noteq> qcView (qc_at s r)"
  shows "th_insert_and_vote e s b r = retG (s\<lparr>rBc := bc'\<rparr>, Some None)"
  using assms by (simp add: th_insert_and_vote_def th_commit_def th_commitRule_def)

theorem th_no_vote_after_gap_witness:
  "\<exists>s'. th_insert_and_vote (sample_env 4 True) (two_links\<lparr>rQCs := links_heap(3 := (links_heap 3)\<lparr>qcView := 7\<rparr>)\<rparr>)
      (led3\<lparr>bView := 8\<rparr>) 3 = retG (s', Some None) \<and> rOutbox s' = []"
proof -
  let ?h = "links_heap(3 := (links_heap 3)\<lparr>qcView := 7\<rparr>)"
  let ?s = "two_links\<lparr>rQCs := ?h\<rparr>" and ?b = "led3\<lparr>bView := 8\<rparr>"
  obtain f where f: "AddVertex ?h links2 ?b = retG f" using AddVertex_returns [of ?b 3] by auto
  let ?bc = "(rBc two_links)\<lparr>forrest := f\<rparr>"
  have l: "GetVertex f i = (if i = 13 then Some ?b else GetVertex links2 i)" for i
    using forest_store.insert_lookup [OF links_inv(2) f, of i] by (simp add: links_lookup)
  have "th_insert_and_vote (sample_env 4 True) ?s ?b 3 = retG (?s\<lparr>rBc := ?bc\<rparr>, Some None)"
    by (rule th_no_vote_after_gap [where p = "link 1"])
      (simp_all add: AddBlock_def f qc_at_def GetParentBlock_def Parent_def l links_lookup i64_def)
  then show ?thesis by auto
qed

section \<open>Fast-HotStuff\<close>

text \<open>
  C26: the Fast-HotStuff replica is the two-chain HotStuff replica: a new replica is the same, every
  event has the same effect and the proposals are the same.
\<close>
theorem fhs_is_tchs:
  "NewFhs e i byz pm elec = NewTchs e i byz pm elec \<and> run_events (f_handle e) s evs = run_events (th_handle e) s evs \<and>
   f_MakeProposal e s view payload = th_MakeProposal e s view payload \<and>
   f_MakePProposal e answers s view = th_MakePProposal e answers s view"
proof -
  have "f_handle e = th_handle e" by (intro ext) (rule f_handle_eq)
  then show ?thesis by (simp add: fhs_tchs)
qed

end
