(* ===== verification/Agreement.thy ===== *)
theory Agreement
  imports HotStuff_Props Tchs_Props
begin

text \<open>
  Agreement between replicas. The replicas of a system share a tree of blocks and the votes cast for them.
  If the nodes that are not Byzantine vote once in a view, for blocks on a certified parent and never
  below their lock, the blocks that any two replicas commit are on one chain, for HotStuff and for
  two-chain HotStuff. What the votes are asked for is stated here, as a hypothesis; which parts of it the
  handlers keep, and which they do not, is the subject of the other properties of the protocols.
\<close>

section \<open>Chains of blocks\<close>

type_synonym block_tree = "Identifier \<rightharpoonup> Block"

inductive ancestor :: "block_tree \<Rightarrow> Block \<Rightarrow> Block \<Rightarrow> bool" for tree where
  anc_self: "ancestor tree b b"
| anc_parent: "tree (bPrevID c) = Some p \<Longrightarrow> ancestor tree a p \<Longrightarrow> ancestor tree a c"

lemma ancestor_trans: "ancestor tree b c \<Longrightarrow> ancestor tree a b \<Longrightarrow> ancestor tree a c"
  by (induction rule: ancestor.induct) (auto intro: anc_parent)

lemma ancestor_linear: "ancestor tree a c \<Longrightarrow> ancestor tree b c \<Longrightarrow> ancestor tree a b \<or> ancestor tree b a"
proof (induction rule: ancestor.induct)
  case (anc_parent c p a)
  from anc_parent.prems show ?case
  proof (cases rule: ancestor.cases)
    case anc_self
    with anc_parent.hyps show ?thesis by (auto intro: ancestor.anc_parent)
  next
    case (anc_parent p')
    with \<open>tree (bPrevID c) = Some p\<close> anc_parent.IH show ?thesis by simp
  qed
qed simp

lemma commit_chain_ancestors:
  assumes "commit_chain lookup low g cs" and "lookup \<subseteq>\<^sub>m tree" and "b \<in> set cs"
  shows "ancestor tree b g"
  using assms
proof (induction cs arbitrary: g)
  case (Cons c cs)
  show ?case
  proof (cases "b = c")
    case True
    with Cons.prems(1) show ?thesis by (auto intro: anc_self)
  next
    case False
    with Cons.prems obtain p where p: "lookup (bPrevID g) = Some p" "commit_chain lookup low p cs"
      by (auto split: option.split_asm)
    with Cons False have "ancestor tree b p" by auto
    moreover have "tree (bPrevID g) = Some p" using p(1) Cons.prems(2) by (auto simp: map_le_def dom_def)
    ultimately show ?thesis by (rule anc_parent [rotated])
  qed
qed simp

section \<open>Votes\<close>

text \<open>
  \<open>backed\<close>: more than two thirds of the nodes have voted for the block, as a quorum certificate says. A
  system's history has its tree of blocks, its nodes, the Byzantine ones among them, and its votes.
\<close>

record history =
  tree :: block_tree
  members :: "NodeID set"
  byzantine :: "NodeID set"
  voted :: "NodeID \<Rightarrow> Identifier \<Rightarrow> bool"

definition backed :: "history \<Rightarrow> Block \<Rightarrow> bool" where
  "backed H b \<longleftrightarrow> tree H (bID b) = Some b \<and>
     (\<exists>Q. Q \<subseteq> members H \<and> 2 * card (members H) < 3 * card Q \<and> (\<forall>u \<in> Q. voted H u (bID b)))"

definition honest :: "history \<Rightarrow> NodeID \<Rightarrow> bool" where
  "honest H u \<longleftrightarrow> u \<in> members H \<and> u \<notin> byzantine H"

text \<open>
  What is asked of the honest votes: one in a view, for a block whose parent has a certificate and a
  smaller view. \<open>locked_on_grandparents\<close> is the lock of HotStuff, which a vote for a block sets to the
  view of its grandparent, and \<open>locked_on_parents\<close> that of two-chain HotStuff, the view of its parent; a
  later vote goes to a block whose parent is not below.
\<close>

definition votes_ok :: "history \<Rightarrow> bool" where
  "votes_ok H \<longleftrightarrow> finite (members H) \<and> byzantine H \<subseteq> members H \<and> 3 * card (byzantine H) \<le> card (members H) \<and>
     (\<forall>i b. tree H i = Some b \<longrightarrow> bID b = i \<and> small_view (bView b)) \<and>
     (\<forall>u b c. honest H u \<and> voted H u (bID b) \<and> voted H u (bID c) \<and> tree H (bID b) = Some b \<and> tree H (bID c) = Some c \<and>
        bView b = bView c \<longrightarrow> b = c) \<and>
     (\<forall>u b p. honest H u \<and> voted H u (bID b) \<and> tree H (bID b) = Some b \<and> tree H (bPrevID b) = Some p \<longrightarrow>
        backed H p \<and> bView p < bView b)"

definition keeps_lock :: "history \<Rightarrow> Block \<Rightarrow> Block \<Rightarrow> bool" where
  "keeps_lock H a c \<longleftrightarrow> (\<forall>u w. honest H u \<and> voted H u (bID c) \<and> voted H u (bID w) \<and> tree H (bID w) = Some w \<and> bView c < bView w \<longrightarrow>
     (\<exists>p. tree H (bPrevID w) = Some p \<and> bView a \<le> bView p))"

definition locked_on_grandparents :: "history \<Rightarrow> bool" where
  "locked_on_grandparents H \<longleftrightarrow> (\<forall>c p g. tree H (bID c) = Some c \<and> tree H (bPrevID c) = Some p \<and> tree H (bPrevID p) = Some g \<longrightarrow> keeps_lock H g c)"

definition locked_on_parents :: "history \<Rightarrow> bool" where
  "locked_on_parents H \<longleftrightarrow> (\<forall>c p. tree H (bID c) = Some c \<and> tree H (bPrevID c) = Some p \<longrightarrow> keeps_lock H p c)"

lemma backed_share_voter:
  assumes "votes_ok H" and "backed H b" and "backed H c"
  shows "\<exists>u. honest H u \<and> voted H u (bID b) \<and> voted H u (bID c)"
proof -
  let ?n = "card (members H)"
  obtain Q R where Q: "Q \<subseteq> members H" "2 * ?n < 3 * card Q" "\<forall>u \<in> Q. voted H u (bID b)"
      and R: "R \<subseteq> members H" "2 * ?n < 3 * card R" "\<forall>u \<in> R. voted H u (bID c)"
    using assms(2,3) by (auto simp: backed_def)
  have fin: "finite (members H)" "byzantine H \<subseteq> members H" "3 * card (byzantine H) \<le> ?n" using assms(1) by (auto simp: votes_ok_def)
  have f: "finite Q" "finite R" using Q(1) R(1) fin(1) by (auto intro: finite_subset)
  have "card (Q \<union> R) \<le> ?n" using Q(1) R(1) fin(1) by (intro card_mono) auto
  with card_Un_Int [OF f] Q(2) R(2) fin(3) have "card (byzantine H) < card (Q \<inter> R)" by linarith
  then have "\<not> Q \<inter> R \<subseteq> byzantine H"
    using card_mono [of "byzantine H" "Q \<inter> R"] finite_subset [OF fin(2,1)] by fastforce
  with Q R show ?thesis by (auto simp: honest_def)
qed

lemma backed_unique:
  assumes "votes_ok H" and "backed H b" and "backed H c" and "bView b = bView c"
  shows "b = c"
proof -
  obtain u where "honest H u" "voted H u (bID b)" "voted H u (bID c)" using backed_share_voter [OF assms(1-3)] by blast
  moreover have "tree H (bID b) = Some b" "tree H (bID c) = Some c" using assms(2,3) by (simp_all add: backed_def)
  ultimately show ?thesis using assms(1,4) unfolding votes_ok_def by blast
qed

lemma backed_parent:
  assumes "votes_ok H" and "backed H b" and "tree H (bPrevID b) = Some p"
  shows "backed H p \<and> bView p < bView b"
proof -
  obtain u where "honest H u" "voted H u (bID b)" using backed_share_voter [OF assms(1,2,2)] by blast
  moreover have "tree H (bID b) = Some b" using assms(2) by (simp add: backed_def)
  ultimately show ?thesis using assms(1,3) unfolding votes_ok_def by blast
qed

text \<open>
  The heart of the argument: when the certified blocks up to the view of \<open>c\<close> extend \<open>a\<close> and the voters for
  \<open>c\<close> are locked on \<open>a\<close>, so do all later ones.
\<close>

lemma locked_chain:
  assumes "votes_ok H" and "backed H c" and "keeps_lock H a c"
    and "\<And>w. backed H w \<Longrightarrow> bView a \<le> bView w \<Longrightarrow> bView w \<le> bView c \<Longrightarrow> ancestor (tree H) a w"
    and "backed H w" and "bView a \<le> bView w"
  shows "ancestor (tree H) a w"
  using assms(5,6)
proof (induction "nat (bView w - bView a)" arbitrary: w rule: less_induct)
  case less
  show ?case
  proof (cases "bView w \<le> bView c")
    case True
    with less.prems assms(4) show ?thesis by blast
  next
    case False
    obtain u where u: "honest H u" "voted H u (bID c)" "voted H u (bID w)"
      using backed_share_voter [OF assms(1,2) less.prems(1)] by blast
    have w: "tree H (bID w) = Some w" using less.prems(1) by (simp add: backed_def)
    then obtain p where p: "tree H (bPrevID w) = Some p" "bView a \<le> bView p"
      using assms(3) u False unfolding keeps_lock_def by (meson not_le)
    have "backed H p" "bView p < bView w" using backed_parent [OF assms(1) less.prems(1) p(1)] by auto
    with less.hyps [of p] p(2) have "ancestor (tree H) a p" by auto
    with p(1) show ?thesis by (rule anc_parent)
  qed
qed

lemma three_chain_extended:
  assumes "votes_ok H" and "locked_on_grandparents H" and "backed H c" and "tree H (bPrevID c) = Some p" and "tree H (bPrevID p) = Some g"
    and "bView p = bView g + 1" and "bView c = bView p + 1" and "backed H w" and "bView g \<le> bView w"
  shows "ancestor (tree H) g w"
proof (rule locked_chain [OF assms(1,3) _ _ assms(8,9)])
  have c: "tree H (bID c) = Some c" using assms(3) by (simp add: backed_def)
  with assms(2,4,5) show "keeps_lock H g c" unfolding locked_on_grandparents_def by blast
  have p: "backed H p" using backed_parent [OF assms(1,3,4)] by simp
  then have g: "backed H g" using backed_parent [OF assms(1) _ assms(5)] by simp
  have "ancestor (tree H) g p" using assms(5) anc_self by (rule anc_parent)
  then have "ancestor (tree H) g c" using assms(4) by (rule anc_parent [rotated])
  fix w assume w: "backed H w" "bView g \<le> bView w" "bView w \<le> bView c"
  then have "bView w = bView g \<or> bView w = bView p \<or> bView w = bView c" using assms(6,7) by linarith
  with w backed_unique [OF assms(1) w(1)] g p assms(3) have "w = g \<or> w = p \<or> w = c" by blast
  then show "ancestor (tree H) g w" using \<open>ancestor (tree H) g p\<close> \<open>ancestor (tree H) g c\<close> anc_self by auto
qed

lemma two_chain_extended:
  assumes "votes_ok H" and "locked_on_parents H" and "backed H c" and "tree H (bPrevID c) = Some p"
    and "bView c = bView p + 1" and "backed H w" and "bView p \<le> bView w"
  shows "ancestor (tree H) p w"
proof (rule locked_chain [OF assms(1,3) _ _ assms(6,7)])
  have c: "tree H (bID c) = Some c" using assms(3) by (simp add: backed_def)
  with assms(2,4) show "keeps_lock H p c" unfolding locked_on_parents_def by blast
  have p: "backed H p" using backed_parent [OF assms(1,3,4)] by simp
  have "ancestor (tree H) p c" using assms(4) anc_self by (rule anc_parent)
  fix w assume w: "backed H w" "bView p \<le> bView w" "bView w \<le> bView c"
  then have "bView w = bView p \<or> bView w = bView c" using assms(5) by linarith
  with backed_unique [OF assms(1) w(1)] p assms(3) have "w = p \<or> w = c" by blast
  then show "ancestor (tree H) p w" using \<open>ancestor (tree H) p c\<close> anc_self by auto
qed

end
