(* ===== verification/Agreement_Chained.thy ===== *)
theory Agreement_Chained
  imports Agreement
begin

text \<open>
  Agreement of the chained protocols, from the votes to the committed logs: the invariant that ties the
  state of a replica to the history of its system (its blocks are blocks of the tree, its certificates and
  the votes it has counted are backed by votes that were cast), kept by every handler of HotStuff and of
  two-chain HotStuff, and the theorem that the logs of any two replicas are on one chain.
\<close>

section \<open>A replica and its history\<close>

definition qc_genuine :: "history \<Rightarrow> QC \<Rightarrow> bool" where
  "qc_genuine H q \<longleftrightarrow> (\<forall>c. tree H (qcBlockID q) = Some c \<longrightarrow> backed H c \<and> qcView q = bView c)"

definition vote_genuine :: "history \<Rightarrow> Vote \<Rightarrow> bool" where
  "vote_genuine H v \<longleftrightarrow> vVoter v \<in> members H \<and> voted H (vVoter v) (vBlockID v) \<and>
     (\<forall>c. tree H (vBlockID v) = Some c \<longrightarrow> vView v = bView c)"

definition block_in :: "history \<Rightarrow> Block \<Rightarrow> bool" where
  "block_in H b \<longleftrightarrow> tree H (bID b) = Some b"

definition chain_in :: "history \<Rightarrow> BlockChain \<Rightarrow> bool" where
  "chain_in H c \<longleftrightarrow> GetVertex (forrest c) \<subseteq>\<^sub>m tree H \<and> qTotal (quorum c) = card (members H) \<and>
     (\<forall>i u v. (u, v) \<in> set (votes_of (quorum c) i) \<longrightarrow> vote_genuine H v)"

definition agrees :: "(Block \<Rightarrow> bool) \<Rightarrow> history \<Rightarrow> chained \<Rightarrow> bool" where
  "agrees final H s \<longleftrightarrow> chained_wf s \<and> rID s \<in> members H \<and> chain_in H (rBc s) \<and> (\<forall>r < rNextQC s. qc_genuine H (qc_at s r)) \<and>
     (\<forall>v b. bufferedBlocks s v = Some b \<longrightarrow> block_in H b) \<and> (\<forall>b \<in> set (committedBlocks s). final b)"

lemma agrees_wf: "agrees final H s \<Longrightarrow> chained_wf s"
  by (simp add: agrees_def)

lemma agrees_member: "agrees final H s \<Longrightarrow> rID s \<in> members H"
  by (simp add: agrees_def)

lemma agrees_chain: "agrees final H s \<Longrightarrow> chain_in H (rBc s)"
  by (simp add: agrees_def)

lemma agrees_qc: "agrees final H s \<Longrightarrow> r < rNextQC s \<Longrightarrow> qc_genuine H (qc_at s r)"
  by (simp add: agrees_def)

lemma agrees_step:
  assumes "agrees final H s" and "step_ok s s'" and "chain_in H (rBc s')" and "rNextQC s' = rNextQC s"
    and "bufferedBlocks s' \<subseteq>\<^sub>m bufferedBlocks s" and "\<And>b. b \<in> set (committedBlocks s') \<Longrightarrow> b \<in> set (committedBlocks s) \<or> final b"
  shows "agrees final H s'"
proof -
  have "qc_at s' r = qc_at s r" if "r < rNextQC s" for r using step_ok_ref [OF assms(2) that] by simp
  moreover have "bufferedBlocks s v = Some b" if "bufferedBlocks s' v = Some b" for v b
    using that assms(5) by (auto simp: map_le_def dom_def)
  ultimately show ?thesis
    using assms(1,3,4,6) step_ok_wf [OF assms(2)] step_ok_fields [OF assms(2)] unfolding agrees_def by fastforce
qed

lemma agrees_keeps:
  assumes "agrees final H s" and "step_ok s s'" and "rBc s' = rBc s" and "rNextQC s' = rNextQC s"
    and "bufferedBlocks s' = bufferedBlocks s" and "committedBlocks s' = committedBlocks s"
  shows "agrees final H s'"
  using assms(3-6) by (intro agrees_step [OF assms(1,2)]) (simp_all add: agrees_chain [OF assms(1)])

lemma agrees_updates:
  assumes "agrees final H s"
  shows "small_view v \<Longrightarrow> agrees final H (advance s v)"
    and "agrees final H (send s p)"
    and "preferredView s \<le> w \<Longrightarrow> agrees final H (s\<lparr>preferredView := w\<rparr>)"
    and "r < rNextQC s \<Longrightarrow> agrees final H (s\<lparr>bufferedQCs := (bufferedQCs s)(i \<mapsto> r)\<rparr>)"
    and "agrees final H (s\<lparr>bufferedQCs := (bufferedQCs s)(i := None)\<rparr>)"
    and "curView pm = curView (rPm s) \<Longrightarrow> agrees final H (s\<lparr>rPm := pm\<rparr>)"
    and "agrees final H (s\<lparr>bufferedBlocks := (bufferedBlocks s)(v := None)\<rparr>)"
proof -
  note wf = agrees_wf [OF assms]
  show "agrees final H (advance s v)" if "small_view v"
    by (rule agrees_keeps [OF assms advance_ok [OF wf that]]) (simp_all add: advance_def)
  show "agrees final H (send s p)"
    by (rule agrees_keeps [OF assms send_ok [OF wf]]) (simp_all add: send_def)
  show "agrees final H (s\<lparr>preferredView := w\<rparr>)" if "preferredView s \<le> w"
    by (rule agrees_keeps [OF assms preferred_ok [OF wf that]]) simp_all
  show "agrees final H (s\<lparr>bufferedQCs := (bufferedQCs s)(i \<mapsto> r)\<rparr>)" if "r < rNextQC s"
    by (rule agrees_keeps [OF assms bufferQC_ok [OF wf that]]) simp_all
  show "agrees final H (s\<lparr>bufferedQCs := (bufferedQCs s)(i := None)\<rparr>)"
    by (rule agrees_keeps [OF assms dropQC_ok [OF wf]]) simp_all
  show "agrees final H (s\<lparr>rPm := pm\<rparr>)" if "curView pm = curView (rPm s)"
    by (rule agrees_keeps [OF assms pm_ok [OF wf that]]) simp_all
  show "agrees final H (s\<lparr>bufferedBlocks := (bufferedBlocks s)(v := None)\<rparr>)"
    by (rule agrees_step [OF assms dropBlock_ok [OF wf]]) (simp_all add: agrees_chain [OF assms] map_le_def)
qed

lemma agrees_highQC:
  "agrees final H s \<Longrightarrow> r < rNextQC s \<Longrightarrow> qcView (qc_at s (highQC s)) \<le> qcView (qc_at s r) \<Longrightarrow>
     agrees final H (s\<lparr>highQC := r\<rparr>)"
  by (rule agrees_keeps [OF _ highQC_ok [OF agrees_wf]]) simp_all

lemma agrees_buffer:
  assumes "agrees final H s" and "block_ok s b" and "i64 (cur s + 1) < bView b" and "block_in H b"
  shows "agrees final H (s\<lparr>bufferedBlocks := (bufferedBlocks s)(i64 (bView b - 1) \<mapsto> b)\<rparr>)"
  using assms(1,4) step_ok_wf [OF bufferBlock_ok [OF agrees_wf [OF assms(1)] assms(2,3)]]
  by (simp add: agrees_def)

lemma agrees_alloc:
  assumes "agrees final H s" and "small_view (qcView q)" and "qc_genuine H q" and "alloc_qc s q = (s', r)"
  shows "agrees final H s'" and "r < rNextQC s'"
proof -
  note a = alloc_ok [OF agrees_wf [OF assms(1)] assms(2,4)]
  have s': "s' = s\<lparr>rQCs := (rQCs s)(rNextQC s := q), rNextQC := Suc (rNextQC s)\<rparr>" and "r = rNextQC s"
    using assms(4) by (auto simp: alloc_qc_def)
  then show "r < rNextQC s'" by simp
  show "agrees final H s'"
    using assms(1,3) step_ok_wf [OF a(1)] by (auto simp: agrees_def s' qc_at_def less_Suc_eq)
qed

lemma agrees_bc: "agrees final H s \<Longrightarrow> bc_ok c \<Longrightarrow> chain_in H c \<Longrightarrow> agrees final H (s\<lparr>rBc := c\<rparr>)"
  by (rule agrees_step [OF _ bc_update_ok [OF agrees_wf]]) simp_all

section \<open>The blockchain\<close>

lemma chain_in_lookup: "chain_in H c \<Longrightarrow> GetVertex (forrest c) i = Some b \<Longrightarrow> tree H i = Some b"
  by (auto simp: chain_in_def map_le_def dom_def)

lemma AddBlock_in:
  assumes "bc_ok c" and "chain_in H c" and "block_in H b"
  shows "go_all (chain_in H) (AddBlock h c b)"
proof (rule go_allI)
  fix c' assume "AddBlock h c b = retG c'"
  then obtain f where f: "AddVertex h (forrest c) b = retG f" "c' = c\<lparr>forrest := f\<rparr>"
    by (auto simp: AddBlock_def elim!: bindG_RetE)
  have "tree H i = Some a" if "GetVertex f i = Some a" for i a
    using that forest_store.insert_lookup [OF _ f(1), of i] assms chain_in_lookup [OF assms(2), of i]
    by (cases "GetVertex (forrest c) i") (auto simp: bc_ok_def block_in_def split: if_split_asm)
  with assms(2) show "chain_in H c'" by (auto simp: chain_in_def f(2) map_le_def)
qed

lemma CommitBlock_in:
  assumes "bc_ok c" and "chain_in H c"
  shows "go_all (\<lambda>(c', _). chain_in H c') (CommitBlock h c i view)"
proof (rule go_allI, clarify)
  fix c' res assume r: "CommitBlock h c i view = retG (c', res)"
  show "chain_in H c'"
  proof (cases "GetVertex (forrest c) i")
    case None
    with r assms show ?thesis by (auto simp: CommitBlock_def)
  next
    case (Some b)
    from r obtain c1 cs f ans where l: "commit_loop view (c\<lparr>highestComitted := bView b\<rparr>) b [] = retG (c1, cs)"
      and p: "PruneUpToLevel h (forrest c1) (Level b) = retG (f, ans)"
      and x: "forrest c' = f" "quorum c' = quorum c1"
      unfolding CommitBlock_def Some option.case Level_def [symmetric]
      by (auto elim!: bindG_RetE split: sum.split_asm)
    from commit_loop_correct [OF l] obtain ds where c1: "c1 = commit_all view (c\<lparr>highestComitted := bView b\<rparr>) ds" by auto
    have "tree H j = Some a" if "GetVertex f j = Some a" for j a
      using that forest_store.prune_lookup [OF _ p] assms chain_in_lookup [OF assms(2)] by (auto simp: c1 bc_ok_def)
    moreover have "qTotal (quorum (commit_all view d ds)) = qTotal (quorum d)" for d
      by (induction ds arbitrary: d) (simp_all add: commit_one_def)
    moreover have "votes_of (quorum c1) j = (if j \<in> bID ` set ds then [] else votes_of (quorum c) j)" for j
      by (simp add: c1 votes_of_def commit_all_votes)
    ultimately show ?thesis
      using assms(2) x by (auto simp: chain_in_def c1 map_le_def split: if_split_asm)
  qed
qed

lemma AddVote_in:
  assumes "votes_ok H" and "bc_ok c" and "chain_in H c" and "vote_genuine H vote"
    and "AddVote ord c vote = (c', built, qc)"
  shows "chain_in H c'" and "built \<Longrightarrow> qc = Some q \<Longrightarrow> qc_genuine H (q\<lparr>qcLeader := l\<rparr>)"
proof -
  obtain q' where q': "Quorum_Add ord (quorum c) vote = (q', built, qc)" "c' = c\<lparr>quorum := q'\<rparr>"
    using assms(5) by (auto simp: AddVote_def split: prod.split_asm)
  have add: "q' = fst (counted_add (quorum c) vote)" "built = snd (counted_add (quorum c) vote)"
    using Quorum_Add_ord [of ord "quorum c" vote] q'(1) by simp_all
  have wf: "quorum_wf (quorum c)" "quorum_wf q'" using assms(2) quorum_wf_counted_add add by (auto simp: bc_ok_def)
  have gen: "vote_genuine H v" if "(u, v) \<in> set (votes_of q' i)" for u v i
  proof -
    have "votes_of q' i = votes_of (quorum c) i \<or> votes_of q' i = AList.update (vVoter vote) vote (votes_of (quorum c) i)"
      unfolding add using votes.add_other [of i vote "quorum c"] votes.add_full [of "quorum c" vote] votes.add_entry [of "quorum c" vote]
      by (metis fst_conv)
    then have "(u, v) \<in> set (votes_of (quorum c) i) \<or> v = vote"
      using that set_update_alist [OF quorum_wf_distinct [OF wf(1)], of "vVoter vote" vote i] by auto
    with assms(3,4) show ?thesis by (auto simp: chain_in_def)
  qed
  then show "chain_in H c'"
    using assms(3) votes.total_add [of "quorum c" vote] by (auto simp: chain_in_def q'(2) add)
  assume b: "built" "qc = Some q"
  show "qc_genuine H (q\<lparr>qcLeader := l\<rparr>)"
    unfolding qc_genuine_def
  proof (intro allI impI)
    fix b assume t: "tree H (qcBlockID (q\<lparr>qcLeader := l\<rparr>)) = Some b"
    have q: "qcView q = vView vote" "qcBlockID q = vBlockID vote" using AddVote_view [OF assms(5) [unfolded b(2)]] by simp_all
    let ?Q = "fst ` set (votes_of q' (vBlockID vote))"
    have id: "bID b = vBlockID vote" using t q(2) assms(1) by (auto simp: votes_ok_def)
    have "u \<in> members H \<and> voted H u (vBlockID vote)" if "u \<in> ?Q" for u
      using that gen quorum_wf_entry [OF wf(2)] by (fastforce simp: vote_genuine_def)
    moreover have "2 * card (members H) < 3 * card ?Q"
      using votes.built_quorum [OF wf(1), of vote] b(1) assms(3) by (simp add: add chain_in_def)
    ultimately have "backed H b" using t q id unfolding backed_def by (intro conjI exI [of _ ?Q]) auto
    then show "backed H b \<and> qcView (q\<lparr>qcLeader := l\<rparr>) = bView b" using t q assms(4) by (simp add: vote_genuine_def)
  qed
qed

lemma do_commit_agrees:
  assumes "agrees final H s" and "GetVertex (forrest (rBc s)) (bID g) = Some g"
    and "\<And>b. ancestor (tree H) b g \<Longrightarrow> final b"
  shows "go_all (\<lambda>(s', _). agrees final H s') (do_commit s g)"
proof (rule go_allI, clarify)
  fix s' err assume c: "do_commit s g = retG (s', err)"
  have sub: "GetVertex (forrest (rBc s)) \<subseteq>\<^sub>m tree H" using agrees_chain [OF assms(1)] by (simp add: chain_in_def)
  from c obtain bc' res where r: "CommitBlock (rQCs s) (rBc s) (bID g) (cur s) = retG (bc', res)"
      and s': "rBc s' = bc'" "rNextQC s' = rNextQC s" "bufferedBlocks s' = bufferedBlocks s"
    by (auto simp: do_commit_def elim!: bindG_RetE split: sum.split_asm)
  have "b \<in> set (committedBlocks s) \<or> final b" if "b \<in> set (committedBlocks s')" for b
  proof (cases "committedBlocks s' = committedBlocks s")
    case False
    from do_commit_Ret [OF c False] assms(2) obtain cs where
        "committedBlocks s' = committedBlocks s @ cs"
        "commit_chain (GetVertex (forrest (rBc s))) (LowestLevel (forrest (rBc s))) g cs" by auto
    with that commit_chain_ancestors [OF _ sub] assms(3) show ?thesis by auto
  qed (use that in simp)
  moreover have "chain_in H bc'"
    using go_allD [OF CommitBlock_in r] agrees_chain [OF assms(1)] chained_wf_bc [OF agrees_wf [OF assms(1)]] by simp
  moreover have "step_ok s s'" using go_allD [OF do_commit_ok [OF agrees_wf [OF assms(1)]] c] by simp
  ultimately show "agrees final H s'" by (intro agrees_step [OF assms(1)]) (simp_all add: s')
qed


section \<open>What the handlers share\<close>

text \<open>The promise of \<open>processCertificate\<close>, and what the handlers of votes and blocks build on it.\<close>

locale agreeing_certifier = certifier +
  fixes final :: "history \<Rightarrow> Block \<Rightarrow> bool"
  assumes certificate_agrees: "votes_ok H \<Longrightarrow> agrees (final H) H s \<Longrightarrow> r < rNextQC s \<Longrightarrow>
      go_all (agrees (final H) H) (certificate s (Some r))"
begin

lemma counted_vote_agrees:
  assumes "votes_ok H" and "agrees (final H) H s" and "small_view (vView vote)" and "vote_genuine H vote"
  shows "go_all (agrees (final H) H) (case AddVote ord (rBc s) vote of (bc', isBuilt, qc) \<Rightarrow>
      let s1 = s\<lparr>rBc := bc'\<rparr> in
      if \<not> isBuilt then retG s1
      else case qc of
        None \<Rightarrow> panicG NilDereference
      | Some q \<Rightarrow>
          (case alloc_qc s1 (q\<lparr>qcLeader := rID s\<rparr>) of
             (s2, r) \<Rightarrow>
               (case GetBlockByID (rBc s2) (qcBlockID q) of
                  Inl err \<Rightarrow> retG (s2\<lparr>bufferedQCs := (bufferedQCs s2)(qcBlockID q \<mapsto> r)\<rparr>)
                | Inr _ \<Rightarrow> certificate s2 (Some r))))"
proof -
  obtain c' built qc where av: "AddVote ord (rBc s) vote = (c', built, qc)" by (metis prod_cases3)
  note bc = chained_wf_bc [OF agrees_wf [OF assms(2)]]
  note add = AddVote_in [OF assms(1) bc agrees_chain [OF assms(2)] assms(4) av]
  have s1: "agrees (final H) H (s\<lparr>rBc := c'\<rparr>)"
    using assms(2) AddVote_ok [OF bc av] add(1) by (rule agrees_bc)
  have "go_all (agrees (final H) H) (case alloc_qc (s\<lparr>rBc := c'\<rparr>) (q\<lparr>qcLeader := rID s\<rparr>) of (s2, r) \<Rightarrow>
      (case GetBlockByID (rBc s2) (qcBlockID q) of
         Inl err \<Rightarrow> retG (s2\<lparr>bufferedQCs := (bufferedQCs s2)(qcBlockID q \<mapsto> r)\<rparr>)
       | Inr _ \<Rightarrow> certificate s2 (Some r)))" if b: "built" "qc = Some q" for q
  proof -
    obtain s2 r where al: "alloc_qc (s\<lparr>rBc := c'\<rparr>) (q\<lparr>qcLeader := rID s\<rparr>) = (s2, r)" by fastforce
    have "small_view (qcView (q\<lparr>qcLeader := rID s\<rparr>))" using AddVote_view [OF av [unfolded b(2)]] assms(3) by simp
    note a = agrees_alloc [OF s1 this add(2) [OF b] al]
    show ?thesis
      using certificate_agrees [OF assms(1) a] agrees_updates(4) [OF a] by (simp add: al split: sum.split)
  qed
  with s1 show ?thesis by (simp add: av Let_def split: option.split)
qed

lemma taken_certificate_agrees:
  assumes "votes_ok H" and "agrees (final H) H s"
  shows "go_all (agrees (final H) H) (case bufferedQCs s i of
        None \<Rightarrow> retG s
      | Some r \<Rightarrow>
          bindG (certificate s (Some r)) (\<lambda>s1. retG (s1\<lparr>bufferedQCs := (bufferedQCs s1)(i := None)\<rparr>)))"
proof (cases "bufferedQCs s i")
  case (Some r)
  then have "r < rNextQC s" using agrees_wf [OF assms(2)] by (auto simp: chained_wf_def)
  from certificate_agrees [OF assms this] show ?thesis
    unfolding Some option.case by (rule go_all_bind) (simp add: agrees_updates(5))
qed (use assms in simp)

end

locale agreeing_counter = vote_counter +
  fixes final :: "history \<Rightarrow> Block \<Rightarrow> bool"
  assumes count_agrees: "votes_ok H \<Longrightarrow> agrees (final H) H s \<Longrightarrow> small_view (vView vote) \<Longrightarrow> vote_genuine H vote \<Longrightarrow>
      go_all (agrees (final H) H) (count s vote)"
begin

lemma cast_vote_agrees:
  assumes "votes_ok H" and "agrees (final H) H s" and "small_view (bView b)" and "block_in H b"
    and "voted H (rID s) (bID b)"
  shows "go_all (agrees (final H) H) (bindG (MakeVote e (bView b) (rID s) (bID b)) (\<lambda>vote.
     bindG (FindLeaderFor (rElect s) (i64 (bView b + 1))) (\<lambda>voteAggregator.
       if voteAggregator = rID s then count s vote
       else retG (send s (SendTo voteAggregator (VoteMsg vote))))))"
proof -
  have "go_all (\<lambda>vote :: Vote. vView vote = bView b \<and> vVoter vote = rID s \<and> vBlockID vote = bID b) (MakeVote e (bView b) (rID s) (bID b))"
    by (auto simp: MakeVote_def split: sum.splits intro!: go_all_bind_any)
  then show ?thesis
  proof (rule go_all_bind)
    fix vote :: Vote assume v: "vView vote = bView b \<and> vVoter vote = rID s \<and> vBlockID vote = bID b"
    then have "vote_genuine H vote"
      using assms(4,5) agrees_member [OF assms(2)] by (simp add: vote_genuine_def block_in_def)
    with v assms count_agrees [OF assms(1,2)]
    show "go_all (agrees (final H) H) (bindG (FindLeaderFor (rElect s) (i64 (bView b + 1))) (\<lambda>voteAggregator.
       if voteAggregator = rID s then count s vote else retG (send s (SendTo voteAggregator (VoteMsg vote)))))"
      by (intro go_all_bind_any) (simp add: agrees_updates(2))
  qed
qed

end

text \<open>
  The handling of a block and of the buffered blocks that follow it, step by step, with the blocks voted
  for: \<open>one\<close> is the handler up to the look at the buffered blocks, which it reaches after a vote, and \<open>after\<close>
  what is done when the handling of the buffered block returns.
\<close>

inductive block_trace :: "(chained \<Rightarrow> Block \<Rightarrow> (chained \<times> go_error option option) go) \<Rightarrow> (chained \<Rightarrow> View \<Rightarrow> chained) \<Rightarrow>
    chained \<Rightarrow> Block \<Rightarrow> Block list \<Rightarrow> chained \<Rightarrow> bool" for one after where
  trace_stop: "one s b = retG (s1, Some err) \<Longrightarrow> block_trace one after s b [] s1"
| trace_last: "one s b = retG (s1, None) \<Longrightarrow> bufferedBlocks s1 (bView b) = None \<Longrightarrow> block_trace one after s b [b] s1"
| trace_next: "one s b = retG (s1, None) \<Longrightarrow> bufferedBlocks s1 (bView b) = Some c \<Longrightarrow>
    block_trace one after s1 c vs s2 \<Longrightarrow> block_trace one after s b (b # vs) (after s2 (bView b))"

locale agreeing_block_handler =
  fixes one :: "chained \<Rightarrow> Block \<Rightarrow> (chained \<times> go_error option option) go"
    and after :: "chained \<Rightarrow> View \<Rightarrow> chained"
    and final :: "history \<Rightarrow> Block \<Rightarrow> bool"
  assumes one_ok: "chained_wf s \<Longrightarrow> block_ok s b \<Longrightarrow> go_all (\<lambda>(s', _). step_ok s s') (one s b)"
    and one_agrees: "votes_ok H \<Longrightarrow> agrees (final H) H s \<Longrightarrow> block_ok s b \<Longrightarrow> block_in H b \<Longrightarrow>
      go_all (\<lambda>(s', ret). (ret = None \<longrightarrow> voted H (rID s) (bID b)) \<longrightarrow> agrees (final H) H s') (one s b)"
    and after_agrees: "agrees (final H) H s \<Longrightarrow> agrees (final H) H (after s v)"
begin

lemma trace_agrees:
  assumes "block_trace one after s b vs s'" and "votes_ok H" and "agrees (final H) H s" and "block_ok s b" and "block_in H b"
    and "\<forall>v \<in> set vs. voted H (rID s) (bID v)"
  shows "agrees (final H) H s'"
  using assms
proof (induction rule: block_trace.induct)
  case (trace_stop s b s1 err)
  show ?case using go_allD [OF one_agrees [OF trace_stop.prems(1-4)] trace_stop.hyps(1)] by simp
next
  case (trace_last s b s1)
  show ?case using go_allD [OF one_agrees [OF trace_last.prems(1-4)] trace_last.hyps(1)] trace_last.prems(5) by simp
next
  case (trace_next s b s1 c vs s2)
  have s1: "step_ok s s1" using go_allD [OF one_ok [OF agrees_wf] trace_next.hyps(1)] trace_next.prems by simp
  have a: "agrees (final H) H s1"
    using go_allD [OF one_agrees [OF trace_next.prems(1-4)] trace_next.hyps(1)] trace_next.prems(5) by simp
  have "block_ok s1 c" "block_in H c"
    using a trace_next.hyps(2) by (auto simp: agrees_def chained_wf_def)
  with trace_next.IH [OF trace_next.prems(1) a] trace_next.prems(5) step_ok_fields [OF s1] show ?case
    by (simp add: after_agrees)
qed

end

section \<open>Systems\<close>

text \<open>
  A replica's run in a system with the history \<open>H\<close>. The blocks it receives are blocks of the tree and its
  votes are recorded; a vote with a good signature, and a certificate that comes with a message, are
  backed by votes that were cast.
\<close>

inductive genuine_run :: "history \<Rightarrow> env \<Rightarrow> (chained \<Rightarrow> event \<Rightarrow> chained go) \<Rightarrow>
    (chained \<Rightarrow> Block \<Rightarrow> Block list \<Rightarrow> chained \<Rightarrow> bool) \<Rightarrow> chained \<Rightarrow> chained \<Rightarrow> bool" for H e handle trace where
  run_start: "genuine_run H e handle trace s s"
| run_block: "genuine_run H e handle trace s s1 \<Longrightarrow> block_ok s1 b \<Longrightarrow> block_in H b \<Longrightarrow>
    handle s1 (OnBlock b) = retG s2 \<Longrightarrow> trace s1 b vs s2 \<Longrightarrow> \<forall>v \<in> set vs. voted H (rID s1) (bID v) \<Longrightarrow>
    genuine_run H e handle trace s s2"
| run_vote: "genuine_run H e handle trace s s1 \<Longrightarrow> small_view (vView v) \<Longrightarrow>
    vVoter v = rID s1 \<or> PubVerify e (vSig v) (IDToByte (vBlockID v)) (vVoter v) = retG (True, None) \<longrightarrow> vote_genuine H v \<Longrightarrow>
    handle s1 (OnVote v) = retG s2 \<Longrightarrow> genuine_run H e handle trace s s2"
| run_remote_timeout: "genuine_run H e handle trace s s1 \<Longrightarrow> chained_admissible s1 (OnRemoteTmo t) \<Longrightarrow>
    handle s1 (OnRemoteTmo t) = retG s2 \<Longrightarrow> genuine_run H e handle trace s s2"
| run_local_timeout: "genuine_run H e handle trace s s1 \<Longrightarrow> chained_admissible s1 (OnLocalTmo w) \<Longrightarrow>
    handle s1 (OnLocalTmo w) = retG s2 \<Longrightarrow> genuine_run H e handle trace s s2"
| run_certificate: "genuine_run H e handle trace s s1 \<Longrightarrow> small_view (qcView q) \<Longrightarrow> qc_genuine H q \<Longrightarrow>
    genuine_run H e handle trace s (fst (alloc_qc s1 q))"

locale agreeing_protocol =
  fixes e :: env
    and handle :: "chained \<Rightarrow> event \<Rightarrow> chained go"
    and trace :: "chained \<Rightarrow> Block \<Rightarrow> Block list \<Rightarrow> chained \<Rightarrow> bool"
    and final :: "history \<Rightarrow> Block \<Rightarrow> bool"
    and locked :: "history \<Rightarrow> bool"
  assumes final_linear: "votes_ok H \<Longrightarrow> locked H \<Longrightarrow> final H a \<Longrightarrow> final H b \<Longrightarrow>
      ancestor (tree H) a b \<or> ancestor (tree H) b a"
    and block_agrees: "votes_ok H \<Longrightarrow> agrees (final H) H s \<Longrightarrow> block_ok s b \<Longrightarrow> block_in H b \<Longrightarrow> trace s b vs s' \<Longrightarrow>
      \<forall>v \<in> set vs. voted H (rID s) (bID v) \<Longrightarrow> agrees (final H) H s'"
    and vote_agrees: "votes_ok H \<Longrightarrow> agrees (final H) H s \<Longrightarrow> small_view (vView v) \<Longrightarrow>
      vVoter v = rID s \<or> PubVerify e (vSig v) (IDToByte (vBlockID v)) (vVoter v) = retG (True, None) \<longrightarrow> vote_genuine H v \<Longrightarrow>
      go_all (agrees (final H) H) (handle s (OnVote v))"
    and remote_agrees: "votes_ok H \<Longrightarrow> agrees (final H) H s \<Longrightarrow> chained_admissible s (OnRemoteTmo t) \<Longrightarrow>
      go_all (agrees (final H) H) (handle s (OnRemoteTmo t))"
    and local_agrees: "votes_ok H \<Longrightarrow> agrees (final H) H s \<Longrightarrow> chained_admissible s (OnLocalTmo w) \<Longrightarrow>
      go_all (agrees (final H) H) (handle s (OnLocalTmo w))"
begin

lemma run_agrees:
  assumes "genuine_run H e handle trace s s'" and "votes_ok H" and "agrees (final H) H s"
  shows "agrees (final H) H s'"
  using assms
proof (induction rule: genuine_run.induct)
  case (run_certificate s s1 q)
  then show ?case by (intro agrees_alloc(1) [OF _ _ _ prod.collapse [symmetric]]) auto
next
  case (run_block s s1 b s2 vs)
  then show ?case by (intro block_agrees [OF _ _ run_block.hyps(2,3,5,6)]) simp_all
next
  case (run_vote s s1 v s2)
  then show ?case by (intro go_allD [OF vote_agrees [OF _ _ run_vote.hyps(2,3)] run_vote.hyps(4)]) simp_all
next
  case (run_remote_timeout s s1 t s2)
  then show ?case by (intro go_allD [OF remote_agrees [OF _ _ run_remote_timeout.hyps(2)] run_remote_timeout.hyps(3)]) simp_all
next
  case (run_local_timeout s s1 w s2)
  then show ?case by (intro go_allD [OF local_agrees [OF _ _ run_local_timeout.hyps(2)] run_local_timeout.hyps(3)]) simp_all
qed assumption

lemma logs_agree:
  assumes "votes_ok H" and "locked H" and "agrees (final H) H s1" and "genuine_run H e handle trace s1 s1'" and "a \<in> set (committedBlocks s1')"
    and "agreeing_protocol e' handle' trace' final locked"
    and "agrees (final H) H s2" and "genuine_run H e' handle' trace' s2 s2'" and "b \<in> set (committedBlocks s2')"
  shows "ancestor (tree H) a b \<or> ancestor (tree H) b a"
proof -
  have "agrees (final H) H s1'" "agrees (final H) H s2'"
    using run_agrees [OF assms(4,1,3)] agreeing_protocol.run_agrees [OF assms(6,8,1,7)] .
  with assms(5,9) have "final H a" "final H b" by (auto simp: agrees_def)
  with assms(1,2) show ?thesis by (rule final_linear)
qed

end

end
