(* ===== verification/Agreement_Props.thy ===== *)
theory Agreement_Props
  imports Agreement_Chained
begin

text \<open>
  Agreement for HotStuff, three-chain commits under a lock on grandparents, and for two-chain HotStuff (and
  so Fast-HotStuff, which has the same handlers): the handlers keep the invariant of a replica in a system.
\<close>

section \<open>Final blocks\<close>

definition on_three_chain :: "history \<Rightarrow> Block \<Rightarrow> bool" where
  "on_three_chain H b \<longleftrightarrow> (\<exists>c p g. backed H c \<and> tree H (bPrevID c) = Some p \<and> tree H (bPrevID p) = Some g \<and>
     bView p = bView g + 1 \<and> bView c = bView p + 1 \<and> ancestor (tree H) b g)"

definition on_two_chain :: "history \<Rightarrow> Block \<Rightarrow> bool" where
  "on_two_chain H b \<longleftrightarrow> (\<exists>c p. backed H c \<and> tree H (bPrevID c) = Some p \<and> bView c = bView p + 1 \<and> ancestor (tree H) b p)"

lemma heads_linear:
  assumes "\<And>w. backed H w \<Longrightarrow> bView g \<le> bView w \<Longrightarrow> ancestor (tree H) g w"
    and "\<And>w. backed H w \<Longrightarrow> bView h \<le> bView w \<Longrightarrow> ancestor (tree H) h w"
    and "backed H g" and "backed H h" and "ancestor (tree H) a g" and "ancestor (tree H) b h"
  shows "ancestor (tree H) a b \<or> ancestor (tree H) b a"
proof (cases "bView g \<le> bView h")
  case True
  then have "ancestor (tree H) a h" using ancestor_trans [OF assms(1) [OF assms(4)] assms(5)] by simp
  with assms(6) show ?thesis by (intro ancestor_linear)
next
  case False
  then have "ancestor (tree H) b g" using ancestor_trans [OF assms(2) [OF assms(3)] assms(6)] by simp
  with assms(5) show ?thesis by (intro ancestor_linear)
qed

lemma three_chains_linear:
  assumes "votes_ok H" and "locked_on_grandparents H" and "on_three_chain H a" and "on_three_chain H b"
  shows "ancestor (tree H) a b \<or> ancestor (tree H) b a"
proof -
  obtain c p g where a: "backed H c" "tree H (bPrevID c) = Some p" "tree H (bPrevID p) = Some g"
      "bView p = bView g + 1" "bView c = bView p + 1" "ancestor (tree H) a g"
    using assms(3) by (auto simp: on_three_chain_def)
  obtain d q h where b: "backed H d" "tree H (bPrevID d) = Some q" "tree H (bPrevID q) = Some h"
      "bView q = bView h + 1" "bView d = bView q + 1" "ancestor (tree H) b h"
    using assms(4) by (auto simp: on_three_chain_def)
  have "backed H g" "backed H h"
    using backed_parent [OF assms(1) _ a(3)] backed_parent [OF assms(1) a(1,2)]
      backed_parent [OF assms(1) _ b(3)] backed_parent [OF assms(1) b(1,2)] by auto
  with three_chain_extended [OF assms(1,2) a(1-5)] three_chain_extended [OF assms(1,2) b(1-5)] a(6) b(6)
  show ?thesis by (intro heads_linear [of H g h])
qed

lemma two_chains_linear:
  assumes "votes_ok H" and "locked_on_parents H" and "on_two_chain H a" and "on_two_chain H b"
  shows "ancestor (tree H) a b \<or> ancestor (tree H) b a"
proof -
  obtain c g where a: "backed H c" "tree H (bPrevID c) = Some g" "bView c = bView g + 1" "ancestor (tree H) a g"
    using assms(3) by (auto simp: on_two_chain_def)
  obtain d h where b: "backed H d" "tree H (bPrevID d) = Some h" "bView d = bView h + 1" "ancestor (tree H) b h"
    using assms(4) by (auto simp: on_two_chain_def)
  have "backed H g" "backed H h"
    using backed_parent [OF assms(1) a(1,2)] backed_parent [OF assms(1) b(1,2)] by auto
  with two_chain_extended [OF assms(1,2) a(1-3)] two_chain_extended [OF assms(1,2) b(1-3)] a(4) b(4)
  show ?thesis by (intro heads_linear [of H g h])
qed

section \<open>HotStuff\<close>

lemma tree_views: "votes_ok H \<Longrightarrow> tree H i = Some b \<Longrightarrow> i64 (bView b + 1) = bView b + 1 \<and> bID b = i"
  by (auto simp: votes_ok_def dest: small_view_succ)

lemma hs_commit_agrees:
  assumes "votes_ok H" and "agrees (on_three_chain H) H s" and "r < rNextQC s"
  shows "go_all (agrees (on_three_chain H) H) (hs_commit s r)"
proof -
  have inv: "forest_inv (forrest (rBc s))" using agrees_wf [OF assms(2)] by (simp add: chained_wf_def bc_ok_def)
  note look = chain_in_lookup [OF agrees_chain [OF assms(2)]]
  have "go_all (agrees (on_three_chain H) H) (bindG (do_commit s g) (\<lambda>(s', _). retG s'))"
    if g: "hs_commitRule s r = retG (Inr (Some g))" for g
  proof -
    from hs_commitRule_Some [OF inv g] obtain c p where cp:
        "GetVertex (forrest (rBc s)) (qcBlockID (qc_at s r)) = Some c"
        "GetVertex (forrest (rBc s)) (bPrevID c) = Some p" "GetVertex (forrest (rBc s)) (bPrevID p) = Some g"
        "i64 (bView g + 1) = bView p" "i64 (bView p + 1) = qcView (qc_at s r)" by blast
    note t = look [OF cp(1)] look [OF cp(2)] look [OF cp(3)]
    have "backed H c" "qcView (qc_at s r) = bView c"
      using agrees_qc [OF assms(2,3)] t(1) by (auto simp: qc_genuine_def)
    with t cp(4,5) tree_views [OF assms(1) t(2)] tree_views [OF assms(1) t(3)] have
        f: "\<And>b. ancestor (tree H) b g \<Longrightarrow> on_three_chain H b" unfolding on_three_chain_def by auto
    have "GetVertex (forrest (rBc s)) (bID g) = Some g" using cp(3) GetVertex_ID [OF inv cp(3)] by simp
    from do_commit_agrees [OF assms(2) this f] show ?thesis by (rule go_all_bind) auto
  qed
  then have "go_all (agrees (on_three_chain H) H) (case ok of
      Inl _ \<Rightarrow> retG s | Inr None \<Rightarrow> retG s | Inr (Some g) \<Rightarrow> bindG (do_commit s g) (\<lambda>(s', _). retG s'))"
    if "hs_commitRule s r = retG ok" for ok
    using that assms(2) by (auto split: sum.split option.split)
  then show ?thesis
    by (auto simp: hs_commit_def go_all_bind_iff [of _ "hs_commitRule s r"] go_all_def [of _ "hs_commitRule s r"])
qed

lemma hs_updateHighQC_agrees: "agrees final H s \<Longrightarrow> r < rNextQC s \<Longrightarrow> agrees final H (hs_updateHighQC s r)"
  by (simp add: hs_updateHighQC_def agrees_highQC)

lemma hs_certified_agrees:
  assumes "votes_ok H" and "agrees (on_three_chain H) H s" and "r < rNextQC s"
  shows "go_all (agrees (on_three_chain H) H) (hs_certified s r)"
  unfolding hs_certified_def
proof (rule go_all_bind [where Q = "\<lambda>(s1, _). agrees (on_three_chain H) H s1 \<and> rNextQC s1 = rNextQC s"])
  show "go_all (\<lambda>(s1, _). agrees (on_three_chain H) H s1 \<and> rNextQC s1 = rNextQC s) (hs_updatePreferredView s r)"
    using agrees_updates(3) [OF assms(2)] by (auto simp: go_all_def dest!: hs_updatePreferredView_frame)
  fix x :: "chained \<times> go_error option"
  assume x: "case x of (s1, _) \<Rightarrow> agrees (on_three_chain H) H s1 \<and> rNextQC s1 = rNextQC s"
  obtain s1 err where [simp]: "x = (s1, err)" by fastforce
  let ?s2 = "hs_updateHighQC (advance s1 (qcView (qc_at s1 r))) r"
  have s1: "agrees (on_three_chain H) H s1" "r < rNextQC s1" using x assms(3) by simp_all
  have "agrees (on_three_chain H) H (advance s1 (qcView (qc_at s1 r)))"
    by (rule agrees_updates(1) [OF s1(1) chained_wf_view [OF agrees_wf [OF s1(1)]]])
  then have s2: "agrees (on_three_chain H) H ?s2" by (rule hs_updateHighQC_agrees) (simp add: s1(2) advance_def)
  have "r < rNextQC ?s2" using s1(2) by (simp add: hs_updateHighQC_def advance_def)
  with hs_commit_agrees [OF assms(1) s2] s2 agrees_updates(4) [OF s1]
  show "go_all (agrees (on_three_chain H) H) (case x of (s1, err) \<Rightarrow> if err \<noteq> None
      then retG (s1\<lparr>bufferedQCs := (bufferedQCs s1)(qcBlockID (qc_at s1 r) \<mapsto> r)\<rparr>)
      else let s2 = hs_updateHighQC (advance s1 (qcView (qc_at s1 r))) r
        in if qcView (qc_at s2 r) < 3 then retG s2 else hs_commit s2 r)"
    by (simp add: Let_def)
qed

lemma hs_processCertificate_agrees:
  assumes "votes_ok H" and "agrees (on_three_chain H) H s" and "r < rNextQC s"
  shows "go_all (agrees (on_three_chain H) H) (hs_processCertificate e s (Some r))"
  using assms(2) hs_certified_agrees [OF assms] agrees_updates(1) [OF assms(2) chained_wf_view [OF agrees_wf [OF assms(2)]], of r]
  by (auto simp: hs_processCertificate_def Let_def intro!: go_all_bind_any)

interpretation hs_agreeing: agreeing_certifier "hs_processCertificate e" on_three_chain
  by unfold_locales (rule hs_processCertificate_agrees)

lemma hs_ProcessVote_agrees:
  assumes "votes_ok H" and "agrees (on_three_chain H) H s" and "small_view (vView vote)"
    and "vVoter vote = rID s \<or> PubVerify e (vSig vote) (IDToByte (vBlockID vote)) (vVoter vote) = retG (True, None) \<longrightarrow> vote_genuine H vote"
  shows "go_all (agrees (on_three_chain H) H) (hs_ProcessVote e s vote)"
proof (rule go_allI)
  fix s' assume r: "hs_ProcessVote e s vote = retG s'"
  show "agrees (on_three_chain H) H s'"
  proof (cases "vote_genuine H vote")
    case True
    from hs_agreeing.counted_vote_agrees [OF assms(1-3) True, of e "vote_order e"] assms(2)
    have "go_all (agrees (on_three_chain H) H) (hs_ProcessVote e s vote)"
      by (auto simp: hs_ProcessVote_def intro!: go_all_bind_any)
    with r show ?thesis by simp
  next
    case False
    with assms(4) r assms(2) show ?thesis
      by (auto simp: hs_ProcessVote_def elim!: bindG_RetE split: if_split_asm)
  qed
qed

interpretation hs_counting: agreeing_counter "hs_ProcessVote e" on_three_chain
  by unfold_locales (auto intro: hs_ProcessVote_agrees)

lemma hs_insert_and_vote_agrees:
  assumes "votes_ok H" and "agrees (on_three_chain H) H s" and "small_view (bView b)" and "block_in H b"
  shows "go_all (\<lambda>(s', ret). (ret = None \<longrightarrow> voted H (rID s) (bID b)) \<longrightarrow> agrees (on_three_chain H) H s') (hs_insert_and_vote e s b)"
proof -
  note bc = chained_wf_bc [OF agrees_wf [OF assms(2)]]
  show ?thesis
    unfolding hs_insert_and_vote_def
  proof (rule go_all_bind [OF go_all_conj [OF AddBlock_ok [OF bc] AddBlock_in [OF bc agrees_chain [OF assms(2)] assms(4)]]])
    fix bc' assume c: "bc_ok bc' \<and> chain_in H bc'"
    let ?s = "s\<lparr>rBc := bc'\<rparr>"
    have s: "agrees (on_three_chain H) H ?s" using c by (intro agrees_bc [OF assms(2)]) simp_all
    have t: "go_all (\<lambda>s1. agrees (on_three_chain H) H s1 \<and> rID s1 = rID s) (hs_take_bufferedQC e ?s (bID b))"
      using go_all_conj [OF hs_agreeing.taken_certificate_agrees [OF assms(1) s, of e "bID b"] hs_take_bufferedQC_ok [OF agrees_wf [OF s], of e "bID b", unfolded hs_take_bufferedQC_def]]
      unfolding hs_take_bufferedQC_def by (rule go_all_mono) (auto dest: step_ok_fields)
    show "go_all (\<lambda>(s', ret). (ret = None \<longrightarrow> voted H (rID s) (bID b)) \<longrightarrow> agrees (on_three_chain H) H s')
      (bindG (hs_take_bufferedQC e ?s (bID b)) (\<lambda>s1. bindG (hs_votingRule s1 b) (\<lambda>rule. case rule of
           Inl err \<Rightarrow> retG (s1, Some (Some err))
         | Inr shouldVote \<Rightarrow> if \<not> shouldVote then retG (s1, Some None)
             else bindG (hs_vote e s1 b) (\<lambda>s2. retG (s2, None)))))"
    proof (rule go_all_bind [OF t], rule go_all_bind_any)
      fix s1 and rule :: "go_error + bool" assume s1: "agrees (on_three_chain H) H s1 \<and> rID s1 = rID s"
      then have "voted H (rID s) (bID b) \<Longrightarrow> go_all (agrees (on_three_chain H) H) (hs_vote e s1 b)"
        using hs_counting.cast_vote_agrees [OF assms(1) _ assms(3,4), of s1 e] by (simp add: hs_vote_def)
      with s1 show "go_all (\<lambda>(s', ret). (ret = None \<longrightarrow> voted H (rID s) (bID b)) \<longrightarrow> agrees (on_three_chain H) H s')
        (case rule of Inl err \<Rightarrow> retG (s1, Some (Some err))
         | Inr shouldVote \<Rightarrow> if \<not> shouldVote then retG (s1, Some None)
             else bindG (hs_vote e s1 b) (\<lambda>s2. retG (s2, None)))"
        by (cases "voted H (rID s) (bID b)") (auto simp: go_all_bind_iff intro: go_all_mono split: sum.split)
    qed
  qed
qed

lemma hs_process_one_agrees:
  assumes "votes_ok H" and "agrees (on_three_chain H) H s" and "block_ok s b" and "block_in H b"
  shows "go_all (\<lambda>(s', ret). (ret = None \<longrightarrow> voted H (rID s) (bID b)) \<longrightarrow> agrees (on_three_chain H) H s') (hs_process_one e s b)"
proof (cases "bView b > i64 (cur s + 1) \<or> bQC b = None")
  case True
  with assms show ?thesis
    by (auto simp: hs_process_one_def intro!: go_all_bind_any agrees_buffer)
next
  case False
  then obtain qc where qc: "bQC b = Some qc" "\<not> bView b > i64 (cur s + 1)" by auto
  note wf = agrees_wf [OF assms(2)]
  let ?s1 = "hs_updateHighQC s qc"
  have r: "qc < rNextQC s" "qc < rNextQC ?s1" using assms(3) qc(1) by (simp_all add: block_ok_def hs_updateHighQC_def)
  have s1: "agrees (on_three_chain H) H ?s1" using hs_updateHighQC_agrees [OF assms(2) r(1)] .
  have cert: "go_all (\<lambda>s2. step_ok s s2 \<and> agrees (on_three_chain H) H s2)
      (if bProposer b \<noteq> rID ?s1 then hs_processCertificate e ?s1 (Some qc) else retG ?s1)"
    using go_all_conj [OF hs_block_cert_ok [OF wf assms(3) qc(1) refl, of e]]
      hs_processCertificate_agrees [OF assms(1) s1 r(2), of e] s1 by (simp split: if_split_asm)
  have rest: "go_all (\<lambda>(s', ret). (ret = None \<longrightarrow> voted H (rID s) (bID b)) \<longrightarrow> agrees (on_three_chain H) H s')
    (if bView b < cur s2 then retG (s2, Some None)
      else bindG (IsLeader (rElect s2) (bProposer b) (bView b)) (\<lambda>leader.
        if \<not> leader then retG (s2, Some (Some (InvalidLeader (bView b) (bProposer b))))
        else hs_insert_and_vote e s2 b))" if "step_ok s s2 \<and> agrees (on_three_chain H) H s2" for s2
    using that hs_insert_and_vote_agrees [OF assms(1) _ _ assms(4), of s2 e] step_ok_fields [of s s2] assms(3)
    by (auto simp: block_ok_def intro: go_all_bind_any)
  show ?thesis
    unfolding hs_process_one_def Let_def qc(1) option.case if_not_P [OF qc(2)]
    by (rule go_all_bind_any, rule go_all_bind [OF cert rest])
qed

definition hs_drop_buffered :: "HotStuff \<Rightarrow> View \<Rightarrow> HotStuff" where
  "hs_drop_buffered s v = s\<lparr>bufferedBlocks := (bufferedBlocks s)(v := None)\<rparr>"

interpretation hs_blocks: agreeing_block_handler "hs_process_one e" hs_drop_buffered on_three_chain
  by unfold_locales (simp_all add: hs_process_one_ok hs_process_one_agrees hs_drop_buffered_def agrees_updates(7))

lemma hs_ProcessBlock_trace:
  "hs_ProcessBlock e s b = Some r \<Longrightarrow> r = Ret (s', err) \<Longrightarrow> \<exists>vs. block_trace (hs_process_one e) hs_drop_buffered s b vs s'"
proof (induction arbitrary: s' err rule: hs_ProcessBlock_induct)
  case (step pb e s b r)
  obtain s1 ret where one: "hs_process_one e s b = retG (s1, ret)"
    using step.hyps step.prems by (auto elim!: bindG_RetE)
  show ?case
  proof (cases "ret = None \<and> bufferedBlocks s1 (bView b) \<noteq> None")
    case False
    with step.hyps step.prems one show ?thesis by (auto intro: block_trace.intros split: option.splits)
  next
    case True
    then obtain c where c: "bufferedBlocks s1 (bView b) = Some c" by auto
    with True step.hyps step.prems one obtain s2 err' where
        rec: "pb e s1 c = retG (s2, err')" and s': "s' = hs_drop_buffered s2 (bView b)"
      by (auto simp: hs_drop_buffered_def elim!: bindG_RetE)
    from step.IH [OF rec refl] obtain vs where "block_trace (hs_process_one e) hs_drop_buffered s1 c vs s2" by blast
    with one True c s' show ?thesis by (auto intro: trace_next)
  qed
qed

lemma hs_ProcessRemoteTmo_agrees:
  assumes "votes_ok H" and "agrees (on_three_chain H) H s" and "small_view (tmoView tmo)"
    and "\<And>r. tmoHighQC tmo = Some r \<Longrightarrow> r < rNextQC s"
  shows "go_all (agrees (on_three_chain H) H) (hs_ProcessRemoteTmo e s tmo)"
  unfolding hs_ProcessRemoteTmo_def
proof (rule go_all_bind [where Q = "agrees (on_three_chain H) H"])
  show "go_all (agrees (on_three_chain H) H) (hs_processCertificate e s (tmoHighQC tmo))"
    using hs_processCertificate_agrees [OF assms(1,2)] assms(4)
    by (cases "tmoHighQC tmo") (simp_all add: hs_processCertificate_def [of _ _ None])
  fix s1 assume s1: "agrees (on_three_chain H) H s1"
  obtain p built tc where pm: "pm_ProcessRemoteTmo (rPm s1) tmo = (p, built, tc)" by (metis prod_cases3)
  note f = pm_ProcessRemoteTmo_fields [OF pm]
  have s2: "agrees (on_three_chain H) H (s1\<lparr>rPm := p\<rparr>)" using f by (intro agrees_updates(6) [OF s1]) simp
  with f assms(3) show "go_all (agrees (on_three_chain H) H) (case pm_ProcessRemoteTmo (rPm s1) tmo of
      (pm', isBuilt, tc) \<Rightarrow> let s2 = s1\<lparr>rPm := pm'\<rparr> in if \<not> isBuilt then retG s2
        else case tc of None \<Rightarrow> panicG NilDereference | Some c \<Rightarrow> retG (hs_processTC s2 c))"
    by (simp add: pm Let_def hs_processTC_def agrees_updates(1) split: option.splits)
qed

lemma hs_ProcessLocalTmo_agrees:
  assumes "votes_ok H" and "agrees (on_three_chain H) H s" and "small_view view" and "small_view (view + 1)"
  shows "go_all (agrees (on_three_chain H) H) (hs_ProcessLocalTmo e s view)"
proof -
  have "agrees (on_three_chain H) H (send (advance s view) p)" for p
    using agrees_updates(2) [OF agrees_updates(1) [OF assms(2,3)]] .
  moreover have "highQC s < rNextQC s" using agrees_wf [OF assms(2)] by (simp add: chained_wf_def)
  ultimately show ?thesis
    using assms(4) unfolding hs_ProcessLocalTmo_def Let_def
    by (intro hs_ProcessRemoteTmo_agrees [OF assms(1)])
      (simp_all add: small_view_succ [OF assms(3)] hs_GetHighQC_def advance_def send_def)
qed

interpretation hs_system: agreeing_protocol e "hs_handle e" "block_trace (hs_process_one e) hs_drop_buffered"
    on_three_chain locked_on_grandparents
proof unfold_locales
  fix H :: history and s s' :: chained and b :: Block and vs :: "Block list"
  show "agrees (on_three_chain H) H s'" if "votes_ok H" "agrees (on_three_chain H) H s" "block_ok s b" "block_in H b"
      "block_trace (hs_process_one e) hs_drop_buffered s b vs s'" "\<forall>v \<in> set vs. voted H (rID s) (bID v)"
    using that by (intro hs_blocks.trace_agrees [OF that(5,1-4,6)])
qed (auto dest: three_chains_linear intro: hs_ProcessVote_agrees hs_ProcessRemoteTmo_agrees hs_ProcessLocalTmo_agrees)

lemma NewHotStuff_agrees:
  assumes "i \<in> members H" and "card (members H) = config_N (cfg e)" and "tree H 0 = None"
  shows "agrees final H (NewHotStuff e i byz (NewPacemaker n) elec)"
  using NewHotStuff_wf [of e i byz n elec] assms
  by (simp add: agrees_def NewHotStuff_def NewBlockchain_def NewQuorum_def chain_in_def votes_of_def qc_genuine_def
      qc_at_def zero_qc_def map_le_def dom_def)

section \<open>Two-chain HotStuff\<close>

lemma th_commit_agrees:
  assumes "votes_ok H" and "agrees (on_two_chain H) H s" and "bQC b = Some r" and "r < rNextQC s"
  shows "go_all (\<lambda>(s', _). agrees (on_two_chain H) H s') (th_commit s b r)"
proof -
  have inv: "forest_inv (forrest (rBc s))" using agrees_wf [OF assms(2)] by (simp add: chained_wf_def bc_ok_def)
  note look = chain_in_lookup [OF agrees_chain [OF assms(2)]]
  have commit: "go_all (\<lambda>(s', _). agrees (on_two_chain H) H s') (do_commit s g)"
    if g: "th_commitRule s b = retG (Inr (Some g))" for g
  proof -
    from g assms(3) obtain c where c: "GetVertex (forrest (rBc s)) (qcBlockID (qc_at s r)) = Some c"
        "GetVertex (forrest (rBc s)) (bPrevID c) = Some g" "i64 (bView g + 1) = qcView (qc_at s r)"
      by (auto simp: th_commitRule_def GetParentBlock_Inr elim!: bindG_RetE split: sum.split_asm if_split_asm)
    note t = look [OF c(1)] look [OF c(2)]
    have "backed H c" "qcView (qc_at s r) = bView c"
      using agrees_qc [OF assms(2,4)] t(1) by (auto simp: qc_genuine_def)
    with t c(3) tree_views [OF assms(1) t(2)] have
        f: "\<And>a. ancestor (tree H) a g \<Longrightarrow> on_two_chain H a" unfolding on_two_chain_def by auto
    have "GetVertex (forrest (rBc s)) (bID g) = Some g" using c(2) GetVertex_ID [OF inv c(2)] by simp
    from do_commit_agrees [OF assms(2) this f] show ?thesis .
  qed
  have "go_all (\<lambda>(s', _). agrees (on_two_chain H) H s') (case ok of
      Inl _ \<Rightarrow> retG (s, Some None) | Inr None \<Rightarrow> retG (s, Some None)
    | Inr (Some g) \<Rightarrow> bindG (do_commit s g) (\<lambda>(s', err). retG (s', if err \<noteq> None then Some (Some CannotCommitBlocks) else None)))"
    if "th_commitRule s b = retG ok" for ok
    using that commit assms(2) by (auto simp: go_all_bind_iff split: sum.split option.split elim!: go_all_mono)
  with assms(2) show ?thesis
    by (auto simp: th_commit_def go_all_bind_iff [of _ "th_commitRule s b"] go_all_def [of _ "th_commitRule s b"])
qed

lemma th_updateHighQC_agrees: "agrees final H s \<Longrightarrow> r < rNextQC s \<Longrightarrow> agrees final H (th_updateHighQC s r)"
  by (simp add: th_updateHighQC_def agrees_highQC)

lemma th_processCertificate_agrees:
  assumes "agrees final H s" and "r < rNextQC s"
  shows "go_all (agrees final H) (th_processCertificate e s (Some r))"
proof -
  obtain s1 err where up: "th_updatePreferredView s r = (s1, err)" by fastforce
  have view: "small_view (qcView (qc_at s r))" using chained_wf_view [OF agrees_wf [OF assms(1)]] .
  have s1: "agrees final H s1 \<and> rNextQC s1 = rNextQC s"
    using up assms(1) agrees_updates(3) [OF assms(1), of "qcView (qc_at s r)"]
    by (auto simp: th_updatePreferredView_def split: if_split_asm sum.split_asm)
  then have "agrees final H (advance (th_updateHighQC s1 r) (qcView (qc_at s r)))"
    using agrees_updates(1) [OF th_updateHighQC_agrees view] assms(2) by simp
  moreover have "agrees final H (s1\<lparr>bufferedQCs := (bufferedQCs s1)(i \<mapsto> r)\<rparr>)" for i
    using agrees_updates(4) [of final H s1 r] s1 assms(2) by simp
  moreover have "agrees final H (advance s (qcView (qc_at s r)))" using agrees_updates(1) [OF assms(1) view] .
  ultimately show ?thesis
    using assms(1) by (auto simp: th_processCertificate_def Let_def up intro!: go_all_bind_any split: option.splits)
qed

interpretation th_agreeing: agreeing_certifier "th_processCertificate e" on_two_chain
  by unfold_locales (rule th_processCertificate_agrees)

lemma th_ProcessVote_agrees:
  assumes "votes_ok H" and "agrees (on_two_chain H) H s" and "small_view (vView vote)"
    and "vVoter vote = rID s \<or> PubVerify e (vSig vote) (IDToByte (vBlockID vote)) (vVoter vote) = retG (True, None) \<longrightarrow> vote_genuine H vote"
  shows "go_all (agrees (on_two_chain H) H) (th_ProcessVote e s vote)"
proof (rule go_allI)
  fix s' assume r: "th_ProcessVote e s vote = retG s'"
  show "agrees (on_two_chain H) H s'"
  proof (cases "vote_genuine H vote")
    case True
    from th_agreeing.counted_vote_agrees [OF assms(1-3) True, of e "vote_order e"] assms(2)
    have "go_all (agrees (on_two_chain H) H) (th_ProcessVote e s vote)"
      by (auto simp: th_ProcessVote_def intro!: go_all_bind_any)
    with r show ?thesis by simp
  next
    case False
    with assms(4) r assms(2) show ?thesis
      by (auto simp: th_ProcessVote_def elim!: bindG_RetE split: if_split_asm)
  qed
qed

interpretation th_counting: agreeing_counter "th_ProcessVote e" on_two_chain
  by unfold_locales (auto intro: th_ProcessVote_agrees)

lemma th_decide_vote_agrees:
  assumes "votes_ok H" and "agrees (on_two_chain H) H s" and "small_view (bView b)" and "block_in H b"
  shows "go_all (\<lambda>(s', ret). (ret = None \<longrightarrow> voted H (rID s) (bID b)) \<longrightarrow> agrees (on_two_chain H) H s') (th_decide_vote e s b)"
  unfolding th_decide_vote_def
proof (rule go_all_bind [where Q = "\<lambda>s1. agrees (on_two_chain H) H s1 \<and> rID s1 = rID s"], goal_cases)
  case 1
  show ?case
    using go_all_conj [OF th_agreeing.taken_certificate_agrees [OF assms(1,2), of e "bID b"]
        th_take_bufferedQC_ok [OF agrees_wf [OF assms(2)], of e "bID b", unfolded th_take_bufferedQC_def]]
    unfolding th_take_bufferedQC_def by (rule go_all_mono) (auto dest: step_ok_fields)
next
  case (2 s1)
  then have "voted H (rID s) (bID b) \<Longrightarrow> go_all (agrees (on_two_chain H) H) (th_vote e s1 b)"
    using th_counting.cast_vote_agrees [OF assms(1) _ assms(3,4), of s1 e] by (simp add: th_vote_def)
  with 2 show ?case
    by (intro go_all_bind_any, cases "voted H (rID s) (bID b)") (auto simp: go_all_bind_iff intro: go_all_mono split: sum.split)
qed

lemma th_insert_and_vote_agrees:
  assumes "votes_ok H" and "agrees (on_two_chain H) H s" and "block_ok s b" and "block_in H b" and "bQC b = Some qc"
  shows "go_all (\<lambda>(s', ret). (ret = None \<longrightarrow> voted H (rID s) (bID b)) \<longrightarrow> agrees (on_two_chain H) H s') (th_insert_and_vote e s b qc)"
  unfolding th_insert_and_vote_def
proof -
  note bc = chained_wf_bc [OF agrees_wf [OF assms(2)]]
  have small: "small_view (bView b)" and r: "qc < rNextQC s" using assms(3,5) by (simp_all add: block_ok_def)
  show "go_all (\<lambda>(s', ret). (ret = None \<longrightarrow> voted H (rID s) (bID b)) \<longrightarrow> agrees (on_two_chain H) H s')
    (bindG (AddBlock (rQCs s) (rBc s) b) (\<lambda>bc'. bindG (th_commit (s\<lparr>rBc := bc'\<rparr>) b qc) (\<lambda>(s1, ret).
       case ret of Some err \<Rightarrow> retG (s1, Some err) | None \<Rightarrow> th_decide_vote e s1 b)))"
  proof (rule go_all_bind [OF go_all_conj [OF AddBlock_ok [OF bc] AddBlock_in [OF bc agrees_chain [OF assms(2)] assms(4)]]])
    fix bc' assume c: "bc_ok bc' \<and> chain_in H bc'"
    have s: "agrees (on_two_chain H) H (s\<lparr>rBc := bc'\<rparr>)" using c by (intro agrees_bc [OF assms(2)]) simp_all
    have "go_all (\<lambda>x. (case x of (s1, ret) \<Rightarrow> agrees (on_two_chain H) H s1) \<and> (case x of (s1, ret) \<Rightarrow> step_ok (s\<lparr>rBc := bc'\<rparr>) s1))
        (th_commit (s\<lparr>rBc := bc'\<rparr>) b qc)"
      using th_commit_agrees [OF assms(1) s assms(5)] r th_commit_ok [OF agrees_wf [OF s]] by (intro go_all_conj) simp_all
    then show "go_all (\<lambda>(s', ret). (ret = None \<longrightarrow> voted H (rID s) (bID b)) \<longrightarrow> agrees (on_two_chain H) H s')
      (bindG (th_commit (s\<lparr>rBc := bc'\<rparr>) b qc) (\<lambda>(s1, ret). case ret of Some err \<Rightarrow> retG (s1, Some err) | None \<Rightarrow> th_decide_vote e s1 b))"
    proof (rule go_all_bind, clarify)
      fix s1 ret assume s1: "agrees (on_two_chain H) H s1" "step_ok (s\<lparr>rBc := bc'\<rparr>) s1"
      from th_decide_vote_agrees [OF assms(1) s1(1) small assms(4), of e] step_ok_fields [OF s1(2)] s1(1)
      show "go_all (\<lambda>(s', ret). (ret = None \<longrightarrow> voted H (rID s) (bID b)) \<longrightarrow> agrees (on_two_chain H) H s')
        (case ret of Some err \<Rightarrow> retG (s1, Some err) | None \<Rightarrow> th_decide_vote e s1 b)"
        by (simp split: option.split)
    qed
  qed
qed

lemma th_process_one_agrees:
  assumes "votes_ok H" and "agrees (on_two_chain H) H s" and "block_ok s b" and "block_in H b"
  shows "go_all (\<lambda>(s', ret). (ret = None \<longrightarrow> voted H (rID s) (bID b)) \<longrightarrow> agrees (on_two_chain H) H s') (th_process_one e s b)"
proof (cases "bView b > i64 (cur s + 1) \<or> bQC b = None")
  case True
  with assms show ?thesis
    by (auto simp: th_process_one_def intro!: go_all_bind_any agrees_buffer)
next
  case False
  then obtain qc where qc: "bQC b = Some qc" "\<not> bView b > i64 (cur s + 1)" by auto
  note wf = agrees_wf [OF assms(2)]
  let ?s1 = "th_updateHighQC s qc"
  have r: "qc < rNextQC s" "qc < rNextQC ?s1" using assms(3) qc(1) by (simp_all add: block_ok_def th_updateHighQC_def)
  have s1: "agrees (on_two_chain H) H ?s1" using th_updateHighQC_agrees [OF assms(2) r(1)] .
  have cert: "go_all (\<lambda>s2. step_ok s s2 \<and> agrees (on_two_chain H) H s2)
      (if bProposer b \<noteq> rID ?s1 then th_processCertificate e ?s1 (Some qc) else retG ?s1)"
    using go_all_conj [OF th_block_cert_ok [OF wf assms(3) qc(1) refl, of e]]
      th_processCertificate_agrees [OF s1 r(2), of e] s1 by (simp split: if_split_asm)
  have rest: "go_all (\<lambda>(s', ret). (ret = None \<longrightarrow> voted H (rID s) (bID b)) \<longrightarrow> agrees (on_two_chain H) H s')
    (if bView b < cur s2 then retG (s2, Some None)
      else bindG (IsLeader (rElect s2) (bProposer b) (bView b)) (\<lambda>leader.
        if \<not> leader then retG (s2, Some (Some (InvalidLeader (bView b) (bProposer b))))
        else th_insert_and_vote e s2 b qc))" if "step_ok s s2 \<and> agrees (on_two_chain H) H s2" for s2
    using that th_insert_and_vote_agrees [OF assms(1) _ _ assms(4) qc(1), of s2 e] step_ok_fields [of s s2]
      step_ok_block [of s s2, OF _ assms(3)]
    by (auto intro: go_all_bind_any)
  show ?thesis
    unfolding th_process_one_def Let_def qc(1) option.case if_not_P [OF qc(2)]
    by (rule go_all_bind_any, rule go_all_bind [OF cert rest])
qed

definition th_keep_buffered :: "Tchs \<Rightarrow> View \<Rightarrow> Tchs" where
  "th_keep_buffered s v = s"

interpretation th_blocks: agreeing_block_handler "th_process_one e" th_keep_buffered on_two_chain
  by unfold_locales (simp_all add: th_process_one_ok th_process_one_agrees th_keep_buffered_def)

lemma th_ProcessBlock_trace:
  "th_ProcessBlock e s b = Some r \<Longrightarrow> r = Ret (s', err) \<Longrightarrow> \<exists>vs. block_trace (th_process_one e) th_keep_buffered s b vs s'"
proof (induction arbitrary: s' err rule: th_ProcessBlock_induct)
  case (step pb e s b r)
  obtain s1 ret where one: "th_process_one e s b = retG (s1, ret)"
    using step.hyps step.prems by (auto elim!: bindG_RetE)
  show ?case
  proof (cases "ret = None \<and> bufferedBlocks s1 (bView b) \<noteq> None")
    case False
    with step.hyps step.prems one show ?thesis by (auto intro: block_trace.intros split: option.splits)
  next
    case True
    then obtain c where c: "bufferedBlocks s1 (bView b) = Some c" by auto
    with True step.hyps step.prems one have rec: "pb e s1 c = retG (s', err)" by auto
    from step.IH [OF rec refl] obtain vs where t: "block_trace (th_process_one e) th_keep_buffered s1 c vs s'" by blast
    from one True have "th_process_one e s b = retG (s1, None)" by simp
    from trace_next [OF this c t] show ?thesis unfolding th_keep_buffered_def [of s'] by blast
  qed
qed

lemma th_ProcessRemoteTmo_agrees:
  assumes "agrees final H s" and "small_view (tmoView tmo)"
  shows "go_all (agrees final H) (th_ProcessRemoteTmo s tmo)"
proof -
  obtain p built tc where pm: "pm_ProcessRemoteTmo (rPm s) tmo = (p, built, tc)" by (metis prod_cases3)
  note f = pm_ProcessRemoteTmo_fields [OF pm]
  have "agrees final H (s\<lparr>rPm := p\<rparr>)" using f by (intro agrees_updates(6) [OF assms(1)]) simp
  with f assms show ?thesis
    by (simp add: th_ProcessRemoteTmo_def pm Let_def th_processTC_def agrees_updates(1) split: option.splits)
qed

lemma th_ProcessLocalTmo_agrees:
  assumes "agrees final H s" and "small_view view" and "small_view (view + 1)"
  shows "go_all (agrees final H) (th_ProcessLocalTmo s view)"
  unfolding th_ProcessLocalTmo_def Let_def
  by (rule th_ProcessRemoteTmo_agrees [OF agrees_updates(2) [OF agrees_updates(1) [OF assms(1)]]])
    (simp_all add: assms(3) small_view_succ [OF assms(2)])

interpretation th_system: agreeing_protocol e "th_handle e" "block_trace (th_process_one e) th_keep_buffered"
    on_two_chain locked_on_parents
proof unfold_locales
  fix H :: history and s s' :: chained and b :: Block and vs :: "Block list"
  show "agrees (on_two_chain H) H s'" if "votes_ok H" "agrees (on_two_chain H) H s" "block_ok s b" "block_in H b"
      "block_trace (th_process_one e) th_keep_buffered s b vs s'" "\<forall>v \<in> set vs. voted H (rID s) (bID v)"
    using that by (intro th_blocks.trace_agrees [OF that(5,1-4,6)])
qed (auto dest: two_chains_linear intro: th_ProcessVote_agrees th_ProcessRemoteTmo_agrees th_ProcessLocalTmo_agrees)

lemma NewTchs_agrees:
  assumes "i \<in> members H" and "card (members H) = config_N (cfg e)" and "tree H 0 = None"
  shows "agrees final H (NewTchs e i byz (NewPacemaker n) elec)"
  using NewTchs_wf [of e i byz n elec] assms
  by (simp add: agrees_def NewTchs_def NewBlockchain_def NewQuorum_def chain_in_def votes_of_def qc_genuine_def
      qc_at_def zero_qc_def map_le_def dom_def)

section \<open>Agreement\<close>

abbreviation hs_genuine_run :: "history \<Rightarrow> env \<Rightarrow> HotStuff \<Rightarrow> HotStuff \<Rightarrow> bool" where
  "hs_genuine_run H e \<equiv> genuine_run H e (hs_handle e) (block_trace (hs_process_one e) hs_drop_buffered)"

abbreviation th_genuine_run :: "history \<Rightarrow> env \<Rightarrow> Tchs \<Rightarrow> Tchs \<Rightarrow> bool" where
  "th_genuine_run H e \<equiv> genuine_run H e (th_handle e) (block_trace (th_process_one e) th_keep_buffered)"



text \<open>A system of four nodes, one of them Byzantine, in which the others vote for three blocks in a row.\<close>

definition sample_history :: "Block \<Rightarrow> history" where
  "sample_history b3 = \<lparr>tree = [11 \<mapsto> link 1, 12 \<mapsto> link 2, 13 \<mapsto> b3], members = {''1'', ''2'', ''3'', ''4''}, byzantine = {''4''},
     voted = (\<lambda>u i. u \<in> {''1'', ''2'', ''3''} \<and> i \<in> {11, 12, 13})\<rparr>"

lemma sample_tree:
  "tree (sample_history b3) i = Some b \<longleftrightarrow> i = 11 \<and> b = link 1 \<or> i = 12 \<and> b = link 2 \<or> i = 13 \<and> b = b3"
  by (auto simp: sample_history_def)

lemma sample_history_simps [simp]:
  "members (sample_history b3) = {''1'', ''2'', ''3'', ''4''}" "byzantine (sample_history b3) = {''4''}"
  "voted (sample_history b3) u i \<longleftrightarrow> u \<in> {''1'', ''2'', ''3''} \<and> i \<in> {11, 12, 13}"
  by (simp_all add: sample_history_def)

lemma sample_backed:
  assumes "bID b3 = 13" and "tree (sample_history b3) i = Some b"
  shows "backed (sample_history b3) b"
proof -
  have "bID b = i" "i \<in> {11, 12, 13}" using assms by (auto simp: sample_tree)
  with assms(2) show ?thesis
    by (auto simp: backed_def intro!: exI [of _ "{''1'', ''2'', ''3''}"])
qed

lemma sample_blocks:
  assumes "tree (sample_history b3) i = Some b" and "bID b3 = 13" and "bView b3 = 3" and "bPrevID b3 = 12"
  shows "bID b = i \<and> small_view (bView b) \<and> i \<in> {11, 12, 13} \<and> bView b \<in> {1, 2, 3}"
    and "tree (sample_history b3) (bPrevID b) = Some p \<Longrightarrow> bView b = bView p + 1"
    and "tree (sample_history b3) j = Some c \<Longrightarrow> bView b = bView c \<Longrightarrow> b = c"
    and "tree (sample_history b3) j = Some c \<Longrightarrow> bView b < bView c \<Longrightarrow>
      \<exists>p. tree (sample_history b3) (bPrevID c) = Some p \<and> bView b \<le> bView p"
  using assms by (auto simp: sample_tree small_view_def is_i64_def)

lemma sample_history_ok:
  assumes "bID b3 = 13" and "bView b3 = 3" and "bPrevID b3 = 12"
  shows "votes_ok (sample_history b3)" "locked_on_grandparents (sample_history b3)" "locked_on_parents (sample_history b3)"
proof -
  note b = sample_blocks [OF _ assms]
  show "votes_ok (sample_history b3)"
    unfolding votes_ok_def
  proof (intro conjI allI impI)
    fix i b assume "tree (sample_history b3) i = Some b"
    with b(1) show "bID b = i" "small_view (bView b)" by blast+
  next
    fix u b c assume "honest (sample_history b3) u \<and> voted (sample_history b3) u (bID b) \<and> voted (sample_history b3) u (bID c) \<and>
      tree (sample_history b3) (bID b) = Some b \<and> tree (sample_history b3) (bID c) = Some c \<and> bView b = bView c"
    with b(3) show "b = c" by blast
  next
    fix u b p assume "honest (sample_history b3) u \<and> voted (sample_history b3) u (bID b) \<and>
      tree (sample_history b3) (bID b) = Some b \<and> tree (sample_history b3) (bPrevID b) = Some p"
    with b(2) sample_backed [OF assms(1)] show "backed (sample_history b3) p" "bView p < bView b" by fastforce+
  qed simp_all
  have lock: "keeps_lock (sample_history b3) a c" if "tree (sample_history b3) (bID c) = Some c" "bView a \<le> bView c" for a c
    unfolding keeps_lock_def
  proof (intro allI impI)
    fix u w assume "honest (sample_history b3) u \<and> voted (sample_history b3) u (bID c) \<and> voted (sample_history b3) u (bID w) \<and>
      tree (sample_history b3) (bID w) = Some w \<and> bView c < bView w"
    with b(4) [OF that(1)] that(2) show "\<exists>p. tree (sample_history b3) (bPrevID w) = Some p \<and> bView a \<le> bView p"
      by (meson order_trans)
  qed
  show "locked_on_parents (sample_history b3)"
    unfolding locked_on_parents_def
  proof (intro allI impI lock)
    fix c p assume t: "tree (sample_history b3) (bID c) = Some c \<and> tree (sample_history b3) (bPrevID c) = Some p"
    then show "tree (sample_history b3) (bID c) = Some c" by simp
    show "bView p \<le> bView c" using b(2) [of "bID c" c p] t by simp
  qed
  show "locked_on_grandparents (sample_history b3)"
    unfolding locked_on_grandparents_def
  proof (intro allI impI lock)
    fix c p g assume t: "tree (sample_history b3) (bID c) = Some c \<and> tree (sample_history b3) (bPrevID c) = Some p \<and>
      tree (sample_history b3) (bPrevID p) = Some g"
    then show "tree (sample_history b3) (bID c) = Some c" by simp
    show "bView g \<le> bView c" using b(2) [of "bID c" c p] b(2) [of "bPrevID c" p g] t by simp
  qed
qed

lemma links_heap_genuine:
  assumes "bID b3 = 13" and "bView b3 = 3" and "r < 5"
  shows "qc_genuine (sample_history b3) (links_heap r)"
proof -
  have "bView c = qcView (links_heap r)" if "tree (sample_history b3) (qcBlockID (links_heap r)) = Some c" for c
  proof -
    from assms(3) consider "r = 0" | "r = 1" | "r = 2" | "r = 3" | "r = 4" by linarith
    then show ?thesis
      using that assms(2) by cases (simp_all add: sample_tree links_heap_def zero_qc_def)
  qed
  with sample_backed [OF assms(1)] show ?thesis by (simp add: qc_genuine_def)
qed

lemma sample_agrees:
  assumes "bID b3 = 13" and "bView b3 = 3" and "chained_wf s" and "rID s = ''1''" and "quorum (rBc s) = NewQuorum 4"
    and "GetVertex (forrest (rBc s)) \<subseteq>\<^sub>m tree (sample_history b3)" and "qc_at s = links_heap" and "rNextQC s = 5"
    and "bufferedBlocks s = Map.empty" and "committedBlocks s = []"
  shows "agrees final (sample_history b3) s"
  using assms links_heap_genuine [OF assms(1,2)] by (simp add: agrees_def chain_in_def NewQuorum_def votes_of_def)

lemma links_commits:
  assumes "tmo = \<lparr>tmoView = 3, tmoNodeID = ''2'', tmoHighQC = Some 4\<rparr>"
  shows "\<exists>s'. hs_genuine_run H (sample_env 4 True) (links_state ''2'') s' \<and> committedBlocks s' = [link 1]"
proof -
  let ?s = "links_state ''2''"
  obtain s1 where s1: "hs_processCertificate (sample_env 4 True) ?s (Some 4) = retG s1" "committedBlocks s1 = [link 1]"
    using links_three_chain by blast
  obtain p built tc where pm: "pm_ProcessRemoteTmo (rPm s1) tmo = (p, built, tc)" by (metis prod_cases3)
  have "\<exists>s'. hs_handle (sample_env 4 True) ?s (OnRemoteTmo tmo) = retG s' \<and> committedBlocks s' = [link 1]"
    using s1 pm pm_ProcessRemoteTmo_fields [OF pm]
    by (auto simp: hs_ProcessRemoteTmo_def assms Let_def hs_processTC_def advance_def split: option.split)
  moreover have "chained_admissible ?s (OnRemoteTmo tmo)" by (simp add: assms small_view_def is_i64_def)
  ultimately show ?thesis using run_remote_timeout [OF run_start] by blast
qed


lemma two_links_agrees: "agrees final (sample_history led3) two_links"
proof (rule sample_agrees)
  show "GetVertex (forrest (rBc two_links)) \<subseteq>\<^sub>m tree (sample_history led3)"
    by (auto simp: links_lookup map_le_def dom_def sample_history_def)
  show "quorum (rBc two_links) = NewQuorum 4" "bufferedBlocks two_links = Map.empty"
    by (simp_all add: two_links_def NewBlockchain_def)
qed (simp_all add: two_links_wf)

lemma two_links_run:
  "\<exists>s'. th_genuine_run (sample_history led3) (sample_env 4 True) two_links s' \<and> committedBlocks s' = [link 1]"
proof -
  let ?H = "sample_history led3" and ?one = "th_process_one (sample_env 4 True)"
  obtain s' ret where s': "?one two_links led3 = retG (s', ret)" "committedBlocks s' = [link 1]"
    using led3_commits by blast
  have in_H: "block_in ?H led3" by (simp add: block_in_def sample_tree)
  have ok: "votes_ok ?H" by (rule sample_history_ok(1)) simp_all
  have a: "agrees (on_two_chain ?H) ?H s'"
    using go_allD [OF th_process_one_agrees [OF ok two_links_agrees two_links_wf(2) in_H] s'(1)] by simp
  have none: "bufferedBlocks s' (bView led3) = None"
  proof (rule ccontr)
    assume "bufferedBlocks s' (bView led3) \<noteq> None"
    then obtain c where c: "bufferedBlocks s' (bView led3) = Some c" by blast
    then have "tree ?H (bID c) = Some c" "bView c = 4" using a by (auto simp: agrees_def block_in_def chained_wf_def)
    then show False using sample_blocks(1) [of led3 "bID c" c] by simp
  qed
  have h: "th_handle (sample_env 4 True) two_links (OnBlock led3) = retG s'"
    using s'(1) none by (cases ret) (simp_all add: th_ProcessBlock.simps [of _ two_links])
  obtain vs where "block_trace ?one th_keep_buffered two_links led3 vs s'" "\<forall>v \<in> set vs. voted ?H (rID two_links) (bID v)"
  proof (cases ret)
    case None
    with trace_last [of ?one two_links led3 s'] s'(1) none show ?thesis by (intro that [of "[led3]"]) simp_all
  next
    case (Some err)
    with trace_stop [of ?one two_links led3 s' err] s'(1) show ?thesis by (intro that [of "[]"]) simp_all
  qed
  from run_block [where handle = "th_handle (sample_env 4 True)" and trace = "block_trace ?one th_keep_buffered", OF run_start two_links_wf(2) in_H h this] s'(2) show ?thesis by blast
qed


section \<open>The lock\<close>

lemma hs_certified_locks:
  assumes "chained_wf s" and "r < rNextQC s" and "2 < qcView (qc_at s r)"
    and "GetParentBlock (rQCs s) (rBc s) (qcBlockID (qc_at s r)) = retG (Inr g)" and "hs_certified s r = retG s'"
  shows "step_ok s s' \<and> bView g \<le> preferredView s'"
proof -
  let ?s1 = "if bView g > preferredView s then s\<lparr>preferredView := bView g\<rparr> else s"
  have f: "rQCs ?s1 = rQCs s" "rBc ?s1 = rBc s" "qc_at ?s1 = qc_at s" "rNextQC ?s1 = rNextQC s" "bView g \<le> preferredView ?s1" by auto
  obtain p where p: "GetBlockByID (rBc s) (qcBlockID (qc_at s r)) = Inr p"
    using assms(4) by (auto simp: GetParentBlock_Inr GetBlockByID_Inr)
  have "hs_updatePreferredView s r = retG (?s1, None)" "hs_updatePreferredView ?s1 r = retG (?s1, None)"
    using assms(3,4) p by (simp_all add: hs_updatePreferredView_def)
  then have same: "hs_certified ?s1 r = retG s'" using assms(5) unfolding hs_certified_def by simp
  have s1: "step_ok s ?s1" using assms(1) by (auto intro: preferred_ok)
  from go_allD [OF hs_certified_ok [OF step_ok_wf [OF s1]] same] assms(2) f(4) have "step_ok ?s1 s'" by simp
  with s1 f(5) step_ok_trans [OF s1] show ?thesis by (auto simp: step_ok_def extends_def)
qed

lemma hs_process_one_locks:
  assumes "chained_wf s" and "block_ok s c" and "\<not> rByz s" and "bQC c = Some r" and "bProposer c \<noteq> rID s"
    and "cur s \<le> qcView (qc_at s r)" and "2 < qcView (qc_at s r)" and "qc_verified e s r"
    and "GetParentBlock (rQCs s) (rBc s) (qcBlockID (qc_at s r)) = retG (Inr g)" and "hs_process_one e s c = retG (s', None)"
  shows "bView g \<le> preferredView s'"
proof -
  let ?s1 = "hs_updateHighQC s r"
  have r: "r < rNextQC s" using assms(2,4) by (simp add: block_ok_def)
  have f: "qc_at ?s1 = qc_at s" "cur ?s1 = cur s" "rID ?s1 = rID s" "rByz ?s1 = rByz s" "rBc ?s1 = rBc s" "rQCs ?s1 = rQCs s"
      "rNextQC ?s1 = rNextQC s"
    by (simp_all add: hs_updateHighQC_def)
  have s1: "chained_wf ?s1" using step_ok_wf [OF hs_updateHighQC_ok [OF assms(1) r]] .
  have "qc_verified e ?s1 r" using assms(8) by (simp add: qc_verified_def f)
  then have pc: "hs_processCertificate e ?s1 (Some r) = hs_certified ?s1 r"
    by (rule qc_verified_check) (use assms(3,6) in \<open>auto simp: hs_processCertificate_def Let_def f not_less split: if_split_asm\<close>)
  from assms(10) obtain s2 where s2: "hs_certified ?s1 r = retG s2" "hs_insert_and_vote e s2 c = retG (s', None)"
    using assms(4,5) by (auto simp: hs_process_one_def Let_def f pc elim!: bindG_RetE split: if_split_asm)
  from hs_certified_locks [OF s1 _ _ _ s2(1), of g] r assms(7,9) have l: "step_ok ?s1 s2" "bView g \<le> preferredView s2" by (simp_all add: f)
  have "small_view (bView c)" using assms(2) by (simp add: block_ok_def)
  from go_allD [OF hs_insert_and_vote_ok [OF step_ok_wf [OF l(1)] this] s2(2)] l(2) show ?thesis
    by (auto simp: step_ok_def extends_def)
qed


definition late_state :: HotStuff where
  "late_state = (links_state ''2'')\<lparr>rPm := AdvanceView (NewPacemaker 4) 4\<rparr>"

definition late_block :: Block where
  "late_block = (link 4)\<lparr>bView := 5, bProposer := ''2'', bSig := [''1'', ''1'']\<rparr>"

lemma late_simps [simp]:
  "bView late_block = 5" "bProposer late_block = ''2''" "bID late_block = 14" "bPrevID late_block = 13" "bQC late_block = Some 4"
  "bSig late_block = [''1'', ''1'']" "cur late_state = 5" "rID late_state = ''1''" "rElect late_state = StaticE (NewStatic ''2'')"
  "qc_at late_state = links_heap" "rQCs late_state = links_heap" "bufferedQCs late_state = Map.empty"
  "preferredView late_state = 0" "lastVotedView late_state = 0" "rOutbox late_state = []" "forrest (rBc late_state) = links3"
  by (simp_all add: late_block_def late_state_def cur_def GetCurView_def AdvanceView_def NewPacemaker_def qc_at_def fun_eq_iff)

definition late_heap :: qcheap where
  "late_heap = links_heap(4 := (links_heap 4)\<lparr>qcView := 4\<rparr>)"

definition locking_state :: HotStuff where
  "locking_state = (links_state ''2'')\<lparr>rPm := AdvanceView (NewPacemaker 4) 3, rQCs := late_heap\<rparr>"

lemma late_insert_votes:
  assumes "forest_inv (forrest (rBc t))" and "LowestLevel (forrest (rBc t)) = 0" and "GetVertex (forrest (rBc t)) 13 = Some (link 3)"
    and "GetVertex (forrest (rBc t)) (bID b) = None" and "bView b = 5" and "bPrevID b = 13" and "bQC b = Some 4" and "bID b \<noteq> 13"
    and "bufferedQCs t = Map.empty" and "preferredView t \<le> 3" and "lastVotedView t = 0" and "rElect t = StaticE (NewStatic ''2'')"
    and "rID t = ''1''"
  shows "\<exists>g v. AddVertex (rQCs t) (forrest (rBc t)) b = retG g \<and>
    hs_insert_and_vote (sample_env 4 True) t b = retG (send (t\<lparr>rBc := (rBc t)\<lparr>forrest := g\<rparr>\<rparr>) (SendTo ''2'' (VoteMsg v)), None)"
proof -
  obtain g where g: "AddVertex (rQCs t) (forrest (rBc t)) b = retG g"
    using AddVertex_returns [of b 4 "rQCs t" "forrest (rBc t)"] assms(7) by auto
  have "GetVertex g i = (if i = bID b then Some b else GetVertex (forrest (rBc t)) i)" for i
    using forest_store.insert_lookup [OF assms(1) g, of i] assms(2,4) by simp
  then have p: "GetParentBlock (rQCs t) ((rBc t)\<lparr>forrest := g\<rparr>) (bID b) = retG (Inr (link 3))"
    using assms(3,6-8) by (simp add: GetParentBlock_Inr)
  have "\<exists>v. hs_insert_and_vote (sample_env 4 True) t b = retG (send (t\<lparr>rBc := (rBc t)\<lparr>forrest := g\<rparr>\<rparr>) (SendTo ''2'' (VoteMsg v)), None)"
    using assms(5,9-13)
    by (simp add: hs_insert_and_vote_def AddBlock_def g hs_take_bufferedQC_def hs_votingRule_def p hs_vote_def Static_FindLeaderFor_def
        NewStatic_def) (rule exI, rule refl)
  with g show ?thesis by blast
qed

definition second_block :: Block where
  "second_block = late_block\<lparr>bID := 15\<rparr>"

lemma locking_simps [simp]:
  "cur locking_state = 4" "rID locking_state = ''1''" "rElect locking_state = StaticE (NewStatic ''2'')" "rByz locking_state = False"
  "qc_at locking_state = late_heap" "rQCs locking_state = late_heap" "bufferedQCs locking_state = Map.empty" "rNextQC locking_state = 5"
  "preferredView locking_state = 0" "lastVotedView locking_state = 0" "forrest (rBc locking_state) = links3" "highQC locking_state = 0"
  "qcView (late_heap 4) = 4" "qcBlockID (late_heap 4) = 13" "qcSigners (late_heap 4) = []" "qcLeader (late_heap 4) = []"
  "qcView (late_heap 0) = -1"
  "bView second_block = 5" "bProposer second_block = ''2''" "bID second_block = 15" "bPrevID second_block = 13" "bQC second_block = Some 4"
  "bSig second_block = [''1'', ''1'']"
  by (simp_all add: second_block_def locking_state_def late_heap_def links_heap_def zero_qc_def cur_def GetCurView_def AdvanceView_def
      NewPacemaker_def qc_at_def fun_eq_iff)

lemma locking_parents:
  "GetParentBlock late_heap (rBc locking_state) 13 = retG (Inr (link 2))" "GetParentBlock late_heap (rBc locking_state) 12 = retG (Inr (link 1))"
  "GetBlockByID (rBc locking_state) 13 = Inr (link 3)"
  by (simp_all add: GetParentBlock_Inr GetBlockByID_Inr links_lookup)

abbreviation locked_state :: HotStuff where
  "locked_state \<equiv> advance (locking_state\<lparr>highQC := 4, preferredView := 2\<rparr>) 4"

lemma locked_simps:
  "cur locked_state = 5" "rID locked_state = ''1''" "rElect locked_state = StaticE (NewStatic ''2'')" "highQC locked_state = 4"
  "qc_at locked_state = late_heap" "rQCs locked_state = late_heap" "bufferedQCs locked_state = Map.empty"
  "preferredView locked_state = 2" "lastVotedView locked_state = 0" "rBc locked_state = rBc locking_state"
  by (simp_all add: advance_def cur_def) (simp add: locking_state_def GetCurView_def AdvanceView_def NewPacemaker_def)

lemma late_views: "i64 6 = 6" "i64 5 = 5" "i64 3 = 3"
  by (simp_all add: i64_id is_i64_def)

lemma locking_certified: "hs_certified (locking_state\<lparr>highQC := 4\<rparr>) 4 = retG locked_state"
  by (simp add: hs_certified_def hs_updateHighQC_def hs_updatePreferredView_def locking_parents Let_def
      hs_commit_def hs_commitRule_def locked_simps late_views)

lemma locking_state_wf: "chained_wf locking_state" "block_ok locking_state late_block" "block_ok locking_state second_block"
  using links_state_wf [of "''2''"]
  by (auto simp: chained_wf_def block_ok_def locking_state_def late_heap_def small_view_def is_i64_def cur_def GetCurView_def AdvanceView_def
      NewPacemaker_def)

lemma first_vote:
  "\<exists>g v. AddVertex late_heap links3 late_block = retG g \<and> hs_process_one (sample_env 4 True) locking_state late_block =
     retG (send (locked_state\<lparr>rBc := (rBc locked_state)\<lparr>forrest := g\<rparr>\<rparr>) (SendTo ''2'' (VoteMsg v)), None)"
proof -
  have "hs_processCertificate (sample_env 4 True) (locking_state\<lparr>highQC := 4\<rparr>) (Some 4) = retG locked_state"
    by (simp add: hs_processCertificate_def Let_def locking_certified VerifyQuorumSignature_def)
  then have one: "hs_process_one (sample_env 4 True) locking_state late_block = hs_insert_and_vote (sample_env 4 True) locked_state late_block"
    by (simp add: hs_process_one_def Let_def late_views Static_IsLeader_def NewStatic_def locked_simps hs_updateHighQC_def)
  have "\<exists>g v. AddVertex (rQCs locked_state) (forrest (rBc locked_state)) late_block = retG g \<and>
      hs_insert_and_vote (sample_env 4 True) locked_state late_block =
        retG (send (locked_state\<lparr>rBc := (rBc locked_state)\<lparr>forrest := g\<rparr>\<rparr>) (SendTo ''2'' (VoteMsg v)), None)"
    by (rule late_insert_votes) (simp_all add: locked_simps links_inv links_lookup)
  then show ?thesis unfolding one locked_simps locking_simps .
qed

lemma second_vote:
  assumes "cur s = 5" and "rID s = ''1''" and "rElect s = StaticE (NewStatic ''2'')" and "highQC s = 4" and "rQCs s = late_heap"
    and "bufferedQCs s = Map.empty" and "preferredView s = 2" and "lastVotedView s = 0" and "forrest (rBc s) = g"
    and "AddVertex late_heap links3 late_block = retG g"
  shows "\<exists>s3. hs_process_one (sample_env 4 True) s second_block = retG (s3, None)"
proof -
  have q: "qc_at s = late_heap" using assms(5) by (simp add: qc_at_def fun_eq_iff)
  have look: "GetVertex g i = (if i = 14 then Some late_block else GetVertex links3 i)" for i
    using forest_store.insert_lookup [OF links_inv(3) assms(10), of i] by (simp add: links_lookup)
  have inv: "forest_inv g" "LowestLevel g = 0"
    using forest_store.insert_wf [OF links_inv(3) assms(10)] forest_store.insert_lowest [OF links_inv(3) assms(10)] by simp_all
  have "\<exists>g v. AddVertex (rQCs s) (forrest (rBc s)) second_block = retG g \<and>
      hs_insert_and_vote (sample_env 4 True) s second_block =
        retG (send (s\<lparr>rBc := (rBc s)\<lparr>forrest := g\<rparr>\<rparr>) (SendTo ''2'' (VoteMsg v)), None)"
    by (rule late_insert_votes) (simp_all add: assms inv look links_lookup)
  moreover have "hs_updateHighQC s 4 = s" by (simp add: hs_updateHighQC_def q assms)
  then have "hs_process_one (sample_env 4 True) s second_block = hs_insert_and_vote (sample_env 4 True) s second_block"
    by (simp add: hs_process_one_def hs_processCertificate_def Let_def q assms late_views Static_IsLeader_def NewStatic_def)
  ultimately show ?thesis by auto
qed

lemma two_votes:
  "\<exists>s1 s3. hs_process_one (sample_env 4 True) locking_state late_block = retG (s1, None) \<and>
     hs_process_one (sample_env 4 True) s1 second_block = retG (s3, None)"
proof -
  obtain g v where g: "AddVertex late_heap links3 late_block = retG g"
      "hs_process_one (sample_env 4 True) locking_state late_block =
         retG (send (locked_state\<lparr>rBc := (rBc locked_state)\<lparr>forrest := g\<rparr>\<rparr>) (SendTo ''2'' (VoteMsg v)), None)"
    using first_vote by blast
  have "\<exists>s3. hs_process_one (sample_env 4 True)
      (send (locked_state\<lparr>rBc := (rBc locked_state)\<lparr>forrest := g\<rparr>\<rparr>) (SendTo ''2'' (VoteMsg v))) second_block = retG (s3, None)"
    by (rule second_vote [OF _ _ _ _ _ _ _ _ _ g(1)]) (use locked_simps in \<open>simp_all add: send_def cur_def\<close>)
  with g(2) show ?thesis by blast
qed


text \<open>
  C28: the lock that agreement asks for is not always taken. A replica that timeouts have moved past the
  view of a block's certificate ignores the certificate and, when it then votes for the block, sends the
  vote with its lock as it was, whatever the views of the block's ancestors.
\<close>
theorem hs_vote_misses_lock:
  assumes "bQC b = Some r" and "qcView (qc_at s r) < cur s" and "bufferedQCs s (bID b) = None"
    and "FindLeaderFor (rElect s) (i64 (bView b + 1)) = retG agg" and "agg \<noteq> rID s"
    and "hs_process_one e s b = retG (s', None)"
  shows "preferredView s' = preferredView s \<and> cur s' = cur s \<and>
     (\<exists>vote. rOutbox s' = rOutbox s @ [SendTo agg (VoteMsg vote)] \<and> vBlockID vote = bID b \<and> vView vote = bView b)"
proof -
  let ?s1 = "hs_updateHighQC s r"
  have f: "qc_at ?s1 = qc_at s" "cur ?s1 = cur s" "preferredView ?s1 = preferredView s" "rOutbox ?s1 = rOutbox s"
      "rID ?s1 = rID s" "rElect ?s1 = rElect s" "bufferedQCs ?s1 = bufferedQCs s"
    by (simp_all add: hs_updateHighQC_def)
  have "hs_processCertificate e ?s1 (Some r) = retG ?s1"
    using assms(2) by (simp add: hs_processCertificate_def f)
  then have "hs_insert_and_vote e ?s1 b = retG (s', None)"
    using assms(1,6) by (auto simp: hs_process_one_def Let_def elim!: bindG_RetE split: if_split_asm)
  then obtain bc' where "hs_vote e (?s1\<lparr>rBc := bc'\<rparr>) b = retG s'"
    using assms(3)
    by (auto simp: hs_insert_and_vote_def hs_take_bufferedQC_def f elim!: bindG_RetE split: sum.split_asm if_split_asm)
  with assms(4,5) obtain vote where "s' = send (?s1\<lparr>rBc := bc'\<rparr>) (SendTo agg (VoteMsg vote))"
      "MakeVote e (bView b) (rID s) (bID b) = retG vote"
    by (auto simp: hs_vote_def f elim!: bindG_RetE)
  then show ?thesis
    by (auto simp: send_def f MakeVote_def elim!: bindG_RetE split: sum.split_asm)
qed

lemma late_vote: "\<exists>s'. hs_process_one (sample_env 4 True) late_state late_block = retG (s', None)"
proof -
  let ?s1 = "hs_updateHighQC late_state 4"
  have f: "qc_at ?s1 = links_heap" "cur ?s1 = 5" "rID ?s1 = ''1''" "rElect ?s1 = StaticE (NewStatic ''2'')" "rBc ?s1 = rBc late_state"
      "bufferedQCs ?s1 = Map.empty" "rQCs ?s1 = links_heap" "preferredView ?s1 = 0" "lastVotedView ?s1 = 0"
    by (simp_all add: hs_updateHighQC_def)
  have "\<exists>s'. hs_insert_and_vote (sample_env 4 True) ?s1 late_block = retG (s', None)"
    using late_insert_votes [of ?s1 late_block] by (auto simp: f links_inv links_lookup)
  moreover have "i64 6 = 6" by (simp add: i64_id is_i64_def)
  ultimately show ?thesis
    by (simp add: hs_process_one_def hs_processCertificate_def Let_def f Static_IsLeader_def NewStatic_def)
qed

theorem hs_vote_misses_lock_witness:
  "\<exists>s'. hs_process_one (sample_env 4 True) late_state late_block = retG (s', None) \<and> preferredView s' = 0 \<and>
     length (rOutbox s') = 1 \<and> GetVertex (forrest (rBc late_state)) (bPrevID (link 3)) = Some (link 2) \<and> bView (link 2) = 2"
proof -
  obtain s' where s': "hs_process_one (sample_env 4 True) late_state late_block = retG (s', None)" using late_vote by blast
  from hs_vote_misses_lock [of late_block 4 late_state "''2''", OF _ _ _ _ _ s'] s' show ?thesis
    by (auto simp: Static_FindLeaderFor_def NewStatic_def links_lookup)
qed

section \<open>A view that is not signed\<close>

text \<open>
  The view of a certificate is the view in the vote that completes it, whatever that says: the signature of
  a vote covers the block alone, so that a node whose signature is good can give the certificate any view. For
  this reason \<open>vote_genuine\<close> asks that a vote has the view of its block.
\<close>
theorem last_vote_sets_view:
  assumes "Quorum_Add ord q vote = (q', True, Some qc)"
  shows "\<exists>q'' qc'. Quorum_Add ord q (vote\<lparr>vView := v\<rparr>) = (q'', True, Some qc') \<and> qcView qc' = v \<and> qcBlockID qc' = qcBlockID qc"
proof -
  have len: "length (AList.update k a al) = length (AList.update k b al)" for k a b and al :: vote_list
    by (induction al) auto
  have nf: "\<not> superMajority q (vBlockID vote)" and b: "snd (counted_add q vote)"
    using assms Quorum_Add_ord [of ord q vote] by (auto simp: Quorum_Add_def split: if_split_asm)
  let ?w = "vote\<lparr>vView := v\<rparr>"
  have nw: "\<not> superMajority q (vBlockID ?w)" using nf by simp
  have "superMajority (fst (counted_add q ?w)) (vBlockID ?w)"
    using b counted_add_new [OF nf] counted_add_new [OF nw] len [of "vVoter vote" vote "votes_of q (vBlockID vote)" ?w]
    by (simp add: superMajority_iff votes_of_def)
  moreover obtain vs where "qVotes (fst (counted_add q ?w)) (vBlockID ?w) = Some vs" using counted_add_new(1) [OF nw] by simp
  moreover have "qcBlockID qc = vBlockID vote"
    using assms by (auto simp: Quorum_Add_def Let_def split: prod.split_asm if_split_asm)
  ultimately show ?thesis using Quorum_Add_new [OF nw refl, of vs ord] by simp
qed

theorem last_vote_sets_view_witness:
  "\<exists>q' qc. Quorum_Add rev (sample_quorum [''1'', ''2''] 7) ((sample_vote ''3'' 7)\<lparr>vView := 99\<rparr>) = (q', True, Some qc) \<and> qcView qc = 99"
proof -
  obtain q' qc where "Quorum_Add rev (sample_quorum [''1'', ''2''] 7) (sample_vote ''3'' 7) = (q', True, Some qc)"
    by (simp add: quorum_eval)
  from last_vote_sets_view [OF this, of 99] show ?thesis by blast
qed

end
