(* ===== verification/Streamlet.thy ===== *)
theory Streamlet
  imports Safety
begin

text \<open>
  The Streamlet replica (streamlet/streamlet.go). \<open>ProcessBlock\<close>, \<open>ProcessVote\<close> and
  \<open>processCertificate\<close> call each other, so the three are one function \<open>sl_call\<close> on a call; what
  each does between its calls is a definition of its own. A goroutine started for a view change is
  an entry of \<open>sSpawned\<close> until it runs.
\<close>

record Streamlet =
  sID :: NodeID
  sElect :: Election
  sPm :: Pacemaker
  sBc :: BlockChain
  notarizedChain :: "Block list list"
  sBufferedBlocks :: "Identifier \<rightharpoonup> Block"
  sBufferedQCs :: "Identifier \<rightharpoonup> qcref"
  bufferedNotarizedBlock :: "Identifier \<rightharpoonup> qcref"
  sCommitted :: "Block list"
  sForked :: "Block list"
  echoedBlock :: "Identifier set"
  echoedVote :: "Identifier set"
  sQCs :: qcheap
  sNextQC :: nat
  sOutbox :: "packet list"
  sSpawned :: "View list"

definition sl_advance :: "Streamlet \<Rightarrow> View \<Rightarrow> Streamlet" where
  "sl_advance s view = s\<lparr>sPm := AdvanceView (sPm s) view\<rparr>"

definition sl_cur :: "Streamlet \<Rightarrow> View" where
  "sl_cur s = GetCurView (sPm s)"

definition sl_broadcast :: "Streamlet \<Rightarrow> msg \<Rightarrow> Streamlet" where
  "sl_broadcast s m = s\<lparr>sOutbox := sOutbox s @ [Broadcast m]\<rparr>"

definition sl_alloc :: "Streamlet \<Rightarrow> QC \<Rightarrow> Streamlet \<times> qcref" where
  "sl_alloc s qc = (s\<lparr>sQCs := (sQCs s)(sNextQC s := qc), sNextQC := Suc (sNextQC s)\<rparr>, sNextQC s)"

definition NewStreamlet :: "env \<Rightarrow> NodeID \<Rightarrow> Pacemaker \<Rightarrow> Election \<Rightarrow> Streamlet" where
  "NewStreamlet e nodeID pm elec =
     sl_advance \<lparr>sID = nodeID, sElect = elec, sPm = pm, sBc = NewBlockchain (config_N (cfg e)),
       notarizedChain = [], sBufferedBlocks = Map.empty, sBufferedQCs = Map.empty,
       bufferedNotarizedBlock = Map.empty, sCommitted = [], sForked = [],
       echoedBlock = {}, echoedVote = {}, sQCs = (\<lambda>_. zero_qc), sNextQC = 0, sOutbox = [], sSpawned = []\<rparr> 0"

definition GetNotarizedHeight :: "Streamlet \<Rightarrow> int" where
  "GetNotarizedHeight s = int (length (notarizedChain s))"

definition sl_votingRule :: "Streamlet \<Rightarrow> Block \<Rightarrow> bool go" where
  "sl_votingRule s block =
     (if bView block \<le> 2 then retG True
      else bindG (index_slice (notarizedChain s) (GetNotarizedHeight s - 1)) (\<lambda>lastBlocks.
        retG (list_ex (\<lambda>b. bPrevID block = bID b) lastBlocks)))"

definition sl_commitRule :: "Streamlet \<Rightarrow> Block option go" where
  "sl_commitRule s =
     (let height = GetNotarizedHeight s in
      if height < 3 then retG None
      else
        bindG (index_slice (notarizedChain s) (height - 1)) (\<lambda>lastBlocks.
          if length lastBlocks \<noteq> 1 then retG None
          else
            bindG (index_slice (notarizedChain s) (height - 2)) (\<lambda>secondBlocks.
              if length secondBlocks \<noteq> 1 then retG None
              else
                bindG (index_slice (notarizedChain s) (height - 3)) (\<lambda>firstBlocks.
                  if length firstBlocks \<noteq> 1 then retG None
                  else if i64 (bView (hd firstBlocks) + 1) = bView (hd secondBlocks) \<and>
                          i64 (bView (hd secondBlocks) + 1) = bView (hd lastBlocks)
                       then retG (Some (hd secondBlocks)) else retG None))))"

text \<open>
  The search of \<open>updateNotarizedChain\<close> for the parent among the notarized blocks, from row \<open>i\<close>
  down. The condition of the loop is the source's: it also admits negative rows.
\<close>

function sl_find_parent :: "Block list list \<Rightarrow> Block \<Rightarrow> int \<Rightarrow> bool go" where
  "sl_find_parent chain block i =
     (if i \<ge> 0 \<or> i \<ge> int (length chain) - 3 then
        (if i < 0 \<or> int (length chain) \<le> i then panicG IndexOutOfRange
         else if list_ex (\<lambda>b. bID b = bPrevID block) (chain ! nat i) then retG True
         else sl_find_parent chain block (i - 1))
      else retG False)"
  by pat_completeness auto
termination
  by (relation "measure (\<lambda>(chain, block, i). nat (i + 1))") auto

declare sl_find_parent.simps [simp del]

text \<open>A block whose parent is found starts a new row, wherever the parent was found.\<close>

definition sl_updateNotarizedChain :: "Streamlet \<Rightarrow> qcref \<Rightarrow> (Streamlet \<times> go_error option) go" where
  "sl_updateNotarizedChain s r =
     (case GetBlockByID (sBc s) (qcBlockID (sQCs s r)) of
        Inl err \<Rightarrow> retG (s, Some CannotFindTheBlock)
      | Inr block \<Rightarrow>
          if GetNotarizedHeight s = 0
          then retG (s\<lparr>notarizedChain := notarizedChain s @ [[block]]\<rparr>, None)
          else
            bindG (sl_find_parent (notarizedChain s) block (GetNotarizedHeight s - 1)) (\<lambda>found.
              if found then retG (s\<lparr>notarizedChain := notarizedChain s @ [[block]]\<rparr>, None)
              else retG (s\<lparr>bufferedNotarizedBlock := (bufferedNotarizedBlock s)(bPrevID block \<mapsto> r)\<rparr>,
                     Some NotExtendingNotarized)))"

text \<open>The commit of \<open>block\<close>. \<open>True\<close> says that the handler goes on to its buffers.\<close>

definition sl_commit :: "Streamlet \<Rightarrow> Block \<Rightarrow> (Streamlet \<times> bool) go" where
  "sl_commit s block =
     bindG (CommitBlock (sQCs s) (sBc s) (bID block) (sl_cur s)) (\<lambda>(bc', res).
       case res of
         Inl err \<Rightarrow> retG (s\<lparr>sBc := bc'\<rparr>, False)
       | Inr (cBlocks, fBlocks) \<Rightarrow>
           retG (s\<lparr>sBc := bc', sCommitted := sCommitted s @ cBlocks,
                    echoedBlock := echoedBlock s - bID ` set cBlocks,
                    echoedVote := echoedVote s - bID ` set cBlocks,
                    sForked := sForked s @ fBlocks\<rparr>, True))"

text \<open>\<open>processCertificate\<close> up to the look at its buffers; \<open>False\<close> is a return before that.\<close>

definition sl_notarize :: "Streamlet \<Rightarrow> qcref \<Rightarrow> (Streamlet \<times> bool) go" where
  "sl_notarize s r =
     bindG (sl_updateNotarizedChain s r) (\<lambda>(s1, err).
       if err \<noteq> None then retG (s1, False)
       else
         let s2 = sl_advance s1 (qcView (sQCs s1 r)) in
         if qcView (sQCs s2 r) < 3 then retG (s2, False)
         else
           bindG (sl_commitRule s2) (\<lambda>rule.
             case rule of
               None \<Rightarrow> retG (s2, False)
             | Some block \<Rightarrow> sl_commit s2 block))"

definition sl_certify :: "env \<Rightarrow> Streamlet \<Rightarrow> qcref \<Rightarrow> (Streamlet \<times> bool) go" where
  "sl_certify e s r =
     (let q = sQCs s r in
      if qcView q < sl_cur s then retG (s, False)
      else if (case GetBlockByID (sBc s) (qcBlockID q) of Inl _ \<Rightarrow> True | Inr _ \<Rightarrow> False) \<and> qcView q > 1
      then retG (s\<lparr>sBufferedQCs := (sBufferedQCs s)(qcBlockID q \<mapsto> r)\<rparr>, False)
      else
        bindG (if qcLeader q \<noteq> sID s
               then VerifyQuorumSignature e (qcAggSig q) (qcBlockID q) (qcSigners q)
               else retG (True, None)) (\<lambda>(quorumIsVerified, _).
          if \<not> quorumIsVerified then retG (s, False) else sl_notarize s r))"

text \<open>\<open>ProcessVote\<close> up to the handling of the certificate that the vote completes.\<close>

definition sl_count :: "env \<Rightarrow> Streamlet \<Rightarrow> Vote \<Rightarrow> (Streamlet \<times> qcref option) go" where
  "sl_count e s vote =
     bindG (if vVoter vote \<noteq> sID s
            then PubVerify e (vSig vote) (IDToByte (vBlockID vote)) (vVoter vote)
            else retG (True, None)) (\<lambda>(voteIsVerified, err).
       if err \<noteq> None then panicG LogFatal
       else if \<not> voteIsVerified then retG (s, None)
       else
         let s1 = (if vBlockID vote \<in> echoedBlock s then s
                   else sl_broadcast (s\<lparr>echoedBlock := insert (vBlockID vote) (echoedBlock s)\<rparr>) (VoteMsg vote))
         in case AddVote (vote_order e) (sBc s1) vote of
              (bc', isBuilt, qc) \<Rightarrow>
                let s2 = s1\<lparr>sBc := bc'\<rparr> in
                if \<not> isBuilt then retG (s2, None)
                else case qc of
                  None \<Rightarrow> panicG NilDereference
                | Some q \<Rightarrow> (case sl_alloc s2 q of (s3, r) \<Rightarrow> retG (s3, Some r)))"

text \<open>
  \<open>ProcessBlock\<close> from the echo of the block on, and from the start, up to the vote. \<open>Some err\<close>
  is a return with the error \<open>err\<close>, \<open>None\<close> says that the replica votes.
\<close>

definition sl_insert :: "Streamlet \<Rightarrow> Block \<Rightarrow> (Streamlet \<times> go_error option option) go" where
  "sl_insert s block =
     (let s1 = (if bID block \<in> echoedBlock s then s
                else sl_broadcast (s\<lparr>echoedBlock := insert (bID block) (echoedBlock s)\<rparr>) (BlockMsg block))
      in bindG (AddBlock (sQCs s1) (sBc s1) block) (\<lambda>bc'.
           let s2 = s1\<lparr>sBc := bc'\<rparr> in
           bindG (sl_votingRule s2 block) (\<lambda>shouldVote.
             if \<not> shouldVote
             then retG (s2\<lparr>sBufferedBlocks := (sBufferedBlocks s2)(bPrevID block \<mapsto> block)\<rparr>, Some None)
             else retG (s2, None))))"

definition sl_receive :: "env \<Rightarrow> Streamlet \<Rightarrow> Block \<Rightarrow> (Streamlet \<times> go_error option option) go" where
  "sl_receive e s block =
     (if Exists (sBc s) (bID block) then retG (s, Some None)
      else if bView block < sl_cur s then retG (s, Some (Some StaleBlock))
      else if (case GetBlockByID (sBc s) (bPrevID block) of Inl _ \<Rightarrow> True | Inr _ \<Rightarrow> False) \<and> bView block > 1
      then retG (s\<lparr>sBufferedBlocks := (sBufferedBlocks s)(bPrevID block \<mapsto> block)\<rparr>, Some None)
      else
        bindG (IsLeader (sElect s) (bProposer block) (bView block)) (\<lambda>leader.
          if \<not> leader then retG (s, Some (Some (InvalidLeader (bView block) (bProposer block))))
          else
            bindG (if bProposer block \<noteq> sID s
                   then PubVerify e (bSig block) (IDToByte (bID block)) (bProposer block)
                   else retG (True, None)) (\<lambda>_.
              sl_insert s block)))"

datatype call = ProcessBlock Block | ProcessVote Vote | processCertificate qcref

partial_function (option) sl_call :: "env \<Rightarrow> Streamlet \<Rightarrow> call \<Rightarrow> (Streamlet \<times> go_error option) go" where
  "sl_call e s c =
     (case c of
        ProcessBlock block \<Rightarrow>
          bindG (sl_receive e s block) (\<lambda>(s1, ret).
            case ret of
              Some err \<Rightarrow> retG (s1, err)
            | None \<Rightarrow>
                bindG (MakeVote e (bView block) (sID s1) (bID block)) (\<lambda>vote.
                bindG (sl_call e s1 (ProcessVote vote)) (\<lambda>(s2, _).
                bindG (case sBufferedQCs (sl_broadcast s2 (VoteMsg vote)) (bID block) of
                         None \<Rightarrow> retG (sl_broadcast s2 (VoteMsg vote), None)
                       | Some r \<Rightarrow> sl_call e (sl_broadcast s2 (VoteMsg vote)) (processCertificate r)) (\<lambda>(s3, _).
                  case sBufferedBlocks s3 (bID block) of
                    None \<Rightarrow> retG (s3, None)
                  | Some b \<Rightarrow> bindG (sl_call e s3 (ProcessBlock b)) (\<lambda>(s4, _). retG (s4, None))))))
      | ProcessVote vote \<Rightarrow>
          bindG (sl_count e s vote) (\<lambda>(s1, built).
            case built of
              None \<Rightarrow> retG (s1, None)
            | Some r \<Rightarrow> sl_call e s1 (processCertificate r))
      | processCertificate r \<Rightarrow>
          bindG (sl_certify e s r) (\<lambda>(s1, on).
            if \<not> on then retG (s1, None)
            else
              bindG (case sBufferedBlocks s1 (qcBlockID (sQCs s1 r)) of
                       None \<Rightarrow> retG s1
                     | Some b \<Rightarrow>
                         bindG (sl_call e s1 (ProcessBlock b)) (\<lambda>(s2, _).
                           retG (s2\<lparr>sBufferedBlocks := (sBufferedBlocks s2)(qcBlockID (sQCs s2 r) := None)\<rparr>))) (\<lambda>s3.
                case bufferedNotarizedBlock s3 (qcBlockID (sQCs s3 r)) of
                  None \<Rightarrow> retG (s3, None)
                | Some r' \<Rightarrow>
                    bindG (sl_call e s3 (processCertificate r')) (\<lambda>(s4, _).
                      retG (s4\<lparr>sBufferedQCs := (sBufferedQCs s4)(qcBlockID (sQCs s4 r') := None)\<rparr>, None)))))"

definition sl_ProcessBlock :: "env \<Rightarrow> Streamlet \<Rightarrow> Block \<Rightarrow> (Streamlet \<times> go_error option) go" where
  "sl_ProcessBlock e s block = sl_call e s (ProcessBlock block)"

definition sl_ProcessVote :: "env \<Rightarrow> Streamlet \<Rightarrow> Vote \<Rightarrow> Streamlet go" where
  "sl_ProcessVote e s vote = bindG (sl_call e s (ProcessVote vote)) (\<lambda>(s', _). retG s')"

definition sl_processCertificate :: "env \<Rightarrow> Streamlet \<Rightarrow> qcref \<Rightarrow> Streamlet go" where
  "sl_processCertificate e s r = bindG (sl_call e s (processCertificate r)) (\<lambda>(s', _). retG s')"

definition sl_processTC :: "Streamlet \<Rightarrow> TC \<Rightarrow> Streamlet" where
  "sl_processTC s tc = (if tcView tc < sl_cur s then s else s\<lparr>sSpawned := sSpawned s @ [tcView tc]\<rparr>)"

text \<open>The scheduler runs the goroutine at position \<open>k\<close>.\<close>

definition sl_run_spawned :: "Streamlet \<Rightarrow> nat \<Rightarrow> Streamlet" where
  "sl_run_spawned s k =
     (if k < length (sSpawned s)
      then (sl_advance s (sSpawned s ! k))\<lparr>sSpawned := take k (sSpawned s) @ drop (Suc k) (sSpawned s)\<rparr>
      else s)"

definition sl_ProcessRemoteTmo :: "Streamlet \<Rightarrow> TMO \<Rightarrow> Streamlet go" where
  "sl_ProcessRemoteTmo s tmo =
     (case pm_ProcessRemoteTmo (sPm s) tmo of
        (pm', isBuilt, tc) \<Rightarrow>
          let s1 = s\<lparr>sPm := pm'\<rparr> in
          if \<not> isBuilt then retG s1
          else case tc of
            None \<Rightarrow> panicG NilDereference
          | Some c \<Rightarrow> retG (sl_processTC s1 c))"

definition sl_ProcessLocalTmo :: "Streamlet \<Rightarrow> View \<Rightarrow> Streamlet go" where
  "sl_ProcessLocalTmo s view =
     (let tmo = \<lparr>tmoView = view, tmoNodeID = sID s, tmoHighQC = None\<rparr>
      in sl_ProcessRemoteTmo (sl_broadcast s (TmoMsg tmo)) tmo)"

definition sl_forkChoice :: "env \<Rightarrow> Streamlet \<Rightarrow> Identifier go" where
  "sl_forkChoice e s =
     (if GetNotarizedHeight s = 0 then blockID_of e (RawText ''Genesis block'')
      else
        bindG (index_slice (notarizedChain s) (GetNotarizedHeight s - 1)) (\<lambda>tail.
        bindG (index_slice tail 0) (\<lambda>tailNotarizedBlock.
          retG (bID tailNotarizedBlock))))"

definition sl_MakeProposal :: "env \<Rightarrow> Streamlet \<Rightarrow> View \<Rightarrow> Transaction list \<Rightarrow> (Streamlet \<times> Block) go" where
  "sl_MakeProposal e s view payload =
     bindG (sl_forkChoice e s) (\<lambda>prevID.
       case sl_alloc s (zero_qc\<lparr>qcView := 0, qcBlockID := prevID\<rparr>) of
         (s1, r) \<Rightarrow>
           bindG (MakeBlock e (sQCs s1) view (Some r) prevID payload (sID s1)) (\<lambda>block. retG (s1, block)))"

definition sl_MakePProposal ::
  "env \<Rightarrow> (nat \<Rightarrow> PartialOrderBatch option) \<Rightarrow> Streamlet \<Rightarrow> View \<Rightarrow> (Streamlet \<times> Block) go" where
  "sl_MakePProposal e answers s view =
     bindG (sl_forkChoice e s) (\<lambda>prevID.
     bindG (poll_batch answers 0) (\<lambda>priori.
       case sl_alloc s (zero_qc\<lparr>qcView := 0, qcBlockID := prevID\<rparr>) of
         (s1, r) \<Rightarrow>
           bindG (MakePBlock e (sQCs s1) view (Some r) prevID (Some priori) (sID s1)) (\<lambda>block. retG (s1, block))))"

end
