(* ===== verification/Streamlet_Inv.thy ===== *)
theory Streamlet_Inv
  imports Streamlet
begin

text \<open>
  The invariant of the Streamlet replica and the proof that it provides the safety interface: every
  handler keeps the invariant, never goes back to an earlier view, and only adds to the notarized
  chain, the committed blocks and the messages sent.
\<close>

definition sl_block_ok :: "Streamlet \<Rightarrow> Block \<Rightarrow> bool" where
  "sl_block_ok s b \<longleftrightarrow> small_view (bView b) \<and> (\<forall>r. bQC b = Some r \<longrightarrow> r < sNextQC s)"

definition sl_wf :: "Streamlet \<Rightarrow> bool" where
  "sl_wf s \<longleftrightarrow> bc_ok (sBc s) \<and> is_i64 (sl_cur s) \<and> (\<forall>r. small_view (qcView (sQCs s r))) \<and>
     (\<forall>i r. sBufferedQCs s i = Some r \<longrightarrow> r < sNextQC s) \<and>
     (\<forall>i r. bufferedNotarizedBlock s i = Some r \<longrightarrow> r < sNextQC s) \<and>
     (\<forall>i b. sBufferedBlocks s i = Some b \<longrightarrow> bPrevID b = i \<and> sl_block_ok s b) \<and>
     list_all (\<lambda>row. length row = 1) (notarizedChain s) \<and> list_all small_view (sSpawned s)"

definition sl_extends :: "Streamlet \<Rightarrow> Streamlet \<Rightarrow> bool" where
  "sl_extends s s' \<longleftrightarrow> sID s' = sID s \<and> sElect s' = sElect s \<and> sl_cur s \<le> sl_cur s' \<and>
     sNextQC s \<le> sNextQC s' \<and> (\<forall>r < sNextQC s. sQCs s' r = sQCs s r) \<and>
     prefix (notarizedChain s) (notarizedChain s') \<and> prefix (sCommitted s) (sCommitted s') \<and>
     prefix (sForked s) (sForked s') \<and> prefix (sOutbox s) (sOutbox s')"

definition sl_step :: "Streamlet \<Rightarrow> Streamlet \<Rightarrow> bool" where
  "sl_step s s' \<longleftrightarrow> sl_wf s' \<and> sl_extends s s'"

lemma sl_step_refl [simp]: "sl_wf s \<Longrightarrow> sl_step s s"
  by (simp add: sl_step_def sl_extends_def)

lemma sl_step_trans [trans]: "sl_step s s1 \<Longrightarrow> sl_step s1 s2 \<Longrightarrow> sl_step s s2"
  unfolding sl_step_def sl_extends_def by (auto intro: order_trans prefix_order.trans less_le_trans)

lemma sl_step_wf: "sl_step s s' \<Longrightarrow> sl_wf s'"
  by (simp add: sl_step_def)

lemma sl_step_ref: "sl_step s s' \<Longrightarrow> r < sNextQC s \<Longrightarrow> r < sNextQC s' \<and> sQCs s' r = sQCs s r"
  by (auto simp: sl_step_def sl_extends_def)

lemma sl_step_block: "sl_step s s' \<Longrightarrow> sl_block_ok s b \<Longrightarrow> sl_block_ok s' b"
  by (auto simp: sl_step_def sl_extends_def sl_block_ok_def intro: less_le_trans)

lemma sl_step_all2:
  "sl_step s s1 \<Longrightarrow> go_all (\<lambda>(s', _). sl_step s1 s') m \<Longrightarrow> go_all (\<lambda>(s', _). sl_step s s') m"
  by (auto simp: go_all_def intro: sl_step_trans)

lemma sl_wf_view [simp]: "sl_wf s \<Longrightarrow> small_view (qcView (sQCs s r))"
  by (simp add: sl_wf_def)

lemmas sl_defs = sl_step_def sl_extends_def sl_wf_def sl_block_ok_def

lemma sl_cur_update [simp]:
  "sl_cur (s\<lparr>sBc := c\<rparr>) = sl_cur s" "sl_cur (s\<lparr>notarizedChain := n\<rparr>) = sl_cur s"
  "sl_cur (s\<lparr>sBufferedBlocks := bb\<rparr>) = sl_cur s" "sl_cur (s\<lparr>sBufferedQCs := q\<rparr>) = sl_cur s"
  "sl_cur (s\<lparr>bufferedNotarizedBlock := q\<rparr>) = sl_cur s" "sl_cur (s\<lparr>sOutbox := os\<rparr>) = sl_cur s"
  "sl_cur (s\<lparr>echoedBlock := E\<rparr>) = sl_cur s" "sl_cur (s\<lparr>echoedVote := E\<rparr>) = sl_cur s"
  "sl_cur (s\<lparr>sCommitted := cs\<rparr>) = sl_cur s" "sl_cur (s\<lparr>sForked := cs\<rparr>) = sl_cur s"
  "sl_cur (s\<lparr>sQCs := h, sNextQC := n'\<rparr>) = sl_cur s" "sl_cur (s\<lparr>sSpawned := vs\<rparr>) = sl_cur s"
  by (simp_all add: sl_cur_def)

section \<open>The elementary changes\<close>

lemma sl_advance_ok:
  assumes "sl_wf s" and "small_view v"
  shows "sl_step s (sl_advance s v)"
proof -
  have "i64 (v + 1) = v + 1" "is_i64 (v + 1)"
    using assms(2) by (auto simp: small_view_def i64_succ is_i64_def)
  then have "sl_cur s \<le> sl_cur (sl_advance s v)" "is_i64 (sl_cur (sl_advance s v))"
    using assms(1) by (auto simp: sl_cur_def sl_advance_def AdvanceView_def GetCurView_def sl_wf_def)
  with assms show ?thesis by (simp add: sl_defs sl_advance_def)
qed

lemma sl_pm_ok: "sl_wf s \<Longrightarrow> curView p = curView (sPm s) \<Longrightarrow> sl_step s (s\<lparr>sPm := p\<rparr>)"
  by (simp add: sl_defs sl_cur_def GetCurView_def)

lemma sl_bc_ok: "sl_wf s \<Longrightarrow> bc_ok c \<Longrightarrow> sl_step s (s\<lparr>sBc := c\<rparr>)"
  by (simp add: sl_defs)

lemma sl_bufferQC_ok:
  "sl_wf s \<Longrightarrow> r < sNextQC s \<Longrightarrow> sl_step s (s\<lparr>sBufferedQCs := (sBufferedQCs s)(i \<mapsto> r)\<rparr>)"
  by (simp add: sl_defs)

lemma sl_dropQC_ok: "sl_wf s \<Longrightarrow> sl_step s (s\<lparr>sBufferedQCs := (sBufferedQCs s)(i := None)\<rparr>)"
  by (simp add: sl_defs)

lemma sl_bufferNotarized_ok:
  "sl_wf s \<Longrightarrow> r < sNextQC s \<Longrightarrow> sl_step s (s\<lparr>bufferedNotarizedBlock := (bufferedNotarizedBlock s)(i \<mapsto> r)\<rparr>)"
  by (simp add: sl_defs)

lemma sl_bufferBlock_ok:
  "sl_wf s \<Longrightarrow> sl_block_ok s b \<Longrightarrow> sl_step s (s\<lparr>sBufferedBlocks := (sBufferedBlocks s)(bPrevID b \<mapsto> b)\<rparr>)"
  by (simp add: sl_defs)

lemma sl_dropBlock_ok: "sl_wf s \<Longrightarrow> sl_step s (s\<lparr>sBufferedBlocks := (sBufferedBlocks s)(i := None)\<rparr>)"
  by (simp add: sl_defs)

lemma sl_dropBlock_step:
  "sl_step s s1 \<Longrightarrow> sl_step s (s1\<lparr>sBufferedBlocks := (sBufferedBlocks s1)(i := None)\<rparr>)"
  by (rule sl_step_trans, assumption, rule sl_dropBlock_ok, erule sl_step_wf)

lemma sl_dropQC_step:
  "sl_step s s1 \<Longrightarrow> sl_step s (s1\<lparr>sBufferedQCs := (sBufferedQCs s1)(i := None)\<rparr>)"
  by (rule sl_step_trans, assumption, rule sl_dropQC_ok, erule sl_step_wf)

lemma sl_notarize_row_ok: "sl_wf s \<Longrightarrow> sl_step s (s\<lparr>notarizedChain := notarizedChain s @ [[b]]\<rparr>)"
  by (simp add: sl_defs)

lemma sl_broadcast_ok: "sl_wf s \<Longrightarrow> sl_step s (sl_broadcast s m)"
  by (simp add: sl_defs sl_broadcast_def)

lemma sl_echo_ok: "sl_wf s \<Longrightarrow> sl_step s (sl_broadcast (s\<lparr>echoedBlock := E\<rparr>) m)"
  by (simp add: sl_defs sl_broadcast_def)

lemma sl_committed_ok:
  "sl_wf s \<Longrightarrow> bc_ok c \<Longrightarrow> sl_step s (s\<lparr>sBc := c, sCommitted := sCommitted s @ xs, echoedBlock := E,
     echoedVote := V, sForked := sForked s @ ys\<rparr>)"
  by (simp add: sl_defs)

lemma sl_spawn_ok: "sl_wf s \<Longrightarrow> small_view v \<Longrightarrow> sl_step s (s\<lparr>sSpawned := sSpawned s @ [v]\<rparr>)"
  by (simp add: sl_defs)

lemma sl_alloc_ok:
  assumes "sl_wf s" and "small_view (qcView q)" and "sl_alloc s q = (s', r)"
  shows "sl_step s s'" and "r < sNextQC s'"
proof -
  have s': "s' = s\<lparr>sQCs := (sQCs s)(sNextQC s := q), sNextQC := Suc (sNextQC s)\<rparr>" and r: "r = sNextQC s"
    using assms(3) by (auto simp: sl_alloc_def)
  show "sl_step s s'" using assms(1,2) by (auto simp: sl_defs s' intro: less_SucI)
  show "r < sNextQC s'" by (simp add: s' r)
qed

section \<open>The parts of the handlers\<close>

lemma sl_updateNotarizedChain_ok:
  assumes "sl_wf s" and "r < sNextQC s"
  shows "go_all (\<lambda>(s', _). sl_step s s') (sl_updateNotarizedChain s r)"
  using assms
  by (auto simp: sl_updateNotarizedChain_def split: sum.split
      intro!: go_all_bind_any sl_notarize_row_ok sl_bufferNotarized_ok)

lemma sl_commit_ok:
  assumes "sl_wf s"
  shows "go_all (\<lambda>(s', _). sl_step s s') (sl_commit s b)"
proof -
  have "bc_ok (sBc s)" using assms by (simp add: sl_wf_def)
  from CommitBlock_ok [OF this] show ?thesis
    unfolding sl_commit_def by (rule go_all_bind)
      (use assms in \<open>auto split: sum.split intro: sl_bc_ok sl_committed_ok\<close>)
qed

lemma sl_notarize_ok:
  assumes "sl_wf s" and "r < sNextQC s"
  shows "go_all (\<lambda>(s', _). sl_step s s') (sl_notarize s r)"
  unfolding sl_notarize_def
proof (rule go_all_bind [OF sl_updateNotarizedChain_ok [OF assms]], clarify)
  fix s1 err assume s1: "sl_step s s1"
  let ?s2 = "sl_advance s1 (qcView (sQCs s1 r))"
  have s2: "sl_step s ?s2"
    using sl_advance_ok [OF sl_step_wf [OF s1] sl_wf_view [OF sl_step_wf [OF s1]]] s1 by (blast intro: sl_step_trans)
  have "go_all (\<lambda>(s', _). sl_step s s') (bindG (sl_commitRule ?s2) (\<lambda>rule.
      case rule of None \<Rightarrow> retG (?s2, False) | Some block \<Rightarrow> sl_commit ?s2 block))"
    using s2 sl_step_all2 [OF s2 sl_commit_ok [OF sl_step_wf [OF s2]]]
    by (auto intro!: go_all_bind_any split: option.split)
  with s1 s2 show "go_all (\<lambda>(s', _). sl_step s s') (if err \<noteq> None then retG (s1, False)
       else let s2 = ?s2 in if qcView (sQCs s2 r) < 3 then retG (s2, False)
         else bindG (sl_commitRule s2) (\<lambda>rule.
             case rule of None \<Rightarrow> retG (s2, False) | Some block \<Rightarrow> sl_commit s2 block))"
    by (simp add: Let_def)
qed

lemma sl_certify_ok:
  assumes "sl_wf s" and "r < sNextQC s"
  shows "go_all (\<lambda>(s', _). sl_step s s') (sl_certify e s r)"
  using assms sl_notarize_ok [OF assms]
  by (auto simp: sl_certify_def Let_def intro!: go_all_bind_any sl_bufferQC_ok)

lemma sl_count_ok:
  assumes "sl_wf s" and "small_view (vView vote)"
  shows "go_all (\<lambda>(s', built). sl_step s s' \<and> (\<forall>r. built = Some r \<longrightarrow> r < sNextQC s')) (sl_count e s vote)"
proof -
  let ?s1 = "if vBlockID vote \<in> echoedBlock s then s
    else sl_broadcast (s\<lparr>echoedBlock := insert (vBlockID vote) (echoedBlock s)\<rparr>) (VoteMsg vote)"
  have s1: "sl_step s ?s1" using assms(1) by (simp add: sl_echo_ok)
  obtain c' built qc where av: "AddVote (vote_order e) (sBc ?s1) vote = (c', built, qc)"
    by (metis prod_cases3)
  have "bc_ok (sBc ?s1)" using sl_step_wf [OF s1] by (simp add: sl_wf_def)
  from AddVote_ok [OF this av] have s2: "sl_step s (?s1\<lparr>sBc := c'\<rparr>)"
    using sl_bc_ok [OF sl_step_wf [OF s1]] s1 sl_step_trans by blast
  have "sl_step s s3 \<and> r < sNextQC s3"
    if q: "qc = Some q" and al: "sl_alloc (?s1\<lparr>sBc := c'\<rparr>) q = (s3, r)" for q s3 r
  proof -
    have "small_view (qcView q)" using AddVote_view [OF av [unfolded q]] assms(2) by simp
    from sl_alloc_ok [OF sl_step_wf [OF s2] this al] s2 show ?thesis by (blast intro: sl_step_trans)
  qed
  with s2 assms(1) show ?thesis
    unfolding sl_count_def Let_def av prod.case
    by (intro go_all_bind_any) (auto split: option.split prod.split)
qed

lemma sl_insert_ok:
  assumes "sl_wf s" and "sl_block_ok s b"
  shows "go_all (\<lambda>(s', _). sl_step s s') (sl_insert s b)"
proof -
  let ?s1 = "if bID b \<in> echoedBlock s then s
    else sl_broadcast (s\<lparr>echoedBlock := insert (bID b) (echoedBlock s)\<rparr>) (BlockMsg b)"
  have s1: "sl_step s ?s1" using assms(1) by (simp add: sl_echo_ok)
  have bc: "bc_ok (sBc ?s1)" using sl_step_wf [OF s1] by (simp add: sl_wf_def)
  show ?thesis
    unfolding sl_insert_def Let_def
  proof (rule go_all_bind [OF AddBlock_ok [OF bc]], rule go_all_bind_any)
    fix bc' v assume "bc_ok bc'"
    then have s2: "sl_step s (?s1\<lparr>sBc := bc'\<rparr>)"
      using sl_bc_ok [OF sl_step_wf [OF s1]] s1 sl_step_trans by blast
    from sl_bufferBlock_ok [OF sl_step_wf [OF s2] sl_step_block [OF s2 assms(2)]] s2
    show "go_all (\<lambda>(s', _). sl_step s s') (if \<not> v then retG (?s1\<lparr>sBc := bc',
        sBufferedBlocks := (sBufferedBlocks (?s1\<lparr>sBc := bc'\<rparr>))(bPrevID b \<mapsto> b)\<rparr>, Some None)
        else retG (?s1\<lparr>sBc := bc'\<rparr>, None))"
      by (auto intro: sl_step_trans)
  qed
qed

lemma sl_receive_ok:
  assumes "sl_wf s" and "sl_block_ok s b"
  shows "go_all (\<lambda>(s', _). sl_step s s') (sl_receive e s b)"
  using assms sl_insert_ok [OF assms] sl_bufferBlock_ok [OF assms]
  by (auto simp: sl_receive_def intro!: go_all_bind_any)

section \<open>The mutually recursive handlers\<close>

fun call_ok :: "Streamlet \<Rightarrow> call \<Rightarrow> bool" where
  "call_ok s (ProcessBlock b) \<longleftrightarrow> sl_block_ok s b"
| "call_ok s (ProcessVote v) \<longleftrightarrow> small_view (vView v)"
| "call_ok s (processCertificate r) \<longleftrightarrow> r < sNextQC s"

lemmas sl_call_induct = sl_call.raw_induct [rotated, consumes 1, case_names step]

lemma MakeVote_view: "MakeVote e v i b = retG vote \<Longrightarrow> vView vote = v"
  by (auto simp: MakeVote_def elim!: bindG_RetE split: sum.split_asm)

lemma buffered_ok:
  "sl_wf s \<Longrightarrow> sBufferedBlocks s i = Some b \<Longrightarrow> sl_block_ok s b"
  "sl_wf s \<Longrightarrow> sBufferedQCs s i = Some r \<Longrightarrow> r < sNextQC s"
  "sl_wf s \<Longrightarrow> bufferedNotarizedBlock s i = Some r \<Longrightarrow> r < sNextQC s"
  by (auto simp: sl_wf_def)

text \<open>One unfolding of each handler, for any function \<open>f\<close> in the place of the recursive calls.\<close>

definition calls_ok :: "(env \<Rightarrow> Streamlet \<Rightarrow> call \<Rightarrow> (Streamlet \<times> go_error option) go) \<Rightarrow> bool" where
  "calls_ok f \<longleftrightarrow> (\<forall>e s c. sl_wf s \<longrightarrow> call_ok s c \<longrightarrow> go_all (\<lambda>(s', _). sl_step s s') (f e s c))"

lemma calls_okD:
  "calls_ok f \<Longrightarrow> sl_step s s1 \<Longrightarrow> call_ok s1 c \<Longrightarrow> go_all (\<lambda>(s', _). sl_step s s') (f e s1 c)"
  unfolding calls_ok_def by (blast intro: sl_step_all2 sl_step_wf)

lemma block_call_ok:
  assumes f: "calls_ok f" and s1: "sl_step s s1" and b: "sl_block_ok s1 b"
  shows "go_all (\<lambda>(s', _). sl_step s s')
    (bindG (MakeVote e (bView b) (sID s1) (bID b)) (\<lambda>vote.
     bindG (f e s1 (ProcessVote vote)) (\<lambda>(s2, _).
     bindG (case sBufferedQCs (sl_broadcast s2 (VoteMsg vote)) (bID b) of
              None \<Rightarrow> retG (sl_broadcast s2 (VoteMsg vote), None)
            | Some r \<Rightarrow> f e (sl_broadcast s2 (VoteMsg vote)) (processCertificate r)) (\<lambda>(s3, _).
       case sBufferedBlocks s3 (bID b) of
         None \<Rightarrow> retG (s3, None :: go_error option)
       | Some c \<Rightarrow> bindG (f e s3 (ProcessBlock c)) (\<lambda>(s4, _). retG (s4, None))))))"
proof (rule go_all_bind [where Q = "\<lambda>v. vView v = bView b"], rule go_allI, erule MakeVote_view)
  fix vote :: Vote assume "vView vote = bView b"
  with b have v: "go_all (\<lambda>(s', _). sl_step s s') (f e s1 (ProcessVote vote))"
    by (intro calls_okD [OF f s1]) (simp add: sl_block_ok_def)
  show "go_all (\<lambda>(s', _). sl_step s s') (bindG (f e s1 (ProcessVote vote)) (\<lambda>(s2, _).
     bindG (case sBufferedQCs (sl_broadcast s2 (VoteMsg vote)) (bID b) of
              None \<Rightarrow> retG (sl_broadcast s2 (VoteMsg vote), None)
            | Some r \<Rightarrow> f e (sl_broadcast s2 (VoteMsg vote)) (processCertificate r)) (\<lambda>(s3, _).
       case sBufferedBlocks s3 (bID b) of
         None \<Rightarrow> retG (s3, None :: go_error option)
       | Some c \<Rightarrow> bindG (f e s3 (ProcessBlock c)) (\<lambda>(s4, _). retG (s4, None)))))"
  proof (rule go_all_bind [OF v], clarify)
    fix s2 assume s2: "sl_step s s2"
    have s3: "sl_step s (sl_broadcast s2 (VoteMsg vote))" (is "sl_step s ?s3")
      using sl_broadcast_ok [OF sl_step_wf [OF s2]] s2 by (blast intro: sl_step_trans)
    have qc: "go_all (\<lambda>(s', _). sl_step s s') (case sBufferedQCs ?s3 (bID b) of
        None \<Rightarrow> retG (?s3, None) | Some r \<Rightarrow> f e ?s3 (processCertificate r))"
      using s3 buffered_ok(2) [OF sl_step_wf [OF s3]] by (auto split: option.split intro: calls_okD [OF f s3])
    show "go_all (\<lambda>(s', _). sl_step s s') (bindG (case sBufferedQCs ?s3 (bID b) of
        None \<Rightarrow> retG (?s3, None) | Some r \<Rightarrow> f e ?s3 (processCertificate r)) (\<lambda>(s3, _).
       case sBufferedBlocks s3 (bID b) of
         None \<Rightarrow> retG (s3, None :: go_error option)
       | Some c \<Rightarrow> bindG (f e s3 (ProcessBlock c)) (\<lambda>(s4, _). retG (s4, None))))"
    proof (rule go_all_bind [OF qc], clarify)
      fix s4 assume s4: "sl_step s s4"
      have "go_all (\<lambda>(s', _). sl_step s s') (bindG (f e s4 (ProcessBlock c)) (\<lambda>(s5, _). retG (s5, None :: go_error option)))"
        if "sBufferedBlocks s4 (bID b) = Some c" for c
        by (rule go_all_bind [OF calls_okD [OF f s4]])
          (use buffered_ok(1) [OF sl_step_wf [OF s4] that] in auto)
      with s4 show "go_all (\<lambda>(s', _). sl_step s s') (case sBufferedBlocks s4 (bID b) of
          None \<Rightarrow> retG (s4, None :: go_error option)
        | Some c \<Rightarrow> bindG (f e s4 (ProcessBlock c)) (\<lambda>(s4, _). retG (s4, None)))"
        by (auto split: option.split)
    qed
  qed
qed

lemma certificate_call_ok:
  assumes f: "calls_ok f" and s1: "sl_step s s1"
  shows "go_all (\<lambda>(s', _). sl_step s s')
    (bindG (case sBufferedBlocks s1 (qcBlockID (sQCs s1 r)) of
              None \<Rightarrow> retG s1
            | Some b \<Rightarrow>
                bindG (f e s1 (ProcessBlock b)) (\<lambda>(s2, _).
                  retG (s2\<lparr>sBufferedBlocks := (sBufferedBlocks s2)(qcBlockID (sQCs s2 r) := None)\<rparr>))) (\<lambda>s3.
       case bufferedNotarizedBlock s3 (qcBlockID (sQCs s3 r)) of
         None \<Rightarrow> retG (s3, None :: go_error option)
       | Some r' \<Rightarrow>
           bindG (f e s3 (processCertificate r')) (\<lambda>(s4, _).
             retG (s4\<lparr>sBufferedQCs := (sBufferedQCs s4)(qcBlockID (sQCs s4 r') := None)\<rparr>, None))))"
proof (rule go_all_bind [where Q = "sl_step s"])
  have "go_all (sl_step s) (bindG (f e s1 (ProcessBlock b)) (\<lambda>(s2, _).
      retG (s2\<lparr>sBufferedBlocks := (sBufferedBlocks s2)(qcBlockID (sQCs s2 r) := None)\<rparr>)))"
    if "sBufferedBlocks s1 i = Some b" for b i
    by (rule go_all_bind [OF calls_okD [OF f s1]])
      (use buffered_ok(1) [OF sl_step_wf [OF s1] that] in \<open>auto intro: sl_dropBlock_step sl_dropQC_step\<close>)
  with s1 show "go_all (sl_step s) (case sBufferedBlocks s1 (qcBlockID (sQCs s1 r)) of
      None \<Rightarrow> retG s1
    | Some b \<Rightarrow> bindG (f e s1 (ProcessBlock b)) (\<lambda>(s2, _).
        retG (s2\<lparr>sBufferedBlocks := (sBufferedBlocks s2)(qcBlockID (sQCs s2 r) := None)\<rparr>)))"
    by (auto split: option.split)
next
  fix s3 assume s3: "sl_step s s3"
  have "go_all (\<lambda>(s', _). sl_step s s') (bindG (f e s3 (processCertificate r')) (\<lambda>(s4, _).
      retG (s4\<lparr>sBufferedQCs := (sBufferedQCs s4)(qcBlockID (sQCs s4 r') := None)\<rparr>, None :: go_error option)))"
    if "bufferedNotarizedBlock s3 i = Some r'" for r' i
    by (rule go_all_bind [OF calls_okD [OF f s3]])
      (use buffered_ok(3) [OF sl_step_wf [OF s3] that] in \<open>auto intro: sl_dropBlock_step sl_dropQC_step\<close>)
  with s3 show "go_all (\<lambda>(s', _). sl_step s s') (case bufferedNotarizedBlock s3 (qcBlockID (sQCs s3 r)) of
      None \<Rightarrow> retG (s3, None :: go_error option)
    | Some r' \<Rightarrow> bindG (f e s3 (processCertificate r')) (\<lambda>(s4, _).
        retG (s4\<lparr>sBufferedQCs := (sBufferedQCs s4)(qcBlockID (sQCs s4 r') := None)\<rparr>, None)))"
    by (auto split: option.split)
qed

lemma sl_call_body_ok:
  assumes f: "calls_ok f" and wf: "sl_wf s" and c: "call_ok s c"
    and r: "(case c of
        ProcessBlock block \<Rightarrow>
          bindG (sl_receive e s block) (\<lambda>(s1, ret).
            case ret of
              Some err \<Rightarrow> retG (s1, err)
            | None \<Rightarrow>
                bindG (MakeVote e (bView block) (sID s1) (bID block)) (\<lambda>vote.
                bindG (f e s1 (ProcessVote vote)) (\<lambda>(s2, _).
                bindG (case sBufferedQCs (sl_broadcast s2 (VoteMsg vote)) (bID block) of
                         None \<Rightarrow> retG (sl_broadcast s2 (VoteMsg vote), None)
                       | Some r \<Rightarrow> f e (sl_broadcast s2 (VoteMsg vote)) (processCertificate r)) (\<lambda>(s3, _).
                  case sBufferedBlocks s3 (bID block) of
                    None \<Rightarrow> retG (s3, None)
                  | Some b \<Rightarrow> bindG (f e s3 (ProcessBlock b)) (\<lambda>(s4, _). retG (s4, None))))))
      | ProcessVote vote \<Rightarrow>
          bindG (sl_count e s vote) (\<lambda>(s1, built).
            case built of
              None \<Rightarrow> retG (s1, None)
            | Some r \<Rightarrow> f e s1 (processCertificate r))
      | processCertificate r \<Rightarrow>
          bindG (sl_certify e s r) (\<lambda>(s1, on).
            if \<not> on then retG (s1, None)
            else
              bindG (case sBufferedBlocks s1 (qcBlockID (sQCs s1 r)) of
                       None \<Rightarrow> retG s1
                     | Some b \<Rightarrow>
                         bindG (f e s1 (ProcessBlock b)) (\<lambda>(s2, _).
                           retG (s2\<lparr>sBufferedBlocks := (sBufferedBlocks s2)(qcBlockID (sQCs s2 r) := None)\<rparr>))) (\<lambda>s3.
                case bufferedNotarizedBlock s3 (qcBlockID (sQCs s3 r)) of
                  None \<Rightarrow> retG (s3, None)
                | Some r' \<Rightarrow>
                    bindG (f e s3 (processCertificate r')) (\<lambda>(s4, _).
                      retG (s4\<lparr>sBufferedQCs := (sBufferedQCs s4)(qcBlockID (sQCs s4 r') := None)\<rparr>, None)))))
      = m"
  shows "go_all (\<lambda>(s', _). sl_step s s') m"
proof (cases c)
  case (ProcessBlock b)
  then have b: "sl_block_ok s b" using c by simp
  show ?thesis
    unfolding r [symmetric] ProcessBlock call.case
    by (rule go_all_bind [OF sl_receive_ok [OF wf b]])
      (use block_call_ok [OF f] sl_step_block [OF _ b] in \<open>auto split: option.split\<close>)
next
  case (ProcessVote v)
  then have v: "small_view (vView v)" using c by simp
  show ?thesis
    unfolding r [symmetric] ProcessVote call.case
    by (rule go_all_bind [OF sl_count_ok [OF wf v]])
      (use calls_okD [OF f] in \<open>auto split: option.split\<close>)
next
  case (processCertificate q)
  then have q: "q < sNextQC s" using c by simp
  show ?thesis
    unfolding r [symmetric] processCertificate call.case
    by (rule go_all_bind [OF sl_certify_ok [OF wf q]])
      (use certificate_call_ok [OF f] in \<open>auto split: option.split\<close>)
qed

lemma sl_call_step:
  "sl_call e s c = Some r \<Longrightarrow> sl_wf s \<Longrightarrow> call_ok s c \<Longrightarrow> r = Ret (s', err) \<Longrightarrow> sl_step s s'"
proof (induction arbitrary: s' err rule: sl_call_induct)
  case (step f e s c r)
  have "calls_ok f"
    unfolding calls_ok_def go_all_def using step.IH by auto
  from go_allD [OF sl_call_body_ok [OF this step.prems(1,2) step.hyps]] step.prems(3) show ?case by auto
qed

lemma sl_call_ok: "sl_wf s \<Longrightarrow> call_ok s c \<Longrightarrow> go_all (\<lambda>(s', _). sl_step s s') (sl_call e s c)"
  by (rule go_allI) (auto dest: sl_call_step)

lemma sl_ProcessRemoteTmo_ok:
  assumes "sl_wf s" and "small_view (tmoView tmo)"
  shows "go_all (sl_step s) (sl_ProcessRemoteTmo s tmo)"
proof -
  obtain p built tc where pm: "pm_ProcessRemoteTmo (sPm s) tmo = (p, built, tc)" by (metis prod_cases3)
  note f = pm_ProcessRemoteTmo_fields [OF pm]
  have s1: "sl_step s (s\<lparr>sPm := p\<rparr>)" using sl_pm_ok [OF assms(1), of p] f by blast
  have "sl_step s (sl_processTC (s\<lparr>sPm := p\<rparr>) c)" if "tc = Some c" for c
    using sl_spawn_ok [OF sl_step_wf [OF s1], of "tcView c"] f that assms(2) s1 sl_step_trans
    by (auto simp: sl_processTC_def)
  with s1 show ?thesis
    by (simp add: sl_ProcessRemoteTmo_def pm Let_def split: option.splits)
qed

lemma sl_ProcessLocalTmo_ok:
  assumes "sl_wf s" and "small_view view"
  shows "go_all (sl_step s) (sl_ProcessLocalTmo s view)"
proof -
  let ?tmo = "\<lparr>tmoView = view, tmoNodeID = sID s, tmoHighQC = None\<rparr>"
  have s1: "sl_step s (sl_broadcast s (TmoMsg ?tmo))" using assms(1) by (rule sl_broadcast_ok)
  from sl_ProcessRemoteTmo_ok [OF sl_step_wf [OF s1], of ?tmo] assms(2) s1 show ?thesis
    by (auto simp: sl_ProcessLocalTmo_def Let_def go_all_def intro: sl_step_trans)
qed

lemma sl_run_spawned_ok:
  assumes "sl_wf s"
  shows "sl_step s (sl_run_spawned s k)"
proof (cases "k < length (sSpawned s)")
  case True
  let ?vs = "take k (sSpawned s) @ drop (Suc k) (sSpawned s)"
  have vs: "list_all small_view (sSpawned s)" using assms by (simp add: sl_wf_def)
  then have "small_view (sSpawned s ! k)" "list_all small_view ?vs"
    using True by (auto simp: list_all_iff dest: in_set_takeD in_set_dropD)
  moreover have "sl_step t (t\<lparr>sSpawned := ?vs\<rparr>)" if "sl_wf t" "list_all small_view ?vs" for t
    using that by (simp add: sl_defs)
  ultimately have "sl_step s ((sl_advance s (sSpawned s ! k))\<lparr>sSpawned := ?vs\<rparr>)"
    using sl_advance_ok [OF assms] sl_step_trans sl_step_wf by blast
  with True show ?thesis by (simp add: sl_run_spawned_def)
qed (use assms in \<open>simp add: sl_run_spawned_def\<close>)

section \<open>Streamlet provides the safety interface\<close>

fun sl_handle :: "env \<Rightarrow> Streamlet \<Rightarrow> event \<Rightarrow> Streamlet go" where
  "sl_handle e s (OnBlock b) = bindG (sl_ProcessBlock e s b) (\<lambda>(s', _). retG s')"
| "sl_handle e s (OnVote v) = sl_ProcessVote e s v"
| "sl_handle e s (OnRemoteTmo t) = sl_ProcessRemoteTmo s t"
| "sl_handle e s (OnLocalTmo v) = sl_ProcessLocalTmo s v"

fun sl_admissible :: "Streamlet \<Rightarrow> event \<Rightarrow> bool" where
  "sl_admissible s (OnBlock b) \<longleftrightarrow> sl_block_ok s b"
| "sl_admissible s (OnVote v) \<longleftrightarrow> small_view (vView v)"
| "sl_admissible s (OnRemoteTmo t) \<longleftrightarrow> small_view (tmoView t)"
| "sl_admissible s (OnLocalTmo v) \<longleftrightarrow> small_view v"

lemma sl_call_state_ok:
  "sl_wf s \<Longrightarrow> call_ok s c \<Longrightarrow> go_all (sl_step s) (bindG (sl_call e s c) (\<lambda>(s', _). retG s'))"
  by (rule go_all_bind [OF sl_call_ok]) auto

lemma sl_handle_ok: "sl_wf s \<Longrightarrow> sl_admissible s ev \<Longrightarrow> go_all (sl_step s) (sl_handle e s ev)"
  by (cases ev)
    (auto simp: sl_ProcessBlock_def sl_ProcessVote_def
      intro: sl_call_state_ok sl_ProcessRemoteTmo_ok sl_ProcessLocalTmo_ok)

interpretation streamlet: safety sl_wf sl_admissible sl_step "sl_handle e"
proof unfold_locales
  fix s s' s'' :: Streamlet and ev :: event
  show "sl_wf s \<Longrightarrow> sl_step s s" by simp
  show "sl_step s s' \<Longrightarrow> sl_step s' s'' \<Longrightarrow> sl_step s s''" by (rule sl_step_trans)
  show "sl_step s s' \<Longrightarrow> sl_admissible s ev \<Longrightarrow> sl_admissible s' ev"
    by (cases ev) (auto intro: sl_step_block)
  show "sl_wf s' \<and> sl_step s s'" if "sl_wf s" "sl_admissible s ev" "sl_handle e s ev = retG s'"
    using go_allD [OF sl_handle_ok [OF that(1,2)] that(3)] by (simp add: sl_step_wf)
qed

text \<open>Runs in which the goroutines take their turns between the handlers, in any order.\<close>

inductive sl_reach :: "env \<Rightarrow> Streamlet \<Rightarrow> Streamlet \<Rightarrow> bool" for e s where
  reach_start: "sl_reach e s s"
| reach_event: "sl_reach e s s1 \<Longrightarrow> sl_admissible s1 ev \<Longrightarrow> sl_handle e s1 ev = retG s2 \<Longrightarrow> sl_reach e s s2"
| reach_goroutine: "sl_reach e s s1 \<Longrightarrow> sl_reach e s (sl_run_spawned s1 k)"

lemma sl_reach_step: "sl_reach e s s' \<Longrightarrow> sl_wf s \<Longrightarrow> sl_step s s'"
proof (induction rule: sl_reach.induct)
  case (reach_event s1 ev s2)
  with streamlet.handle_ok [of s1 ev e s2] show ?case by (blast intro: sl_step_trans sl_step_wf)
next
  case (reach_goroutine s1 k)
  then show ?case by (blast intro: sl_step_trans sl_run_spawned_ok sl_step_wf)
qed simp

lemma NewStreamlet_wf: "sl_wf (NewStreamlet e i (NewPacemaker n) elec)"
  by (simp add: sl_wf_def NewStreamlet_def sl_advance_def sl_cur_def GetCurView_def NewPacemaker_def AdvanceView_def
      bc_ok_def NewBlockchain_def zero_qc_def small_view_def is_i64_def i64_def)

end
