(* ===== verification/Lbft.thy ===== *)
theory Lbft
  imports Streamlet_Inv
begin

text \<open>
  The LBFT replica (lbft/lbft.go), and that each of its handlers is the handler of the Streamlet
  replica. The struct has the fields of the Streamlet struct, so the two share a state.
\<close>

type_synonym Lbft = Streamlet

definition NewLbft :: "env \<Rightarrow> NodeID \<Rightarrow> Pacemaker \<Rightarrow> Election \<Rightarrow> Lbft" where
  "NewLbft e nodeID pm elec =
     sl_advance \<lparr>sID = nodeID, sElect = elec, sPm = pm, sBc = NewBlockchain (config_N (cfg e)),
       notarizedChain = [], sBufferedBlocks = Map.empty, sBufferedQCs = Map.empty,
       bufferedNotarizedBlock = Map.empty, sCommitted = [], sForked = [],
       echoedBlock = {}, echoedVote = {}, sQCs = (\<lambda>_. zero_qc), sNextQC = 0, sOutbox = [], sSpawned = []\<rparr> 0"

definition lb_GetNotarizedHeight :: "Lbft \<Rightarrow> int" where
  "lb_GetNotarizedHeight s = int (length (notarizedChain s))"

definition lb_votingRule :: "Lbft \<Rightarrow> Block \<Rightarrow> bool go" where
  "lb_votingRule s block =
     (if bView block \<le> 2 then retG True
      else bindG (index_slice (notarizedChain s) (lb_GetNotarizedHeight s - 1)) (\<lambda>lastBlocks.
        retG (list_ex (\<lambda>b. bPrevID block = bID b) lastBlocks)))"

definition lb_commitRule :: "Lbft \<Rightarrow> Block option go" where
  "lb_commitRule s =
     (let height = lb_GetNotarizedHeight s in
      if height < 3 then retG None
      else
        bindG (index_slice (notarizedChain s) (height - 1)) (\<lambda>lastBlocks.
          if length lastBlocks \<noteq> 1 then retG None
          else
            bindG (index_slice (notarizedChain s) (height - 2)) (\<lambda>secondBlocks.
              if length secondBlocks \<noteq> 1 then retG None
              else
                bindG (index_slice (notarizedChain s) (height - 3)) (\<lambda>firstBlocks.
                  if length firstBlocks \<noteq> 1 then retG None
                  else if i64 (bView (hd firstBlocks) + 1) = bView (hd secondBlocks) \<and>
                          i64 (bView (hd secondBlocks) + 1) = bView (hd lastBlocks)
                       then retG (Some (hd secondBlocks)) else retG None))))"

text \<open>
  The search of \<open>updateNotarizedChain\<close> for the parent among the notarized blocks, from row \<open>i\<close>
  down. The condition of the loop is the source's: it also admits negative rows.
\<close>

function lb_find_parent :: "Block list list \<Rightarrow> Block \<Rightarrow> int \<Rightarrow> bool go" where
  "lb_find_parent chain block i =
     (if i \<ge> 0 \<or> i \<ge> int (length chain) - 3 then
        (if i < 0 \<or> int (length chain) \<le> i then panicG IndexOutOfRange
         else if list_ex (\<lambda>b. bID b = bPrevID block) (chain ! nat i) then retG True
         else lb_find_parent chain block (i - 1))
      else retG False)"
  by pat_completeness auto
termination
  by (relation "measure (\<lambda>(chain, block, i). nat (i + 1))") auto

declare lb_find_parent.simps [simp del]

text \<open>A block whose parent is found starts a new row, wherever the parent was found.\<close>

definition lb_updateNotarizedChain :: "Lbft \<Rightarrow> qcref \<Rightarrow> (Lbft \<times> go_error option) go" where
  "lb_updateNotarizedChain s r =
     (case GetBlockByID (sBc s) (qcBlockID (sQCs s r)) of
        Inl err \<Rightarrow> retG (s, Some CannotFindTheBlock)
      | Inr block \<Rightarrow>
          if lb_GetNotarizedHeight s = 0
          then retG (s\<lparr>notarizedChain := notarizedChain s @ [[block]]\<rparr>, None)
          else
            bindG (lb_find_parent (notarizedChain s) block (lb_GetNotarizedHeight s - 1)) (\<lambda>found.
              if found then retG (s\<lparr>notarizedChain := notarizedChain s @ [[block]]\<rparr>, None)
              else retG (s\<lparr>bufferedNotarizedBlock := (bufferedNotarizedBlock s)(bPrevID block \<mapsto> r)\<rparr>,
                     Some NotExtendingNotarized)))"

text \<open>The commit of \<open>block\<close>. \<open>True\<close> says that the handler goes on to its buffers.\<close>

definition lb_commit :: "Lbft \<Rightarrow> Block \<Rightarrow> (Lbft \<times> bool) go" where
  "lb_commit s block =
     bindG (CommitBlock (sQCs s) (sBc s) (bID block) (sl_cur s)) (\<lambda>(bc', res).
       case res of
         Inl err \<Rightarrow> retG (s\<lparr>sBc := bc'\<rparr>, False)
       | Inr (cBlocks, fBlocks) \<Rightarrow>
           retG (s\<lparr>sBc := bc', sCommitted := sCommitted s @ cBlocks,
                    echoedBlock := echoedBlock s - bID ` set cBlocks,
                    echoedVote := echoedVote s - bID ` set cBlocks,
                    sForked := sForked s @ fBlocks\<rparr>, True))"

text \<open>\<open>processCertificate\<close> up to the look at its buffers; \<open>False\<close> is a return before that.\<close>

definition lb_notarize :: "Lbft \<Rightarrow> qcref \<Rightarrow> (Lbft \<times> bool) go" where
  "lb_notarize s r =
     bindG (lb_updateNotarizedChain s r) (\<lambda>(s1, err).
       if err \<noteq> None then retG (s1, False)
       else
         let s2 = sl_advance s1 (qcView (sQCs s1 r)) in
         if qcView (sQCs s2 r) < 3 then retG (s2, False)
         else
           bindG (lb_commitRule s2) (\<lambda>rule.
             case rule of
               None \<Rightarrow> retG (s2, False)
             | Some block \<Rightarrow> lb_commit s2 block))"

definition lb_certify :: "env \<Rightarrow> Lbft \<Rightarrow> qcref \<Rightarrow> (Lbft \<times> bool) go" where
  "lb_certify e s r =
     (let q = sQCs s r in
      if qcView q < sl_cur s then retG (s, False)
      else if (case GetBlockByID (sBc s) (qcBlockID q) of Inl _ \<Rightarrow> True | Inr _ \<Rightarrow> False) \<and> qcView q > 1
      then retG (s\<lparr>sBufferedQCs := (sBufferedQCs s)(qcBlockID q \<mapsto> r)\<rparr>, False)
      else
        bindG (if qcLeader q \<noteq> sID s
               then VerifyQuorumSignature e (qcAggSig q) (qcBlockID q) (qcSigners q)
               else retG (True, None)) (\<lambda>(quorumIsVerified, _).
          if \<not> quorumIsVerified then retG (s, False) else lb_notarize s r))"

text \<open>\<open>ProcessVote\<close> up to the handling of the certificate that the vote completes.\<close>

definition lb_count :: "env \<Rightarrow> Lbft \<Rightarrow> Vote \<Rightarrow> (Lbft \<times> qcref option) go" where
  "lb_count e s vote =
     bindG (if vVoter vote \<noteq> sID s
            then PubVerify e (vSig vote) (IDToByte (vBlockID vote)) (vVoter vote)
            else retG (True, None)) (\<lambda>(voteIsVerified, err).
       if err \<noteq> None then panicG LogFatal
       else if \<not> voteIsVerified then retG (s, None)
       else
         let s1 = (if vBlockID vote \<in> echoedBlock s then s
                   else sl_broadcast (s\<lparr>echoedBlock := insert (vBlockID vote) (echoedBlock s)\<rparr>) (VoteMsg vote))
         in case AddVote (vote_order e) (sBc s1) vote of
              (bc', isBuilt, qc) \<Rightarrow>
                let s2 = s1\<lparr>sBc := bc'\<rparr> in
                if \<not> isBuilt then retG (s2, None)
                else case qc of
                  None \<Rightarrow> panicG NilDereference
                | Some q \<Rightarrow> (case sl_alloc s2 q of (s3, r) \<Rightarrow> retG (s3, Some r)))"

text \<open>
  \<open>ProcessBlock\<close> from the echo of the block on, and from the start, up to the vote. \<open>Some err\<close>
  is a return with the error \<open>err\<close>, \<open>None\<close> says that the replica votes.
\<close>

definition lb_insert :: "Lbft \<Rightarrow> Block \<Rightarrow> (Lbft \<times> go_error option option) go" where
  "lb_insert s block =
     (let s1 = (if bID block \<in> echoedBlock s then s
                else sl_broadcast (s\<lparr>echoedBlock := insert (bID block) (echoedBlock s)\<rparr>) (BlockMsg block))
      in bindG (AddBlock (sQCs s1) (sBc s1) block) (\<lambda>bc'.
           let s2 = s1\<lparr>sBc := bc'\<rparr> in
           bindG (lb_votingRule s2 block) (\<lambda>shouldVote.
             if \<not> shouldVote
             then retG (s2\<lparr>sBufferedBlocks := (sBufferedBlocks s2)(bPrevID block \<mapsto> block)\<rparr>, Some None)
             else retG (s2, None))))"

definition lb_receive :: "env \<Rightarrow> Lbft \<Rightarrow> Block \<Rightarrow> (Lbft \<times> go_error option option) go" where
  "lb_receive e s block =
     (if Exists (sBc s) (bID block) then retG (s, Some None)
      else if bView block < sl_cur s then retG (s, Some (Some StaleBlock))
      else if (case GetBlockByID (sBc s) (bPrevID block) of Inl _ \<Rightarrow> True | Inr _ \<Rightarrow> False) \<and> bView block > 1
      then retG (s\<lparr>sBufferedBlocks := (sBufferedBlocks s)(bPrevID block \<mapsto> block)\<rparr>, Some None)
      else
        bindG (IsLeader (sElect s) (bProposer block) (bView block)) (\<lambda>leader.
          if \<not> leader then retG (s, Some (Some (InvalidLeader (bView block) (bProposer block))))
          else
            bindG (if bProposer block \<noteq> sID s
                   then PubVerify e (bSig block) (IDToByte (bID block)) (bProposer block)
                   else retG (True, None)) (\<lambda>_.
              lb_insert s block)))"

partial_function (option) lb_call :: "env \<Rightarrow> Lbft \<Rightarrow> call \<Rightarrow> (Lbft \<times> go_error option) go" where
  "lb_call e s c =
     (case c of
        ProcessBlock block \<Rightarrow>
          bindG (lb_receive e s block) (\<lambda>(s1, ret).
            case ret of
              Some err \<Rightarrow> retG (s1, err)
            | None \<Rightarrow>
                bindG (MakeVote e (bView block) (sID s1) (bID block)) (\<lambda>vote.
                bindG (lb_call e s1 (ProcessVote vote)) (\<lambda>(s2, _).
                bindG (case sBufferedQCs (sl_broadcast s2 (VoteMsg vote)) (bID block) of
                         None \<Rightarrow> retG (sl_broadcast s2 (VoteMsg vote), None)
                       | Some r \<Rightarrow> lb_call e (sl_broadcast s2 (VoteMsg vote)) (processCertificate r)) (\<lambda>(s3, _).
                  case sBufferedBlocks s3 (bID block) of
                    None \<Rightarrow> retG (s3, None)
                  | Some b \<Rightarrow> bindG (lb_call e s3 (ProcessBlock b)) (\<lambda>(s4, _). retG (s4, None))))))
      | ProcessVote vote \<Rightarrow>
          bindG (lb_count e s vote) (\<lambda>(s1, built).
            case built of
              None \<Rightarrow> retG (s1, None)
            | Some r \<Rightarrow> lb_call e s1 (processCertificate r))
      | processCertificate r \<Rightarrow>
          bindG (lb_certify e s r) (\<lambda>(s1, on).
            if \<not> on then retG (s1, None)
            else
              bindG (case sBufferedBlocks s1 (qcBlockID (sQCs s1 r)) of
                       None \<Rightarrow> retG s1
                     | Some b \<Rightarrow>
                         bindG (lb_call e s1 (ProcessBlock b)) (\<lambda>(s2, _).
                           retG (s2\<lparr>sBufferedBlocks := (sBufferedBlocks s2)(qcBlockID (sQCs s2 r) := None)\<rparr>))) (\<lambda>s3.
                case bufferedNotarizedBlock s3 (qcBlockID (sQCs s3 r)) of
                  None \<Rightarrow> retG (s3, None)
                | Some r' \<Rightarrow>
                    bindG (lb_call e s3 (processCertificate r')) (\<lambda>(s4, _).
                      retG (s4\<lparr>sBufferedQCs := (sBufferedQCs s4)(qcBlockID (sQCs s4 r') := None)\<rparr>, None)))))"

definition lb_ProcessBlock :: "env \<Rightarrow> Lbft \<Rightarrow> Block \<Rightarrow> (Lbft \<times> go_error option) go" where
  "lb_ProcessBlock e s block = lb_call e s (ProcessBlock block)"

definition lb_ProcessVote :: "env \<Rightarrow> Lbft \<Rightarrow> Vote \<Rightarrow> Lbft go" where
  "lb_ProcessVote e s vote = bindG (lb_call e s (ProcessVote vote)) (\<lambda>(s', _). retG s')"

definition lb_processCertificate :: "env \<Rightarrow> Lbft \<Rightarrow> qcref \<Rightarrow> Lbft go" where
  "lb_processCertificate e s r = bindG (lb_call e s (processCertificate r)) (\<lambda>(s', _). retG s')"

definition lb_processTC :: "Lbft \<Rightarrow> TC \<Rightarrow> Lbft" where
  "lb_processTC s tc = (if tcView tc < sl_cur s then s else s\<lparr>sSpawned := sSpawned s @ [tcView tc]\<rparr>)"

text \<open>The scheduler runs the goroutine at position \<open>k\<close>.\<close>

definition lb_run_spawned :: "Lbft \<Rightarrow> nat \<Rightarrow> Lbft" where
  "lb_run_spawned s k =
     (if k < length (sSpawned s)
      then (sl_advance s (sSpawned s ! k))\<lparr>sSpawned := take k (sSpawned s) @ drop (Suc k) (sSpawned s)\<rparr>
      else s)"

definition lb_ProcessRemoteTmo :: "Lbft \<Rightarrow> TMO \<Rightarrow> Lbft go" where
  "lb_ProcessRemoteTmo s tmo =
     (case pm_ProcessRemoteTmo (sPm s) tmo of
        (pm', isBuilt, tc) \<Rightarrow>
          let s1 = s\<lparr>sPm := pm'\<rparr> in
          if \<not> isBuilt then retG s1
          else case tc of
            None \<Rightarrow> panicG NilDereference
          | Some c \<Rightarrow> retG (lb_processTC s1 c))"

definition lb_ProcessLocalTmo :: "Lbft \<Rightarrow> View \<Rightarrow> Lbft go" where
  "lb_ProcessLocalTmo s view =
     (let tmo = \<lparr>tmoView = view, tmoNodeID = sID s, tmoHighQC = None\<rparr>
      in lb_ProcessRemoteTmo (sl_broadcast s (TmoMsg tmo)) tmo)"

definition lb_forkChoice :: "env \<Rightarrow> Lbft \<Rightarrow> Identifier go" where
  "lb_forkChoice e s =
     (if lb_GetNotarizedHeight s = 0 then blockID_of e (RawText ''Genesis block'')
      else
        bindG (index_slice (notarizedChain s) (lb_GetNotarizedHeight s - 1)) (\<lambda>tail.
        bindG (index_slice tail 0) (\<lambda>tailNotarizedBlock.
          retG (bID tailNotarizedBlock))))"

definition lb_MakeProposal :: "env \<Rightarrow> Lbft \<Rightarrow> View \<Rightarrow> Transaction list \<Rightarrow> (Lbft \<times> Block) go" where
  "lb_MakeProposal e s view payload =
     bindG (lb_forkChoice e s) (\<lambda>prevID.
       case sl_alloc s (zero_qc\<lparr>qcView := 0, qcBlockID := prevID\<rparr>) of
         (s1, r) \<Rightarrow>
           bindG (MakeBlock e (sQCs s1) view (Some r) prevID payload (sID s1)) (\<lambda>block. retG (s1, block)))"

definition lb_MakePProposal ::
  "env \<Rightarrow> (nat \<Rightarrow> PartialOrderBatch option) \<Rightarrow> Lbft \<Rightarrow> View \<Rightarrow> (Lbft \<times> Block) go" where
  "lb_MakePProposal e answers s view =
     bindG (lb_forkChoice e s) (\<lambda>prevID.
     bindG (poll_batch answers 0) (\<lambda>priori.
       case sl_alloc s (zero_qc\<lparr>qcView := 0, qcBlockID := prevID\<rparr>) of
         (s1, r) \<Rightarrow>
           bindG (MakePBlock e (sQCs s1) view (Some r) prevID (Some priori) (sID s1)) (\<lambda>block. retG (s1, block))))"

section \<open>The handlers are those of Streamlet\<close>

named_theorems lbft_streamlet

lemma NewLbft_eq [lbft_streamlet]: "NewLbft = NewStreamlet"
  by (intro ext) (unfold NewLbft_def NewStreamlet_def lbft_streamlet, rule refl)

lemma lb_GetNotarizedHeight_eq [lbft_streamlet]: "lb_GetNotarizedHeight = GetNotarizedHeight"
  by (intro ext) (unfold lb_GetNotarizedHeight_def GetNotarizedHeight_def lbft_streamlet, rule refl)

lemma lb_votingRule_eq [lbft_streamlet]: "lb_votingRule = sl_votingRule"
  by (intro ext) (unfold lb_votingRule_def sl_votingRule_def lbft_streamlet, rule refl)

lemma lb_commitRule_eq [lbft_streamlet]: "lb_commitRule = sl_commitRule"
  by (intro ext) (unfold lb_commitRule_def sl_commitRule_def lbft_streamlet, rule refl)

lemma lb_find_parent_eq [lbft_streamlet]: "lb_find_parent = sl_find_parent"
proof (intro ext)
  fix chain block i show "lb_find_parent chain block i = sl_find_parent chain block i"
    by (induction chain block i rule: sl_find_parent.induct)
      (subst lb_find_parent.simps, subst sl_find_parent.simps, auto)
qed

lemma lb_updateNotarizedChain_eq [lbft_streamlet]: "lb_updateNotarizedChain = sl_updateNotarizedChain"
  by (intro ext) (unfold lb_updateNotarizedChain_def sl_updateNotarizedChain_def lbft_streamlet, rule refl)

lemma lb_commit_eq [lbft_streamlet]: "lb_commit = sl_commit"
  by (intro ext) (unfold lb_commit_def sl_commit_def lbft_streamlet, rule refl)

lemma lb_notarize_eq [lbft_streamlet]: "lb_notarize = sl_notarize"
  by (intro ext) (unfold lb_notarize_def sl_notarize_def lbft_streamlet, rule refl)

lemma lb_certify_eq [lbft_streamlet]: "lb_certify = sl_certify"
  by (intro ext) (unfold lb_certify_def sl_certify_def lbft_streamlet, rule refl)

lemma lb_count_eq [lbft_streamlet]: "lb_count = sl_count"
  by (intro ext) (unfold lb_count_def sl_count_def lbft_streamlet, rule refl)

lemma lb_insert_eq [lbft_streamlet]: "lb_insert = sl_insert"
  by (intro ext) (unfold lb_insert_def sl_insert_def lbft_streamlet, rule refl)

lemma lb_receive_eq [lbft_streamlet]: "lb_receive = sl_receive"
  by (intro ext) (unfold lb_receive_def sl_receive_def lbft_streamlet, rule refl)

lemma approximates_call:
  "(\<And>b. c = ProcessBlock b \<Longrightarrow> approximates (f b) (f' b)) \<Longrightarrow> (\<And>v. c = ProcessVote v \<Longrightarrow> approximates (g v) (g' v)) \<Longrightarrow>
     (\<And>r. c = processCertificate r \<Longrightarrow> approximates (h r) (h' r)) \<Longrightarrow>
     approximates (case c of ProcessBlock b \<Rightarrow> f b | ProcessVote v \<Rightarrow> g v | processCertificate r \<Rightarrow> h r)
       (case c of ProcessBlock b \<Rightarrow> f' b | ProcessVote v \<Rightarrow> g' v | processCertificate r \<Rightarrow> h' r)"
  by (simp split: call.split)

lemmas approximates_intros = approximates_call approximates_cases approximates_bind approximates_refl

lemma lb_call_le: "lb_call e s c = Some r \<Longrightarrow> sl_call e s c = Some r"
proof (induction rule: lb_call.raw_induct [rotated, consumes 1, case_names step])
  case (step f e s c r)
  have f: "approximates (f e s c) (sl_call e s c)" for e s c
    using step.IH [of e s c] by (cases "f e s c") (auto simp: approximates_def)
  show ?case
    by (rule approximatesD [OF _ step.hyps], subst sl_call.simps, unfold lbft_streamlet)
      (intro f approximates_intros)
qed

lemma sl_call_le: "sl_call e s c = Some r \<Longrightarrow> lb_call e s c = Some r"
proof (induction rule: sl_call_induct)
  case (step f e s c r)
  have f: "approximates (f e s c) (lb_call e s c)" for e s c
    using step.IH [of e s c] by (cases "f e s c") (auto simp: approximates_def)
  show ?case
    by (rule approximatesD [OF _ step.hyps], subst lb_call.simps, unfold lbft_streamlet)
      (intro f approximates_intros)
qed

lemma lb_call_eq [lbft_streamlet]: "lb_call = sl_call"
proof (intro ext)
  fix e s c show "lb_call e s c = sl_call e s c"
    using lb_call_le [of e s c] sl_call_le [of e s c] by (cases "lb_call e s c"; cases "sl_call e s c") simp_all
qed

lemma lb_ProcessBlock_eq [lbft_streamlet]: "lb_ProcessBlock = sl_ProcessBlock"
  by (intro ext) (unfold lb_ProcessBlock_def sl_ProcessBlock_def lbft_streamlet, rule refl)

lemma lb_ProcessVote_eq [lbft_streamlet]: "lb_ProcessVote = sl_ProcessVote"
  by (intro ext) (unfold lb_ProcessVote_def sl_ProcessVote_def lbft_streamlet, rule refl)

lemma lb_processCertificate_eq [lbft_streamlet]: "lb_processCertificate = sl_processCertificate"
  by (intro ext) (unfold lb_processCertificate_def sl_processCertificate_def lbft_streamlet, rule refl)

lemma lb_processTC_eq [lbft_streamlet]: "lb_processTC = sl_processTC"
  by (intro ext) (unfold lb_processTC_def sl_processTC_def lbft_streamlet, rule refl)

lemma lb_run_spawned_eq [lbft_streamlet]: "lb_run_spawned = sl_run_spawned"
  by (intro ext) (unfold lb_run_spawned_def sl_run_spawned_def lbft_streamlet, rule refl)

lemma lb_ProcessRemoteTmo_eq [lbft_streamlet]: "lb_ProcessRemoteTmo = sl_ProcessRemoteTmo"
  by (intro ext) (unfold lb_ProcessRemoteTmo_def sl_ProcessRemoteTmo_def lbft_streamlet, rule refl)

lemma lb_ProcessLocalTmo_eq [lbft_streamlet]: "lb_ProcessLocalTmo = sl_ProcessLocalTmo"
  by (intro ext) (unfold lb_ProcessLocalTmo_def sl_ProcessLocalTmo_def lbft_streamlet, rule refl)

lemma lb_forkChoice_eq [lbft_streamlet]: "lb_forkChoice = sl_forkChoice"
  by (intro ext) (unfold lb_forkChoice_def sl_forkChoice_def lbft_streamlet, rule refl)

lemma lb_MakeProposal_eq [lbft_streamlet]: "lb_MakeProposal = sl_MakeProposal"
  by (intro ext) (unfold lb_MakeProposal_def sl_MakeProposal_def lbft_streamlet, rule refl)

lemma lb_MakePProposal_eq [lbft_streamlet]: "lb_MakePProposal = sl_MakePProposal"
  by (intro ext) (unfold lb_MakePProposal_def sl_MakePProposal_def lbft_streamlet, rule refl)

fun lb_handle :: "env \<Rightarrow> Lbft \<Rightarrow> event \<Rightarrow> Lbft go" where
  "lb_handle e s (OnBlock b) = bindG (lb_ProcessBlock e s b) (\<lambda>(s', _). retG s')"
| "lb_handle e s (OnVote v) = lb_ProcessVote e s v"
| "lb_handle e s (OnRemoteTmo t) = lb_ProcessRemoteTmo s t"
| "lb_handle e s (OnLocalTmo v) = lb_ProcessLocalTmo s v"

lemma lb_handle_eq [lbft_streamlet]: "lb_handle e s ev = sl_handle e s ev"
  by (cases ev) (simp_all add: lbft_streamlet)

interpretation lbft: safety sl_wf sl_admissible sl_step "lb_handle e"
  by unfold_locales
    (auto simp: lb_handle_eq dest: streamlet.handle_ok streamlet.admissible_forward intro: sl_step_trans)

end
