(* ===== verification/Streamlet_Props.thy ===== *)
theory Streamlet_Props
  imports Lbft Samples
begin

text \<open>
  What the Streamlet handlers guarantee: when blocks are voted for, notarized and committed, what a
  run can change, and where the code departs from the protocol.
\<close>

section \<open>The notarized chain\<close>

definition notarized_parent :: "Block list list \<Rightarrow> Block \<Rightarrow> bool" where
  "notarized_parent chain b \<longleftrightarrow> (\<exists>row \<in> set chain. \<exists>x \<in> set row. bID x = bPrevID b)"

lemma notarized_parent_take:
  "k < length chain \<Longrightarrow> notarized_parent (take (Suc k) chain) b \<longleftrightarrow>
     list_ex (\<lambda>x. bID x = bPrevID b) (chain ! k) \<or> notarized_parent (take k chain) b"
  by (auto simp: notarized_parent_def take_Suc_conv_app_nth list_ex_iff)

lemma sl_find_parent_eq:
  assumes "k \<le> length chain"
  shows "sl_find_parent chain b (int k - 1) =
     (if notarized_parent (take k chain) b then retG True
      else if 3 \<le> length chain then retG False else panicG IndexOutOfRange)"
  using assms
proof (induction k)
  case 0
  then show ?case
    by (subst sl_find_parent.simps) (auto simp: notarized_parent_def)
next
  case (Suc k)
  then show ?case
    by (subst sl_find_parent.simps) (auto simp: notarized_parent_take)
qed

lemma sl_find_parent_all:
  "sl_find_parent chain b (int (length chain) - 1) =
     (if notarized_parent chain b then retG True
      else if 3 \<le> length chain then retG False else panicG IndexOutOfRange)"
  using sl_find_parent_eq [of "length chain" chain b] by simp

lemma sl_updateNotarizedChain_eq:
  assumes "GetVertex (forrest (sBc s)) (qcBlockID (sQCs s r)) = Some b"
  shows "sl_updateNotarizedChain s r =
     (if notarizedChain s = [] \<or> notarized_parent (notarizedChain s) b
      then retG (s\<lparr>notarizedChain := notarizedChain s @ [[b]]\<rparr>, None)
      else if 3 \<le> length (notarizedChain s)
      then retG (s\<lparr>bufferedNotarizedBlock := (bufferedNotarizedBlock s)(bPrevID b \<mapsto> r)\<rparr>, Some NotExtendingNotarized)
      else panicG IndexOutOfRange)"
  using assms
  by (auto simp: sl_updateNotarizedChain_def GetBlockByID_def GetNotarizedHeight_def sl_find_parent_all)

text \<open>
  C19: notarizing a stored block crashes the replica exactly when one or two blocks are notarized
  and the block extends neither: the loop of \<open>updateNotarizedChain\<close> then reads row -1. With no
  row, or with the parent in any row, the block becomes the new last row; with three rows or
  more and no parent among them the certificate waits for the parent.
\<close>
theorem sl_notarize_cases:
  assumes "GetVertex (forrest (sBc s)) (qcBlockID (sQCs s r)) = Some b"
  shows "sl_updateNotarizedChain s r =
     (if notarizedChain s = [] \<or> (\<exists>row \<in> set (notarizedChain s). \<exists>x \<in> set row. bID x = bPrevID b)
      then retG (s\<lparr>notarizedChain := notarizedChain s @ [[b]]\<rparr>, None)
      else if 3 \<le> length (notarizedChain s)
      then retG (s\<lparr>bufferedNotarizedBlock := (bufferedNotarizedBlock s)(bPrevID b \<mapsto> r)\<rparr>, Some NotExtendingNotarized)
      else panicG IndexOutOfRange)"
  using sl_updateNotarizedChain_eq [OF assms] by (simp add: notarized_parent_def)

section \<open>A Streamlet replica with a stored chain\<close>

definition sl_links :: "LevelledForest \<Rightarrow> Block list list \<Rightarrow> Streamlet" where
  "sl_links f rows = (NewStreamlet (sample_env 4 True) ''1'' (NewPacemaker 4) (StaticE (NewStatic ''2'')))
     \<lparr>sBc := (NewBlockchain 4)\<lparr>forrest := f\<rparr>, notarizedChain := rows, sQCs := links_heap, sNextQC := 5\<rparr>"

lemma sl_links_simps [simp]:
  "forrest (sBc (sl_links f rows)) = f" "notarizedChain (sl_links f rows) = rows" "sQCs (sl_links f rows) = links_heap"
  "sID (sl_links f rows) = ''1''" "sElect (sl_links f rows) = StaticE (NewStatic ''2'')" "sl_cur (sl_links f rows) = 1"
  "sCommitted (sl_links f rows) = []" "sOutbox (sl_links f rows) = []" "echoedBlock (sl_links f rows) = {}"
  "sNextQC (sl_links f rows) = 5" "sBufferedBlocks (sl_links f rows) = Map.empty"
  by (simp_all add: sl_links_def NewStreamlet_def sl_advance_def sl_cur_def GetCurView_def AdvanceView_def NewPacemaker_def
      NewBlockchain_def)

lemma sl_links_wf: "forest_inv f \<Longrightarrow> list_all (\<lambda>row. length row = 1) rows \<Longrightarrow> sl_wf (sl_links f rows)"
  by (auto simp: sl_wf_def sl_links_def NewStreamlet_def sl_advance_def sl_cur_def GetCurView_def AdvanceView_def
      NewPacemaker_def bc_ok_def NewBlockchain_def links_heap_def zero_qc_def small_view_def is_i64_def)

theorem sl_notarize_cases_witness:
  "sl_updateNotarizedChain (sl_links links3 [[link 1]]) 4 = panicG IndexOutOfRange"
  by (subst sl_notarize_cases [of _ _ "link 3"]) (simp_all add: links_lookup)

section \<open>Commits\<close>

lemma sl_commitRule_rows:
  assumes "list_all (\<lambda>row. length row = 1) (notarizedChain s)" and "sl_commitRule s = retG (Some b)"
  shows "\<exists>rows b0 b2. notarizedChain s = rows @ [[b0], [b], [b2]] \<and>
     i64 (bView b0 + 1) = bView b \<and> i64 (bView b + 1) = bView b2"
proof -
  have h: "3 \<le> length (notarizedChain s)"
    using assms(2) by (simp add: sl_commitRule_def GetNotarizedHeight_def Let_def split: if_split_asm)
  then obtain rows r0 r1 r2 where rows: "notarizedChain s = rows @ [r0, r1, r2]"
    by (metis (no_types, lifting) append_assoc append_Cons append_Nil le_zero_eq length_0_conv length_append_singleton
        not_less_eq_eq numeral_3_eq_3 rev_exhaust)
  with assms(1) obtain b0 b1 b2 where r: "r0 = [b0]" "r1 = [b1]" "r2 = [b2]"
    by (auto simp: length_Suc_conv)
  have "index_slice (notarizedChain s) (int (length (notarizedChain s)) - 1) = retG [b2]"
    "index_slice (notarizedChain s) (int (length (notarizedChain s)) - 2) = retG [b1]"
    "index_slice (notarizedChain s) (int (length (notarizedChain s)) - 3) = retG [b0]"
    by (simp_all add: index_slice_def rows r nth_append nat_add_distrib)
  with assms(2) h have "b1 = b" "i64 (bView b0 + 1) = bView b" "i64 (bView b + 1) = bView b2"
    by (auto simp: sl_commitRule_def GetNotarizedHeight_def Let_def split: if_split_asm)
  with rows r show ?thesis by blast
qed

lemma sl_commitRule_three:
  assumes "notarizedChain s = rows @ [[b0], [b1], [b2]]" and "i64 (bView b0 + 1) = bView b1"
    and "i64 (bView b1 + 1) = bView b2"
  shows "sl_commitRule s = retG (Some b1)"
  by (simp add: sl_commitRule_def GetNotarizedHeight_def Let_def index_slice_def assms nth_append nat_add_distrib)

lemma sl_commit_Ret:
  assumes "sl_commit s b = retG (s', on)" and "sCommitted s' \<noteq> sCommitted s"
  shows "\<exists>cs c. GetVertex (forrest (sBc s)) (bID b) = Some c \<and> sCommitted s' = sCommitted s @ cs \<and>
     commit_chain (GetVertex (forrest (sBc s))) (LowestLevel (forrest (sBc s))) c cs \<and>
     notarizedChain s' = notarizedChain s \<and> sl_cur s' = sl_cur s"
  using assms by (auto simp: sl_commit_def elim!: bindG_RetE CommitBlock_Inr split: sum.split_asm)

lemma sl_advance_fields [simp]:
  "sBc (sl_advance s v) = sBc s" "notarizedChain (sl_advance s v) = notarizedChain s" "sQCs (sl_advance s v) = sQCs s"
  "sCommitted (sl_advance s v) = sCommitted s"
  by (simp_all add: sl_advance_def)

lemma sl_cur_advance: "sl_cur s \<le> v \<Longrightarrow> sl_cur (sl_advance s v) = i64 (v + 1)"
  by (simp add: sl_cur_def sl_advance_def GetCurView_def AdvanceView_def)

lemma sl_notarize_commits:
  assumes "sl_notarize s r = retG (s', on)" and "sCommitted s' \<noteq> sCommitted s" and "sl_wf s"
    and "sl_cur s \<le> qcView (sQCs s r)"
  shows "\<exists>rows b0 b1 b2 cs c. notarizedChain s' = rows @ [[b0], [b1], [b2]] \<and>
     i64 (bView b0 + 1) = bView b1 \<and> i64 (bView b1 + 1) = bView b2 \<and>
     GetVertex (forrest (sBc s)) (qcBlockID (sQCs s r)) = Some b2 \<and> 3 \<le> qcView (sQCs s r) \<and>
     GetVertex (forrest (sBc s)) (bID b1) = Some c \<and> sCommitted s' = sCommitted s @ cs \<and>
     commit_chain (GetVertex (forrest (sBc s))) (LowestLevel (forrest (sBc s))) c cs \<and>
     sl_cur s' = i64 (qcView (sQCs s r) + 1)"
proof (cases "GetVertex (forrest (sBc s)) (qcBlockID (sQCs s r))")
  case None
  with assms(1,2) show ?thesis by (simp add: sl_notarize_def sl_updateNotarizedChain_def GetBlockByID_def)
next
  case (Some b2)
  let ?s1 = "s\<lparr>notarizedChain := notarizedChain s @ [[b2]]\<rparr>"
  let ?s2 = "sl_advance ?s1 (qcView (sQCs s r))"
  from assms(1,2) obtain b1 where b1: "3 \<le> qcView (sQCs s r)" "sl_commitRule ?s2 = retG (Some b1)"
      "sl_commit ?s2 b1 = retG (s', on)"
    unfolding sl_notarize_def sl_updateNotarizedChain_eq [OF Some]
    by (auto simp: Let_def elim!: bindG_RetE split: if_split_asm option.split_asm)
  have "list_all (\<lambda>row. length row = 1) (notarizedChain ?s2)"
    using assms(3) by (simp add: sl_wf_def)
  from sl_commitRule_rows [OF this b1(2)] obtain rows b0 where rows: "notarizedChain ?s2 = rows @ [[b0], [b1], [b2]]"
      "i64 (bView b0 + 1) = bView b1" "i64 (bView b1 + 1) = bView b2" by auto
  from sl_commit_Ret [OF b1(3)] assms(2) obtain cs c where
      "GetVertex (forrest (sBc s)) (bID b1) = Some c" "sCommitted s' = sCommitted s @ cs"
      "commit_chain (GetVertex (forrest (sBc s))) (LowestLevel (forrest (sBc s))) c cs"
      "notarizedChain s' = notarizedChain ?s2" "sl_cur s' = sl_cur ?s2" by auto
  moreover have "sl_cur ?s2 = i64 (qcView (sQCs s r) + 1)" using assms(4) by (simp add: sl_cur_advance)
  ultimately show ?thesis using rows b1(1) Some by auto
qed

lemma sl_certify_cases:
  assumes "sl_certify e s r = retG (s', on)" and "sCommitted s' \<noteq> sCommitted s"
  shows "sl_cur s \<le> qcView (sQCs s r) \<and> sl_notarize s r = retG (s', on)"
  using assms by (auto simp: sl_certify_def Let_def elim!: bindG_RetE split: if_split_asm)

text \<open>
  C11: processing a certificate commits blocks only when the certificate is not behind, its view is
  at least 3 and its block, just notarized, is the last of three notarized rows with consecutive
  views; the blocks committed are the stored ancestors of the middle one above the last
  committed level, and the replica moves to the view after the certificate.
\<close>
theorem sl_commits_three_consecutive:
  assumes "sl_wf s" and "sl_certify e s r = retG (s', on)" and "sCommitted s' \<noteq> sCommitted s"
  shows "sl_cur s \<le> qcView (sQCs s r) \<and> 3 \<le> qcView (sQCs s r) \<and> sl_cur s' = i64 (qcView (sQCs s r) + 1) \<and>
     (\<exists>rows b0 b1 b2 cs c. notarizedChain s' = rows @ [[b0], [b1], [b2]] \<and>
        i64 (bView b0 + 1) = bView b1 \<and> i64 (bView b1 + 1) = bView b2 \<and>
        GetVertex (forrest (sBc s)) (qcBlockID (sQCs s r)) = Some b2 \<and>
        GetVertex (forrest (sBc s)) (bID b1) = Some c \<and> sCommitted s' = sCommitted s @ cs \<and>
        commit_chain (GetVertex (forrest (sBc s))) (LowestLevel (forrest (sBc s))) c cs)"
proof -
  note c = sl_certify_cases [OF assms(2,3)]
  from sl_notarize_commits [OF conjunct2 [OF c] assms(3,1) conjunct1 [OF c]] c show ?thesis by blast
qed

lemma sl_three_rows_commit:
  assumes "forest_run (forrest (sBc s))" and "notarizedChain s = rows @ [[b0], [b1]]"
    and "GetVertex (forrest (sBc s)) (qcBlockID (sQCs s r)) = Some b2"
    and "bPrevID b2 = bID b0 \<or> bPrevID b2 = bID b1"
    and "i64 (bView b0 + 1) = bView b1" and "i64 (bView b1 + 1) = bView b2"
    and "GetVertex (forrest (sBc s)) (bID b1) = Some b1" and "LowestLevel (forrest (sBc s)) \<le> Level b1"
    and "sl_cur s \<le> qcView (sQCs s r)" and "3 \<le> qcView (sQCs s r)" and "qcLeader (sQCs s r) \<noteq> sID s"
    and "VerifyQuorumSignature e (qcAggSig (sQCs s r)) (qcBlockID (sQCs s r)) (qcSigners (sQCs s r)) = retG (True, err)"
  shows "\<exists>s' cs. sl_certify e s r = retG (s', True) \<and> sCommitted s' = sCommitted s @ cs \<and>
     commit_chain (GetVertex (forrest (sBc s))) (LowestLevel (forrest (sBc s))) b1 cs \<and>
     notarizedChain s' = rows @ [[b0], [b1], [b2]]"
proof -
  let ?s2 = "sl_advance (s\<lparr>notarizedChain := notarizedChain s @ [[b2]]\<rparr>) (qcView (sQCs s r))"
  have "notarized_parent (notarizedChain s) b2" using assms(2,4) by (auto simp: notarized_parent_def)
  then have up: "sl_updateNotarizedChain s r = retG (s\<lparr>notarizedChain := notarizedChain s @ [[b2]]\<rparr>, None)"
    by (simp add: sl_updateNotarizedChain_eq [OF assms(3)])
  have rule: "sl_commitRule ?s2 = retG (Some b1)"
    using assms(2,5,6) by (intro sl_commitRule_three) simp_all
  have "sl_certify e s r = sl_commit ?s2 b1"
    using assms(3,9-12) by (simp add: sl_certify_def Let_def GetBlockByID_def sl_notarize_def up rule)
  moreover obtain cs fs bc' where "CommitBlock (sQCs s) (sBc s) (bID b1) (sl_cur ?s2) = retG (bc', Inr (cs, fs))"
      "commit_chain (GetVertex (forrest (sBc s))) (LowestLevel (forrest (sBc s))) b1 cs"
    using CommitBlock_total [OF assms(1,7,8), of "sQCs s" "sl_cur ?s2"] by metis
  ultimately show ?thesis using assms(2) by (auto simp: sl_commit_def)
qed

text \<open>A fork: block 3 extends block 1, as block 2 does.\<close>

definition fork3 :: Block where
  "fork3 = (link 3)\<lparr>bPrevID := 11, bQC := Some 2\<rparr>"

definition links_fork :: LevelledForest where
  "links_fork = grow links2 fork3"

lemma fork3_add: "AddVertex links_heap links2 fork3 = retG links_fork"
  using AddVertex_returns [of fork3 2 links_heap links2] by (auto simp: fork3_def links_fork_def grow_def)

lemma links_fork_lookup:
  "GetVertex links_fork i = (if i = 11 then Some (link 1) else if i = 12 then Some (link 2)
     else if i = 13 then Some fork3 else None)"
  using forest_store.insert_lookup [OF links_inv(2) fork3_add, of i]
  by (simp add: links_lookup fork3_def)

lemma links_fork_run: "forest_run links_fork"
proof -
  have "forest_run links2"
    using run_add [OF run_add [OF run_new links_in_order(1) grow_eq], folded links1_def, OF links_in_order(2) grow_eq]
    by (simp add: links2_def)
  moreover have "in_order links_heap links2 fork3"
    by (simp add: in_order_def VerifyVertex_def isEquivalentToStoredVertex_def verifyParent_def Parent_def
        HasVertex_iff links_lookup vertices_links link_defs fork3_def)
  ultimately show ?thesis using fork3_add by (rule run_add)
qed

lemma links_fork_lowest [simp]: "LowestLevel links_fork = 0"
  using forest_store.insert_lowest [OF links_inv(2) fork3_add] by simp

lemma links_fork_commit:
  "\<exists>s'. sl_certify (sample_env 4 True) (sl_links links_fork [[link 1], [link 2]]) 4 = retG (s', True) \<and>
     sCommitted s' = [link 2, link 1] \<and> notarizedChain s' = [[link 1], [link 2], [fork3]]"
proof -
  let ?s = "sl_links links_fork [[link 1], [link 2]]"
  have "\<exists>s' cs. sl_certify (sample_env 4 True) ?s 4 = retG (s', True) \<and> sCommitted s' = sCommitted ?s @ cs \<and>
      commit_chain (GetVertex (forrest (sBc ?s))) (LowestLevel (forrest (sBc ?s))) (link 2) cs \<and>
      notarizedChain s' = [] @ [[link 1], [link 2], [fork3]]"
    by (rule sl_three_rows_commit [where err = None])
      (simp_all add: links_fork_run links_fork_lookup fork3_def VerifyQuorumSignature_def)
  moreover have "commit_chain (GetVertex links_fork) 0 (link 2) [link 2, link 1]"
    by (simp add: links_fork_lookup)
  ultimately show ?thesis using commit_chain_unique by fastforce
qed

theorem sl_commits_three_consecutive_witness:
  "\<exists>s' rows b0 b1 b2. sl_certify (sample_env 4 True) (sl_links links_fork [[link 1], [link 2]]) 4 = retG (s', True) \<and>
     sCommitted s' = [link 2, link 1] \<and> notarizedChain s' = rows @ [[b0], [b1], [b2]]"
proof -
  obtain s' where s': "sl_certify (sample_env 4 True) (sl_links links_fork [[link 1], [link 2]]) 4 = retG (s', True)"
      "sCommitted s' = [link 2, link 1]" using links_fork_commit by blast
  have "forest_inv links_fork" using links_fork_run forest_run_inv by blast
  then have "sl_wf (sl_links links_fork [[link 1], [link 2]])" by (simp add: sl_links_wf)
  from sl_commits_three_consecutive [OF this s'(1)] s' show ?thesis by fastforce
qed

text \<open>
  C30: the commit rule looks at views only, not at the links between the notarized blocks. When
  the block certified last extends the first of the three rows, beside the second, the second is
  committed although the last block conflicts with it.
\<close>
theorem sl_commits_beside_the_chain:
  assumes "forest_run (forrest (sBc s))" and "notarizedChain s = rows @ [[b0], [b1]]"
    and "GetVertex (forrest (sBc s)) (qcBlockID (sQCs s r)) = Some b2" and "bPrevID b2 = bID b0"
    and "i64 (bView b0 + 1) = bView b1" and "i64 (bView b1 + 1) = bView b2"
    and "GetVertex (forrest (sBc s)) (bID b1) = Some b1" and "LowestLevel (forrest (sBc s)) < Level b1"
    and "sl_cur s \<le> qcView (sQCs s r)" and "3 \<le> qcView (sQCs s r)" and "qcLeader (sQCs s r) \<noteq> sID s"
    and "VerifyQuorumSignature e (qcAggSig (sQCs s r)) (qcBlockID (sQCs s r)) (qcSigners (sQCs s r)) = retG (True, err)"
  shows "\<exists>s'. sl_certify e s r = retG (s', True) \<and> b1 \<in> set (sCommitted s') \<and>
     notarizedChain s' = rows @ [[b0], [b1], [b2]]"
proof -
  obtain s' cs where s': "sl_certify e s r = retG (s', True)" "sCommitted s' = sCommitted s @ cs"
      "commit_chain (GetVertex (forrest (sBc s))) (LowestLevel (forrest (sBc s))) b1 cs"
      "notarizedChain s' = rows @ [[b0], [b1], [b2]]"
    using sl_three_rows_commit [OF assms(1-3) disjI1 [OF assms(4)] assms(5-7) less_imp_le [OF assms(8)] assms(9-12)]
    by blast
  from s'(3) assms(8) have "b1 \<in> set cs" by (cases cs) auto
  with s' show ?thesis by auto
qed

theorem sl_commits_beside_the_chain_witness:
  "\<exists>s'. sl_certify (sample_env 4 True) (sl_links links_fork [[link 1], [link 2]]) 4 = retG (s', True) \<and>
     link 2 \<in> set (sCommitted s') \<and> notarizedChain s' = [[link 1], [link 2], [fork3]] \<and> bPrevID fork3 \<noteq> bID (link 2)"
proof -
  have "\<exists>s'. sl_certify (sample_env 4 True) (sl_links links_fork [[link 1], [link 2]]) 4 = retG (s', True) \<and>
     link 2 \<in> set (sCommitted s') \<and> notarizedChain s' = [] @ [[link 1], [link 2], [fork3]]"
    by (rule sl_commits_beside_the_chain [where err = None])
      (simp_all add: links_fork_run links_fork_lookup fork3_def VerifyQuorumSignature_def)
  then show ?thesis by (auto simp: fork3_def)
qed

section \<open>Votes\<close>

text \<open>
  C18: a replica goes on to vote for a block only when the block is new to it, not behind its view,
  proposed by the leader of its view, with a stored parent unless its view is 1, and, beyond the
  second view, when it extends the last notarized block.
\<close>
theorem sl_votes_for_longest:
  assumes "sl_wf s" and "sl_receive e s b = retG (s', None)"
  shows "\<not> Exists (sBc s) (bID b) \<and> sl_cur s \<le> bView b \<and> IsLeader (sElect s) (bProposer b) (bView b) = retG True \<and>
     (1 < bView b \<longrightarrow> GetVertex (forrest (sBc s)) (bPrevID b) \<noteq> None) \<and>
     (2 < bView b \<longrightarrow> (\<exists>rows tail. notarizedChain s = rows @ [[tail]] \<and> bPrevID b = bID tail)) \<and>
     notarizedChain s' = notarizedChain s \<and> sCommitted s' = sCommitted s"
proof -
  have ins: "\<not> Exists (sBc s) (bID b)" "sl_cur s \<le> bView b" "IsLeader (sElect s) (bProposer b) (bView b) = retG True"
      "1 < bView b \<longrightarrow> GetVertex (forrest (sBc s)) (bPrevID b) \<noteq> None" "sl_insert s b = retG (s', None)"
    using assms(2) by (auto simp: sl_receive_def GetBlockByID_def elim!: bindG_RetE split: if_split_asm option.split_asm)
  from ins(5) have t: "notarizedChain s' = notarizedChain s" "sl_votingRule s' b = retG True" "sCommitted s' = sCommitted s"
    by (auto simp: sl_insert_def sl_broadcast_def Let_def elim!: bindG_RetE split: if_split_asm)
  have "\<exists>rows tail. notarizedChain s = rows @ [[tail]] \<and> bPrevID b = bID tail" if v: "2 < bView b"
  proof (cases "notarizedChain s" rule: rev_exhaust)
    case Nil
    with t(1,2) v show ?thesis by (simp add: sl_votingRule_def GetNotarizedHeight_def index_slice_def)
  next
    case (snoc rows row)
    then obtain x where x: "row = [x]" using assms(1) by (auto simp: sl_wf_def length_Suc_conv)
    with snoc t(1,2) v have "bPrevID b = bID x"
      by (auto simp: sl_votingRule_def GetNotarizedHeight_def index_slice_def nth_append)
    with snoc x show ?thesis by blast
  qed
  with ins t show ?thesis by auto
qed

text \<open>The sample block of view 3 that extends block 1.\<close>

definition gap3 :: Block where
  "gap3 = (link 3)\<lparr>bPrevID := 11, bQC := Some 2, bProposer := ''2'', bSig := [''1'', ''1'']\<rparr>"

lemma gap3_simps [simp]: "bView gap3 = 3" "bPrevID gap3 = 11" "bQC gap3 = Some 2" "bProposer gap3 = ''2''"
    "bID gap3 = 13" "bSig gap3 = [''1'', ''1'']"
  by (simp_all add: gap3_def)

theorem sl_votes_for_longest_witness:
  "\<exists>s' rows tail. sl_receive (sample_env 4 True) (sl_links links1 [[link 1]]) gap3 = retG (s', None) \<and>
     notarizedChain (sl_links links1 [[link 1]]) = rows @ [[tail]] \<and> bPrevID gap3 = bID tail"
proof -
  let ?s = "sl_links links1 [[link 1]]"
  obtain f where f: "AddVertex links_heap links1 gap3 = retG f" using AddVertex_returns [of gap3 2] by auto
  have "\<exists>s'. sl_receive (sample_env 4 True) ?s gap3 = retG (s', None)"
    by (simp add: sl_receive_def Exists_def HasVertex_iff links_lookup GetBlockByID_def Static_IsLeader_def NewStatic_def
        sl_insert_def sl_broadcast_def AddBlock_def f sl_votingRule_def GetNotarizedHeight_def index_slice_def)
  then obtain s' where s': "sl_receive (sample_env 4 True) ?s gap3 = retG (s', None)" by blast
  have "sl_wf ?s" by (simp add: sl_links_wf links_inv)
  from sl_votes_for_longest [OF this s'] s' show ?thesis by auto
qed

text \<open>
  Before the first notarization, a block of the leader beyond the second view whose parent is
  stored crashes the replica: the voting rule reads the last row of the empty notarized chain.
\<close>
theorem sl_vote_crashes_unnotarized:
  assumes "notarizedChain s = []" and "GetVertex (forrest (sBc s)) (bID b) = None"
    and "GetVertex (forrest (sBc s)) (bPrevID b) \<noteq> None" and "sl_cur s \<le> bView b" and "2 < bView b"
    and "IsLeader (sElect s) (bProposer b) (bView b) = retG True" and "bProposer b \<noteq> sID s" and "bQC b = Some r"
    and "PubVerify e (bSig b) (IDToByte (bID b)) (bProposer b) = retG x"
  shows "sl_ProcessBlock e s b = panicG IndexOutOfRange"
proof -
  obtain f where f: "AddVertex (sQCs s) (forrest (sBc s)) b = retG f" using AddVertex_returns [OF assms(8)] by blast
  have "sl_insert s b = panicG IndexOutOfRange"
    using assms(1,5) f by (simp add: sl_insert_def sl_broadcast_def AddBlock_def sl_votingRule_def GetNotarizedHeight_def
        index_slice_def)
  then have "sl_receive e s b = panicG IndexOutOfRange"
    using assms by (auto simp: sl_receive_def Exists_def HasVertex_iff GetBlockByID_def)
  then show ?thesis by (simp add: sl_ProcessBlock_def sl_call.simps [of e s])
qed

theorem sl_vote_crashes_unnotarized_witness:
  "sl_ProcessBlock (sample_env 4 True) (sl_links links1 []) gap3 = panicG IndexOutOfRange"
  by (rule sl_vote_crashes_unnotarized [where r = 2 and x = "(True, None)"])
    (simp_all add: links_lookup Static_IsLeader_def NewStatic_def)

text \<open>
  A vote for a block the replica has already echoed is counted but not passed on, because
  \<open>ProcessVote\<close> marks and looks up blocks where it means votes: at most the first message about a
  block is echoed.
\<close>
theorem sl_vote_not_echoed:
  assumes "vBlockID vote \<in> echoedBlock s" and "sl_count e s vote = retG (s', built)"
  shows "sOutbox s' = sOutbox s \<and> echoedVote s' = echoedVote s"
proof -
  obtain c' b qc where av: "AddVote (vote_order e) (sBc s) vote = (c', b, qc)" by (metis prod_cases3)
  from assms show ?thesis
    by (auto simp: sl_count_def av sl_alloc_def Let_def elim!: bindG_RetE split: if_split_asm option.split_asm)
qed

theorem sl_vote_not_echoed_witness:
  "\<exists>s' built. sl_count (sample_env 4 True) ((sl_links links1 [])\<lparr>echoedBlock := {7}\<rparr>) (sample_vote ''1'' 7) = retG (s', built) \<and>
     sOutbox s' = []"
proof -
  let ?s = "(sl_links links1 [])\<lparr>echoedBlock := {7}\<rparr>"
  have "\<exists>s' built. sl_count (sample_env 4 True) ?s (sample_vote ''1'' 7) = retG (s', built)"
    by (simp add: sl_count_def sample_vote_def Let_def sl_alloc_def split: prod.split option.split)
      (auto simp: AddVote_def Quorum_Add_def Let_def split: if_split_asm prod.split_asm)
  then obtain s' built where s': "sl_count (sample_env 4 True) ?s (sample_vote ''1'' 7) = retG (s', built)" by blast
  have "vBlockID (sample_vote ''1'' 7) \<in> echoedBlock ?s" by (simp add: sample_vote_def)
  from sl_vote_not_echoed [OF this s'] s' show ?thesis by auto
qed

section \<open>Runs\<close>

text \<open>
  However blocks, votes and timeouts are interleaved with the goroutines that change views, the
  replica keeps its invariant, never goes back to an earlier view, and only adds to the notarized
  chain and to the committed blocks.
\<close>
theorem sl_run_monotone:
  assumes "sl_reach e s s'" and "sl_wf s"
  shows "sl_wf s' \<and> sl_cur s \<le> sl_cur s' \<and> prefix (notarizedChain s) (notarizedChain s') \<and>
     prefix (sCommitted s) (sCommitted s') \<and> list_all (\<lambda>row. length row = 1) (notarizedChain s')"
  using sl_reach_step [OF assms] by (auto simp: sl_step_def sl_extends_def sl_wf_def)

theorem sl_run_monotone_witness:
  "\<exists>s'. sl_reach (sample_env 4 True) (sl_links links1 [[link 1]]) s' \<and> sl_wf s' \<and> prefix [[link 1]] (notarizedChain s') \<and>
     sOutbox s' \<noteq> []"
proof -
  let ?s = "sl_links links1 [[link 1]]"
  have "\<exists>s'. sl_handle (sample_env 4 True) ?s (OnLocalTmo 1) = retG s' \<and> sOutbox s' \<noteq> []"
    by (auto simp: sl_ProcessLocalTmo_def sl_ProcessRemoteTmo_def sl_broadcast_def sl_processTC_def Let_def
        split: prod.split option.split dest: pm_ProcessRemoteTmo_fields)
  then obtain s' where s': "sl_handle (sample_env 4 True) ?s (OnLocalTmo 1) = retG s'" "sOutbox s' \<noteq> []" by blast
  have "sl_admissible ?s (OnLocalTmo 1)" by (simp add: small_view_def is_i64_def)
  from reach_event [OF reach_start this s'(1)] have r: "sl_reach (sample_env 4 True) ?s s'" .
  have "sl_wf ?s" by (simp add: sl_links_wf links_inv)
  from sl_run_monotone [OF r this] r s'(2) show ?thesis by auto
qed

section \<open>LBFT\<close>

text \<open>
  C27: the LBFT replica is the Streamlet replica: a new replica is the same, every event and every
  goroutine has the same effect and the proposals are the same.
\<close>
theorem lbft_is_streamlet:
  "NewLbft e i pm elec = NewStreamlet e i pm elec \<and> run_events (lb_handle e) s evs = run_events (sl_handle e) s evs \<and>
   lb_run_spawned s k = sl_run_spawned s k \<and>
   lb_MakeProposal e s view payload = sl_MakeProposal e s view payload \<and>
   lb_MakePProposal e answers s view = sl_MakePProposal e answers s view"
proof -
  have "lb_handle e = sl_handle e" by (intro ext) (rule lb_handle_eq)
  then show ?thesis by (simp add: lbft_streamlet)
qed

end
