(* ===== verification/Mempool.thy ===== *)
theory Mempool
  imports Block "HOL-Library.Word"
begin

text \<open>
  The transaction pool (mempool/): a queue with a soft limit, a Bloom filter of the identifiers
  seen, and the producer of block payloads. The bit set behind the filter is a third-party package;
  its three operations are the argument \<open>B\<close>, and \<open>bitset_laws\<close> is what its documentation says.
\<close>

unbundle bit_operations_syntax

section \<open>The Bloom filter\<close>

record 'b bitset_ops =
  bs_New :: "64 word \<Rightarrow> 'b"
  bs_Set :: "'b \<Rightarrow> 64 word \<Rightarrow> 'b"
  bs_Test :: "'b \<Rightarrow> 64 word \<Rightarrow> bool"

definition bitset_laws :: "'b bitset_ops \<Rightarrow> bool" where
  "bitset_laws B \<longleftrightarrow> (\<forall>n i. \<not> bs_Test B (bs_New B n) i) \<and>
     (\<forall>s i j. bs_Test B (bs_Set B s i) j \<longleftrightarrow> i = j \<or> bs_Test B s j)"

definition DEFAULT_SIZE :: "64 word" where
  "DEFAULT_SIZE = push_bit 24 2"

definition seeds :: "64 word list" where
  "seeds = [7, 11, 13, 31, 37, 61]"

record SimpleHash =
  hashCap :: "64 word"
  hashSeed :: "64 word"

definition simple_hash :: "SimpleHash \<Rightarrow> string \<Rightarrow> 64 word" where
  "simple_hash s value = (hashCap s - 1) AND fold (\<lambda>c result. result * hashSeed s + of_char c) value 0"

record 'b BloomFilter =
  bfSet :: 'b
  bfFuncs :: "SimpleHash list"

definition NewBloomFilter :: "'b bitset_ops \<Rightarrow> 'b BloomFilter" where
  "NewBloomFilter B =
     \<lparr>bfSet = bs_New B DEFAULT_SIZE, bfFuncs = map (\<lambda>seed. \<lparr>hashCap = DEFAULT_SIZE, hashSeed = seed\<rparr>) seeds\<rparr>"

definition bloom_Add :: "'b bitset_ops \<Rightarrow> 'b BloomFilter \<Rightarrow> string \<Rightarrow> 'b BloomFilter" where
  "bloom_Add B bf value = bf\<lparr>bfSet := fold (\<lambda>f s. bs_Set B s (simple_hash f value)) (bfFuncs bf) (bfSet bf)\<rparr>"

definition bloom_Contains :: "'b bitset_ops \<Rightarrow> 'b BloomFilter \<Rightarrow> string \<Rightarrow> bool" where
  "bloom_Contains B bf value =
     (if value = [] then False
      else fold (\<lambda>f ret. ret \<and> bs_Test B (bfSet bf) (simple_hash f value)) (bfFuncs bf) True)"

section \<open>The queue\<close>

record 'b Backend =
  txns :: "Transaction list"
  limit :: int
  totalReceived :: int
  bloom :: "'b BloomFilter"

definition NewBackend :: "'b bitset_ops \<Rightarrow> int \<Rightarrow> 'b Backend" where
  "NewBackend B n = \<lparr>txns = [], limit = n, totalReceived = 0, bloom = NewBloomFilter B\<rparr>"

definition pool_size :: "'b Backend \<Rightarrow> int" where
  "pool_size b = int (length (txns b))"

definition insertBack :: "'b Backend \<Rightarrow> Transaction option \<Rightarrow> 'b Backend" where
  "insertBack b txn =
     (case txn of
        None \<Rightarrow> b
      | Some tx \<Rightarrow>
          if pool_size b > limit b then b
          else b\<lparr>totalReceived := i64 (totalReceived b + 1), txns := txns b @ [tx]\<rparr>)"

definition insertFront :: "'b Backend \<Rightarrow> Transaction option \<Rightarrow> 'b Backend" where
  "insertFront b txn =
     (case txn of
        None \<Rightarrow> b
      | Some tx \<Rightarrow> b\<lparr>txns := tx # txns b\<rparr>)"

definition pool_front :: "'b Backend \<Rightarrow> 'b Backend \<times> Transaction option" where
  "pool_front b =
     (case txns b of
        [] \<Rightarrow> (b, None)
      | tx # rest \<Rightarrow> (b\<lparr>txns := rest\<rparr>, Some tx))"

fun pool_take :: "nat \<Rightarrow> 'b Backend \<Rightarrow> Transaction option list \<Rightarrow> 'b Backend \<times> Transaction option list" where
  "pool_take 0 b batch = (b, batch)"
| "pool_take (Suc n) b batch = (case pool_front b of (b', tx) \<Rightarrow> pool_take n b' (batch @ [tx]))"

text \<open>A negative size reaches \<open>make\<close>, which panics.\<close>

definition pool_some :: "'b Backend \<Rightarrow> int \<Rightarrow> ('b Backend \<times> Transaction option list) go" where
  "pool_some b n =
     (let batchSize = (if pool_size b \<ge> n then n else pool_size b)
      in if batchSize < 0 then panicG MakeSliceRange else retG (pool_take (nat batchSize) b []))"

definition addToBloom :: "'b bitset_ops \<Rightarrow> 'b Backend \<Rightarrow> string \<Rightarrow> 'b Backend" where
  "addToBloom B b i = b\<lparr>bloom := bloom_Add B (bloom b) i\<rparr>"

section \<open>The pool and the producer\<close>

type_synonym 'b MemPool = "'b Backend"

definition NewMemPool :: "'b bitset_ops \<Rightarrow> Config \<Rightarrow> 'b MemPool" where
  "NewMemPool B c = NewBackend B (MemSize c)"

definition addNew :: "'b bitset_ops \<Rightarrow> 'b MemPool \<Rightarrow> Transaction option \<Rightarrow> 'b MemPool go" where
  "addNew B mp txn =
     (let mp1 = insertBack mp txn
      in case txn of
           None \<Rightarrow> panicG NilDereference
         | Some tx \<Rightarrow> retG (addToBloom B mp1 (txID tx)))"

definition addOld :: "'b MemPool \<Rightarrow> Transaction option \<Rightarrow> 'b MemPool" where
  "addOld mp txn = insertFront mp txn"

type_synonym 'b Producer = "'b MemPool"

definition NewProducer :: "'b bitset_ops \<Rightarrow> Config \<Rightarrow> 'b Producer" where
  "NewProducer B c = NewMemPool B c"

definition GeneratePayload :: "Config \<Rightarrow> 'b Producer \<Rightarrow> ('b Producer \<times> Transaction option list) go" where
  "GeneratePayload c pd = pool_some pd (BSize c)"

definition AddTxn :: "'b bitset_ops \<Rightarrow> 'b Producer \<Rightarrow> Transaction option \<Rightarrow> 'b Producer go" where
  "AddTxn B pd txn = addNew B pd txn"

definition CollectTxn :: "'b Producer \<Rightarrow> Transaction option \<Rightarrow> 'b Producer" where
  "CollectTxn pd txn = addOld pd txn"

definition TotalReceivedTxNo :: "'b Producer \<Rightarrow> int" where
  "TotalReceivedTxNo pd = totalReceived pd"

section \<open>Queue order\<close>

lemma pool_take_eq:
  "n \<le> length (txns b) \<Longrightarrow>
     pool_take n b acc = (b\<lparr>txns := drop n (txns b)\<rparr>, acc @ map Some (take n (txns b)))"
proof (induction n arbitrary: b acc)
  case (Suc n)
  then obtain tx rest where "txns b = tx # rest" by (cases "txns b") auto
  with Suc show ?case by (simp add: pool_front_def)
qed simp

lemma pool_some_eq:
  "0 \<le> n \<Longrightarrow> pool_some b n = retG (b\<lparr>txns := drop (nat n) (txns b)\<rparr>, map Some (take (nat n) (txns b)))"
  by (auto simp: pool_some_def pool_size_def pool_take_eq Let_def)

text \<open>
  The contract between the pool and the replica: a payload is taken from the front of the queue,
  and a transaction given back goes to the front.
\<close>

locale transaction_pool =
  fixes content :: "'p \<Rightarrow> Transaction list"
    and payload :: "int \<Rightarrow> 'p \<Rightarrow> ('p \<times> Transaction option list) go"
    and collect :: "'p \<Rightarrow> Transaction option \<Rightarrow> 'p"
  assumes payload_front: "0 \<le> n \<Longrightarrow> \<exists>p'. payload n p = retG (p', map Some (take (nat n) (content p))) \<and>
      content p' = drop (nat n) (content p)"
    and collect_front: "content (collect p (Some tx)) = tx # content p"
begin

lemma collect_all: "content (fold (\<lambda>tx p. collect p (Some tx)) txs p) = rev txs @ content p"
  by (induction txs arbitrary: p) (simp_all add: collect_front)

lemma payload_collected:
  assumes "0 \<le> n" and "payload n p = retG (p', map Some txs)"
  shows "content (fold (\<lambda>tx p. collect p (Some tx)) (rev txs) p') = content p"
proof -
  have "txs = take (nat n) (content p)" "content p' = drop (nat n) (content p)"
    using payload_front [OF assms(1), of p] assms(2) by (auto simp: inj_map_eq_map)
  then show ?thesis by (simp add: collect_all)
qed

end

interpretation pool: transaction_pool txns "\<lambda>n b. pool_some b n" addOld
  by unfold_locales (auto simp: pool_some_eq addOld_def insertFront_def)

text \<open>
  With a block size of at least 0, the payload of a block is the front of the queue, in
  order, at most the block size and all of the queue when it is shorter, and exactly these
  transactions leave the queue; a negative block size stops the node.
\<close>
theorem payload_is_front:
  "GeneratePayload c pd =
     (if BSize c < 0 then panicG MakeSliceRange
      else retG (pd\<lparr>txns := drop (nat (BSize c)) (txns pd)\<rparr>, map Some (take (nat (BSize c)) (txns pd))))"
  by (auto simp: GeneratePayload_def pool_some_eq) (auto simp: pool_some_def pool_size_def Let_def)

section \<open>Capacity\<close>

fun add_all :: "'b bitset_ops \<Rightarrow> 'b Producer \<Rightarrow> Transaction list \<Rightarrow> 'b Producer go" where
  "add_all B pd [] = retG pd"
| "add_all B pd (tx # txs) = bindG (AddTxn B pd (Some tx)) (\<lambda>pd'. add_all B pd' txs)"

lemma AddTxn_Some:
  "AddTxn B pd (Some tx) = retG (addToBloom B (insertBack pd (Some tx)) (txID tx))"
  by (simp add: AddTxn_def addNew_def)

lemma insertBack_Some [simp]:
  "txns (insertBack pd (Some tx)) = (if int (length (txns pd)) > limit pd then txns pd else txns pd @ [tx])"
  "limit (insertBack pd (Some tx)) = limit pd"
  by (simp_all add: insertBack_def pool_size_def)

lemma addToBloom_fields [simp]: "txns (addToBloom B b i) = txns b" "limit (addToBloom B b i) = limit b"
  by (simp_all add: addToBloom_def)

lemma add_all_eq:
  "\<exists>pd'. add_all B pd txs = retG pd' \<and> limit pd' = limit pd \<and>
     txns pd' = txns pd @ take (nat (limit pd + 1 - int (length (txns pd)))) txs"
proof (induction txs arbitrary: pd)
  case (Cons tx txs)
  let ?pd = "addToBloom B (insertBack pd (Some tx)) (txID tx)"
  obtain pd' where pd': "add_all B ?pd txs = retG pd'" "limit pd' = limit pd"
      "txns pd' = txns ?pd @ take (nat (limit pd + 1 - int (length (txns ?pd)))) txs"
    using Cons.IH [of ?pd] by auto
  have n: "nat (limit pd + 1 - int (length (txns pd))) = (if int (length (txns pd)) > limit pd then 0
      else Suc (nat (limit pd + 1 - int (length (txns ?pd)))))"
    by auto
  show ?case using pd' by (simp add: AddTxn_Some n)
qed simp

text \<open>
  A new pool with limit \<open>n\<close> that is given transactions keeps the first \<open>n + 1\<close> of them in the
  order they came and drops the rest: the test against the limit lets one more in.
\<close>
theorem pool_keeps_limit_plus_one:
  "\<exists>pd. add_all B (NewProducer B c) txs = retG pd \<and> txns pd = take (nat (MemSize c + 1)) txs"
  using add_all_eq [of B "NewProducer B c" txs] by (auto simp: NewProducer_def NewMemPool_def NewBackend_def)

section \<open>The filter has no false negatives\<close>

lemma fold_bs_Set:
  assumes "bitset_laws B"
  shows "bs_Test B (fold (\<lambda>f s. bs_Set B s (g f)) fs s) j \<longleftrightarrow> bs_Test B s j \<or> (\<exists>f \<in> set fs. g f = j)"
proof (induction fs arbitrary: s)
  case (Cons f fs)
  have "bs_Test B (bs_Set B s (g f)) j \<longleftrightarrow> g f = j \<or> bs_Test B s j" using assms by (simp add: bitset_laws_def)
  with Cons show ?case by auto
qed simp

lemma fold_conj: "fold (\<lambda>f ret. ret \<and> P f) fs r \<longleftrightarrow> r \<and> (\<forall>f \<in> set fs. P f)"
  by (induction fs arbitrary: r) auto

lemma bloom_Contains_iff:
  "bloom_Contains B bf value \<longleftrightarrow> value \<noteq> [] \<and> (\<forall>f \<in> set (bfFuncs bf). bs_Test B (bfSet bf) (simple_hash f value))"
  by (simp add: bloom_Contains_def fold_conj)

lemma bloom_Add_all:
  assumes "bitset_laws B"
  shows "bfFuncs (fold (\<lambda>v bf. bloom_Add B bf v) vs bf) = bfFuncs bf \<and>
     (bs_Test B (bfSet (fold (\<lambda>v bf. bloom_Add B bf v) vs bf)) j \<longleftrightarrow>
        bs_Test B (bfSet bf) j \<or> (\<exists>v \<in> set vs. \<exists>f \<in> set (bfFuncs bf). simple_hash f v = j))"
proof (induction vs arbitrary: bf)
  case (Cons v vs)
  from Cons [of "bloom_Add B bf v"] show ?case
    using fold_bs_Set [OF assms, of "\<lambda>f. simple_hash f v" "bfFuncs bf" "bfSet bf" j]
    by (auto simp: bloom_Add_def)
qed simp

text \<open>
  An identifier that has been added to the filter is reported from then on, whatever is added
  besides, unless it is empty: the empty identifier is never reported. A fresh filter reports
  nothing.
\<close>
theorem bloom_no_false_negatives:
  assumes "bitset_laws B"
  shows "(w \<in> set vs \<and> w \<noteq> [] \<longrightarrow> bloom_Contains B (fold (\<lambda>v bf. bloom_Add B bf v) vs (NewBloomFilter B)) w) \<and>
     \<not> bloom_Contains B (NewBloomFilter B) w \<and> \<not> bloom_Contains B bf []"
proof -
  have "\<not> bs_Test B (bfSet (NewBloomFilter B)) j" for j
    using assms by (simp add: NewBloomFilter_def bitset_laws_def)
  moreover have "bfFuncs (NewBloomFilter B) \<noteq> []" by (simp add: NewBloomFilter_def seeds_def)
  ultimately show ?thesis
    using bloom_Add_all [OF assms, of vs "NewBloomFilter B"] by (cases "bfFuncs (NewBloomFilter B)") (auto simp: bloom_Contains_iff)
qed

text \<open>Sets of positions are a bit set.\<close>

definition sample_bits :: "64 word set bitset_ops" where
  "sample_bits = \<lparr>bs_New = (\<lambda>_. {}), bs_Set = (\<lambda>s i. insert i s), bs_Test = (\<lambda>s i. i \<in> s)\<rparr>"

lemma sample_bits_laws: "bitset_laws sample_bits"
  by (auto simp: bitset_laws_def sample_bits_def)

theorem bloom_no_false_negatives_witness:
  "bloom_Contains sample_bits (fold (\<lambda>v bf. bloom_Add sample_bits bf v) [''tx1'', ''tx2''] (NewBloomFilter sample_bits)) ''tx1''"
  using bloom_no_false_negatives [OF sample_bits_laws, of "''tx1''" "[''tx1'', ''tx2'']"] by simp

end
