(* ===== verification/Replica.thy ===== *)
theory Replica
  imports HotStuff Fhs Lbft Mempool
begin

text \<open>
  The replica (replica/replica.go): the messages it is handed become events, and its event loop,
  its view listener, its timer and its listener for committed and forked blocks drive the protocol
  that the configuration names. A replica shares its pacemaker, its node and its two block channels
  with the protocol, so they live in the protocol's state; a channel is the list of what has been
  sent on it, with the number of items taken from it. Clocks and the averages computed from them
  are in theory \<open>Monitor\<close>.
\<close>

section \<open>The protocol behind the interface\<close>

datatype SafetyS = SHotStuff HotStuff | STchs Tchs | SFhs Fhs | SStreamlet Streamlet | SLbft Lbft

fun saf_pm :: "SafetyS \<Rightarrow> Pacemaker" where
  "saf_pm (SHotStuff s) = rPm s"
| "saf_pm (STchs s) = rPm s"
| "saf_pm (SFhs s) = rPm s"
| "saf_pm (SStreamlet s) = sPm s"
| "saf_pm (SLbft s) = sPm s"

fun saf_on :: "(chained \<Rightarrow> chained) \<Rightarrow> (Streamlet \<Rightarrow> Streamlet) \<Rightarrow> SafetyS \<Rightarrow> SafetyS" where
  "saf_on f g (SHotStuff s) = SHotStuff (f s)"
| "saf_on f g (STchs s) = STchs (f s)"
| "saf_on f g (SFhs s) = SFhs (f s)"
| "saf_on f g (SStreamlet s) = SStreamlet (g s)"
| "saf_on f g (SLbft s) = SLbft (g s)"

fun saf_get :: "(chained \<Rightarrow> 'a) \<Rightarrow> (Streamlet \<Rightarrow> 'a) \<Rightarrow> SafetyS \<Rightarrow> 'a" where
  "saf_get f g (SHotStuff s) = f s"
| "saf_get f g (STchs s) = f s"
| "saf_get f g (SFhs s) = f s"
| "saf_get f g (SStreamlet s) = g s"
| "saf_get f g (SLbft s) = g s"

abbreviation saf_ID :: "SafetyS \<Rightarrow> NodeID" where
  "saf_ID \<equiv> saf_get rID sID"

abbreviation saf_elect :: "SafetyS \<Rightarrow> Election" where
  "saf_elect \<equiv> saf_get rElect sElect"

abbreviation saf_cur :: "SafetyS \<Rightarrow> View" where
  "saf_cur \<equiv> saf_get cur sl_cur"

abbreviation saf_next :: "SafetyS \<Rightarrow> nat" where
  "saf_next \<equiv> saf_get rNextQC sNextQC"

abbreviation saf_committed :: "SafetyS \<Rightarrow> Block list" where
  "saf_committed \<equiv> saf_get committedBlocks sCommitted"

abbreviation saf_forked :: "SafetyS \<Rightarrow> Block list" where
  "saf_forked \<equiv> saf_get forkedBlocks sForked"

abbreviation saf_outbox :: "SafetyS \<Rightarrow> packet list" where
  "saf_outbox \<equiv> saf_get rOutbox sOutbox"

definition saf_advance :: "SafetyS \<Rightarrow> View \<Rightarrow> SafetyS" where
  "saf_advance s view = saf_on (\<lambda>c. advance c view) (\<lambda>c. sl_advance c view) s"

definition saf_broadcast :: "SafetyS \<Rightarrow> msg \<Rightarrow> SafetyS" where
  "saf_broadcast s m = saf_on (\<lambda>c. send c (Broadcast m)) (\<lambda>c. sl_broadcast c m) s"

text \<open>The methods of the interface, by the protocol that implements them.\<close>

fun saf_handle :: "env \<Rightarrow> SafetyS \<Rightarrow> event \<Rightarrow> SafetyS go" where
  "saf_handle e (SHotStuff s) ev = bindG (hs_handle e s ev) (\<lambda>s'. retG (SHotStuff s'))"
| "saf_handle e (STchs s) ev = bindG (th_handle e s ev) (\<lambda>s'. retG (STchs s'))"
| "saf_handle e (SFhs s) ev = bindG (f_handle e s ev) (\<lambda>s'. retG (SFhs s'))"
| "saf_handle e (SStreamlet s) ev = bindG (sl_handle e s ev) (\<lambda>s'. retG (SStreamlet s'))"
| "saf_handle e (SLbft s) ev = bindG (lb_handle e s ev) (\<lambda>s'. retG (SLbft s'))"

fun saf_MakeProposal :: "env \<Rightarrow> SafetyS \<Rightarrow> View \<Rightarrow> Transaction list \<Rightarrow> (SafetyS \<times> Block) go" where
  "saf_MakeProposal e (SHotStuff s) view payload = bindG (hs_MakeProposal e s view payload) (\<lambda>(s', b). retG (SHotStuff s', b))"
| "saf_MakeProposal e (STchs s) view payload = bindG (th_MakeProposal e s view payload) (\<lambda>(s', b). retG (STchs s', b))"
| "saf_MakeProposal e (SFhs s) view payload = bindG (f_MakeProposal e s view payload) (\<lambda>(s', b). retG (SFhs s', b))"
| "saf_MakeProposal e (SStreamlet s) view payload = bindG (sl_MakeProposal e s view payload) (\<lambda>(s', b). retG (SStreamlet s', b))"
| "saf_MakeProposal e (SLbft s) view payload = bindG (lb_MakeProposal e s view payload) (\<lambda>(s', b). retG (SLbft s', b))"

fun saf_MakePProposal :: "env \<Rightarrow> (nat \<Rightarrow> PartialOrderBatch option) \<Rightarrow> SafetyS \<Rightarrow> View \<Rightarrow> (SafetyS \<times> Block) go" where
  "saf_MakePProposal e ans (SHotStuff s) view = bindG (hs_MakePProposal e ans s view) (\<lambda>(s', b). retG (SHotStuff s', b))"
| "saf_MakePProposal e ans (STchs s) view = bindG (th_MakePProposal e ans s view) (\<lambda>(s', b). retG (STchs s', b))"
| "saf_MakePProposal e ans (SFhs s) view = bindG (f_MakePProposal e ans s view) (\<lambda>(s', b). retG (SFhs s', b))"
| "saf_MakePProposal e ans (SStreamlet s) view = bindG (sl_MakePProposal e ans s view) (\<lambda>(s', b). retG (SStreamlet s', b))"
| "saf_MakePProposal e ans (SLbft s) view = bindG (lb_MakePProposal e ans s view) (\<lambda>(s', b). retG (SLbft s', b))"

section \<open>The replica\<close>

datatype rep_event =
    EvView View
  | EvBlock Block
  | EvVote Vote
  | EvTMO TMO
  | EvConsensusMessage nat
  | EvCommand nat

text \<open>The calls into the Phalanx library.\<close>

datatype phalanx_call =
    ReceiveTransaction Transaction
  | ReceiveConsensusMessage nat
  | ReceiveCommand nat
  | CommitProposal PartialOrderBatch

record 'b Replica =
  rpSafety :: SafetyS
  rpProducer :: "'b Producer"
  rpStarted :: bool
  rpOpenPhalanx :: bool
  rpEvents :: "rep_event list"
  rpViewsTaken :: nat
  rpCommittedTaken :: nat
  rpForkedTaken :: nat
  receivedNo :: int
  roundNo :: int
  voteNo :: int
  processedNo :: int
  proposedNo :: int
  committedNo :: int
  totalCommittedTx :: int
  totalBlockSize :: int
  rpPhalanx :: "phalanx_call list"

definition rep_election :: "Config \<Rightarrow> Election" where
  "rep_election c = (if Master c = ''0'' then RotationE (NewRotation (config_N c)) else StaticE (NewStatic (Master c)))"

definition rep_safety :: "env \<Rightarrow> NodeID \<Rightarrow> string \<Rightarrow> bool \<Rightarrow> SafetyS" where
  "rep_safety e i alg byz =
     (let pm = NewPacemaker (config_N (cfg e)); el = rep_election (cfg e) in
      if alg = ''hotstuff'' then SHotStuff (NewHotStuff e i byz pm el)
      else if alg = ''tchs'' then STchs (NewTchs e i byz pm el)
      else if alg = ''streamlet'' then SStreamlet (NewStreamlet e i pm el)
      else if alg = ''lbft'' then SLbft (NewLbft e i pm el)
      else if alg = ''fasthotstuff'' then SFhs (NewFhs e i byz pm el)
      else SHotStuff (NewHotStuff e i byz pm el))"

definition NewReplica :: "env \<Rightarrow> 'b bitset_ops \<Rightarrow> NodeID \<Rightarrow> string \<Rightarrow> bool \<Rightarrow> 'b Replica" where
  "NewReplica e B i alg byz =
     \<lparr>rpSafety = rep_safety e i alg byz, rpProducer = NewProducer B (cfg e), rpStarted = False, rpOpenPhalanx = True,
      rpEvents = [], rpViewsTaken = 0, rpCommittedTaken = 0, rpForkedTaken = 0, receivedNo = 0, roundNo = 0, voteNo = 0,
      processedNo = 0, proposedNo = 0, committedNo = 0, totalCommittedTx = 0, totalBlockSize = 0, rpPhalanx = []\<rparr>"

definition startSignal :: "'b Replica \<Rightarrow> 'b Replica" where
  "startSignal r = (if \<not> rpStarted r then r\<lparr>rpStarted := True\<rparr> else r)"

definition rep_enqueue :: "'b Replica \<Rightarrow> rep_event \<Rightarrow> 'b Replica" where
  "rep_enqueue r ev = r\<lparr>rpEvents := rpEvents r @ [ev]\<rparr>"

definition HandleBlock :: "'b Replica \<Rightarrow> Block \<Rightarrow> 'b Replica" where
  "HandleBlock r block = rep_enqueue (startSignal (r\<lparr>receivedNo := receivedNo r + 1\<rparr>)) (EvBlock block)"

definition HandleVote :: "'b Replica \<Rightarrow> Vote \<Rightarrow> 'b Replica" where
  "HandleVote r vote =
     (if vView vote < saf_cur (rpSafety r) then r else rep_enqueue (startSignal r) (EvVote vote))"

definition HandleTmo :: "'b Replica \<Rightarrow> TMO \<Rightarrow> 'b Replica" where
  "HandleTmo r tmo = (if tmoView tmo < saf_cur (rpSafety r) then r else rep_enqueue r (EvTMO tmo))"

definition HandleConsensusMessage :: "'b Replica \<Rightarrow> nat \<Rightarrow> 'b Replica" where
  "HandleConsensusMessage r m = rep_enqueue (startSignal r) (EvConsensusMessage m)"

definition HandleCommand :: "'b Replica \<Rightarrow> nat \<Rightarrow> 'b Replica" where
  "HandleCommand r c = rep_enqueue (startSignal r) (EvCommand c)"

text \<open>\<open>handleTxn\<close>: the transaction goes to Phalanx, and the leader of view 1 kicks off the protocol.\<close>

definition handleTxn :: "'b Replica \<Rightarrow> Transaction \<Rightarrow> 'b Replica go" where
  "handleTxn r m =
     (let r1 = startSignal (r\<lparr>rpPhalanx := rpPhalanx r @ [ReceiveTransaction m]\<rparr>) in
      if saf_cur (rpSafety r1) = 0
      then bindG (IsLeader (saf_elect (rpSafety r1)) (saf_ID (rpSafety r1)) 1) (\<lambda>first.
             retG (if first then r1\<lparr>rpSafety := saf_advance (rpSafety r1) 0\<rparr> else r1))
      else retG r1)"

text \<open>\<open>commit_err\<close> tells whether Phalanx answers a proposal with an error, on which the replica panics.\<close>

definition processCommittedBlock :: "(PartialOrderBatch \<Rightarrow> bool) \<Rightarrow> 'b Replica \<Rightarrow> Block \<Rightarrow> 'b Replica go" where
  "processCommittedBlock commit_err r block =
     (let r1 = r\<lparr>committedNo := committedNo r + 1, totalCommittedTx := totalCommittedTx r + int (length (bPayload block))\<rparr>
      in case bPBatch block of
           None \<Rightarrow> retG r1
         | Some p \<Rightarrow>
             if commit_err p then panicG ExplicitPanic else retG (r1\<lparr>rpPhalanx := rpPhalanx r1 @ [CommitProposal p]\<rparr>))"

definition processForkedBlock :: "'b Replica \<Rightarrow> Block \<Rightarrow> 'b Replica" where
  "processForkedBlock r block =
     (if bProposer block = saf_ID (rpSafety r)
      then r\<lparr>rpProducer := fold (\<lambda>txn pd. CollectTxn pd (Some txn)) (bPayload block) (rpProducer r)\<rparr>
      else r)"

text \<open>The block that \<open>proposeBlock\<close> makes, with the payload taken from the pool.\<close>

definition rep_make ::
  "env \<Rightarrow> (nat \<Rightarrow> PartialOrderBatch option) \<Rightarrow> 'b Replica \<Rightarrow> View \<Rightarrow> ('b Replica \<times> Block) go" where
  "rep_make e ans r view =
     (if rpOpenPhalanx r \<and> view > 1
      then bindG (saf_MakePProposal e ans (rpSafety r) view) (\<lambda>(s, block). retG (r\<lparr>rpSafety := s\<rparr>, block))
      else
        bindG (GeneratePayload (cfg e) (rpProducer r)) (\<lambda>(pd, batch).
          case those batch of
            None \<Rightarrow> panicG NilDereference
          | Some payload \<Rightarrow>
              bindG (saf_MakeProposal e (rpSafety r) view payload) (\<lambda>(s, block).
                retG (r\<lparr>rpSafety := s, rpProducer := pd\<rparr>, block))))"

definition proposeBlock ::
  "env \<Rightarrow> (nat \<Rightarrow> PartialOrderBatch option) \<Rightarrow> int \<Rightarrow> 'b Replica \<Rightarrow> View \<Rightarrow> 'b Replica go" where
  "proposeBlock e ans now r view =
     bindG (rep_make e ans r view) (\<lambda>(r1, block).
       let r2 = r1\<lparr>totalBlockSize := totalBlockSize r1 + int (length (bPayload block)), proposedNo := proposedNo r1 + 1\<rparr>;
           b = block\<lparr>bTimestamp := now\<rparr>
       in bindG (saf_handle e (saf_broadcast (rpSafety r2) (BlockMsg b)) (OnBlock b)) (\<lambda>s.
            retG (r2\<lparr>rpSafety := s\<rparr>)))"

definition processNewView ::
  "env \<Rightarrow> (nat \<Rightarrow> PartialOrderBatch option) \<Rightarrow> int \<Rightarrow> 'b Replica \<Rightarrow> View \<Rightarrow> 'b Replica go" where
  "processNewView e ans now r newView =
     bindG (FindLeaderFor (saf_elect (rpSafety r)) newView) (\<lambda>_.
     bindG (IsLeader (saf_elect (rpSafety r)) (saf_ID (rpSafety r)) newView) (\<lambda>leader.
       if \<not> leader then retG r else proposeBlock e ans now r newView))"

text \<open>One round of the event loop of \<open>Start\<close>, on the event \<open>ev\<close>.\<close>

fun rep_event_round ::
  "env \<Rightarrow> (nat \<Rightarrow> PartialOrderBatch option) \<Rightarrow> int \<Rightarrow> 'b Replica \<Rightarrow> rep_event \<Rightarrow> 'b Replica go" where
  "rep_event_round e ans now r (EvView v) = processNewView e ans now r v"
| "rep_event_round e ans now r (EvBlock b) =
     bindG (saf_handle e (rpSafety r) (OnBlock b)) (\<lambda>s. retG (r\<lparr>rpSafety := s, processedNo := processedNo r + 1\<rparr>))"
| "rep_event_round e ans now r (EvVote v) =
     bindG (saf_handle e (rpSafety r) (OnVote v)) (\<lambda>s. retG (r\<lparr>rpSafety := s, voteNo := voteNo r + 1\<rparr>))"
| "rep_event_round e ans now r (EvTMO t) =
     bindG (saf_handle e (rpSafety r) (OnRemoteTmo t)) (\<lambda>s. retG (r\<lparr>rpSafety := s\<rparr>))"
| "rep_event_round e ans now r (EvConsensusMessage m) =
     retG (r\<lparr>rpPhalanx := rpPhalanx r @ [ReceiveConsensusMessage m]\<rparr>)"
| "rep_event_round e ans now r (EvCommand c) = retG (r\<lparr>rpPhalanx := rpPhalanx r @ [ReceiveCommand c]\<rparr>)"

definition rep_Start ::
  "env \<Rightarrow> (nat \<Rightarrow> PartialOrderBatch option) \<Rightarrow> int \<Rightarrow> 'b Replica \<Rightarrow> 'b Replica go" where
  "rep_Start e ans now r =
     (case rpEvents r of
        ev # evs \<Rightarrow> if rpStarted r then rep_event_round e ans now (r\<lparr>rpEvents := evs\<rparr>) ev else retG r
      | [] \<Rightarrow> retG r)"

text \<open>\<open>ListenLocalEvent\<close>: the next view of the pacemaker becomes an event, or the timer fires.\<close>

definition rep_entering_view :: "'b Replica \<Rightarrow> 'b Replica" where
  "rep_entering_view r =
     (if rpViewsTaken r < length (newViewChan (saf_pm (rpSafety r)))
      then rep_enqueue (r\<lparr>rpViewsTaken := Suc (rpViewsTaken r), roundNo := roundNo r + 1\<rparr>)
             (EvView (newViewChan (saf_pm (rpSafety r)) ! rpViewsTaken r))
      else r)"

definition rep_timer :: "env \<Rightarrow> 'b Replica \<Rightarrow> 'b Replica go" where
  "rep_timer e r =
     bindG (saf_handle e (rpSafety r) (OnLocalTmo (saf_cur (rpSafety r)))) (\<lambda>s. retG (r\<lparr>rpSafety := s\<rparr>))"

text \<open>\<open>ListenCommittedBlocks\<close>: the next block of either channel.\<close>

definition rep_committed_block :: "(PartialOrderBatch \<Rightarrow> bool) \<Rightarrow> 'b Replica \<Rightarrow> 'b Replica go" where
  "rep_committed_block commit_err r =
     (if rpCommittedTaken r < length (saf_committed (rpSafety r))
      then processCommittedBlock commit_err (r\<lparr>rpCommittedTaken := Suc (rpCommittedTaken r)\<rparr>)
             (saf_committed (rpSafety r) ! rpCommittedTaken r)
      else retG r)"

definition rep_forked_block :: "'b Replica \<Rightarrow> 'b Replica" where
  "rep_forked_block r =
     (if rpForkedTaken r < length (saf_forked (rpSafety r))
      then processForkedBlock (r\<lparr>rpForkedTaken := Suc (rpForkedTaken r)\<rparr>) (saf_forked (rpSafety r) ! rpForkedTaken r)
      else r)"

end
