(* ===== verification/Replica_Inv.thy ===== *)
theory Replica_Inv
  imports Replica
begin

text \<open>
  Runs of a replica. The five protocols provide one contract behind the interface, proposals keep it,
  and so does every step of the replica, however its goroutines are interleaved.
\<close>

section \<open>One contract for the five protocols\<close>

text \<open>The invariant of a replica that follows its protocol.\<close>

definition saf_wf :: "SafetyS \<Rightarrow> bool" where
  "saf_wf s \<longleftrightarrow> saf_get (\<lambda>c. chained_wf c \<and> \<not> rByz c) sl_wf s \<and> 0 \<le> saf_cur s"

definition saf_keeps :: "SafetyS \<Rightarrow> SafetyS \<Rightarrow> bool" where
  "saf_keeps s s' \<longleftrightarrow> saf_ID s' = saf_ID s \<and> saf_elect s' = saf_elect s \<and> saf_cur s \<le> saf_cur s' \<and>
     saf_next s \<le> saf_next s' \<and> prefix (saf_committed s) (saf_committed s') \<and>
     prefix (saf_forked s) (saf_forked s') \<and> prefix (saf_outbox s) (saf_outbox s')"

fun ev_ok :: "nat \<Rightarrow> event \<Rightarrow> bool" where
  "ev_ok n (OnBlock b) \<longleftrightarrow> small_view (bView b) \<and> (\<forall>r. bQC b = Some r \<longrightarrow> r < n)"
| "ev_ok n (OnVote v) \<longleftrightarrow> small_view (vView v)"
| "ev_ok n (OnRemoteTmo t) \<longleftrightarrow> small_view (tmoView t) \<and> (\<forall>r. tmoHighQC t = Some r \<longrightarrow> r < n)"
| "ev_ok n (OnLocalTmo v) \<longleftrightarrow> small_view v \<and> small_view (v + 1)"

lemma ev_ok_mono: "ev_ok n ev \<Longrightarrow> n \<le> m \<Longrightarrow> ev_ok m ev"
  by (cases ev) (auto intro: less_le_trans)

lemma ev_ok_admissible:
  "ev_ok (rNextQC c) ev \<Longrightarrow> chained_admissible c ev"
  "ev_ok (sNextQC t) ev \<Longrightarrow> sl_admissible t ev"
  by (cases ev; simp add: block_ok_def sl_block_ok_def)+

lemma saf_keeps_refl [simp]: "saf_keeps s s"
  by (simp add: saf_keeps_def)

lemma saf_keeps_trans: "saf_keeps s s1 \<Longrightarrow> saf_keeps s1 s2 \<Longrightarrow> saf_keeps s s2"
  unfolding saf_keeps_def by (auto intro: order_trans prefix_order.trans)

definition saf_ok :: "SafetyS \<Rightarrow> SafetyS \<Rightarrow> bool" where
  "saf_ok s s' \<longleftrightarrow> saf_wf s' \<and> saf_keeps s s'"

lemma saf_ok_trans: "saf_ok s s1 \<Longrightarrow> saf_ok s1 s2 \<Longrightarrow> saf_ok s s2"
  by (auto simp: saf_ok_def intro: saf_keeps_trans)

lemma saf_ok_chained:
  assumes "step_ok c c'" and "0 \<le> cur c" and "\<not> rByz c"
  shows "saf_ok (SHotStuff c) (SHotStuff c')" and "saf_ok (STchs c) (STchs c')" and "saf_ok (SFhs c) (SFhs c')"
  using assms by (auto simp: saf_ok_def saf_wf_def saf_keeps_def step_ok_def extends_def)

lemma saf_ok_streamlet:
  assumes "sl_step t t'" and "0 \<le> sl_cur t"
  shows "saf_ok (SStreamlet t) (SStreamlet t')" and "saf_ok (SLbft t) (SLbft t')"
  using assms by (auto simp: saf_ok_def saf_wf_def saf_keeps_def sl_step_def sl_extends_def)

lemma go_all_wrap: "go_all P m \<Longrightarrow> (\<And>x. P x \<Longrightarrow> Q (f x)) \<Longrightarrow> go_all Q (bindG m (\<lambda>x. retG (f x)))"
  by (auto simp: go_all_def bindG_eq_Ret)

lemma saf_handle_ok:
  assumes "saf_wf s" and "ev_ok (saf_next s) ev"
  shows "go_all (saf_ok s) (saf_handle e s ev)"
proof (cases s)
  case (SHotStuff c)
  with assms have "go_all (step_ok c) (hs_handle e c ev)" by (intro hs_handle_ok) (auto simp: saf_wf_def intro: ev_ok_admissible)
  with assms SHotStuff show ?thesis by (auto simp: saf_wf_def intro!: go_all_wrap saf_ok_chained)
next
  case (STchs c)
  with assms have "go_all (step_ok c) (th_handle e c ev)" by (intro th_handle_ok) (auto simp: saf_wf_def intro: ev_ok_admissible)
  with assms STchs show ?thesis by (auto simp: saf_wf_def intro!: go_all_wrap saf_ok_chained)
next
  case (SFhs c)
  with assms have "go_all (step_ok c) (f_handle e c ev)"
    unfolding f_handle_eq by (intro th_handle_ok) (auto simp: saf_wf_def intro: ev_ok_admissible)
  with assms SFhs show ?thesis by (auto simp: saf_wf_def intro!: go_all_wrap saf_ok_chained)
next
  case (SStreamlet t)
  with assms have "go_all (sl_step t) (sl_handle e t ev)" by (intro sl_handle_ok) (auto simp: saf_wf_def intro: ev_ok_admissible)
  with assms SStreamlet show ?thesis by (auto simp: saf_wf_def intro!: go_all_wrap saf_ok_streamlet)
next
  case (SLbft t)
  with assms have "go_all (sl_step t) (lb_handle e t ev)"
    unfolding lb_handle_eq by (intro sl_handle_ok) (auto simp: saf_wf_def intro: ev_ok_admissible)
  with assms SLbft show ?thesis by (auto simp: saf_wf_def intro!: go_all_wrap saf_ok_streamlet)
qed

interpretation any_protocol: safety saf_wf "\<lambda>s. ev_ok (saf_next s)" saf_keeps "saf_handle e"
proof unfold_locales
  fix s s' s'' :: SafetyS and ev :: event
  show "saf_keeps s s" by simp
  show "saf_keeps s s' \<Longrightarrow> saf_keeps s' s'' \<Longrightarrow> saf_keeps s s''" by (rule saf_keeps_trans)
  show "saf_keeps s s' \<Longrightarrow> ev_ok (saf_next s) ev \<Longrightarrow> ev_ok (saf_next s') ev"
    using ev_ok_mono [of "saf_next s" ev "saf_next s'"] by (simp add: saf_keeps_def)
  show "saf_wf s' \<and> saf_keeps s s'" if "saf_wf s" "ev_ok (saf_next s) ev" "saf_handle e s ev = retG s'"
    using go_allD [OF saf_handle_ok [OF that(1,2)] that(3)] by (simp add: saf_ok_def)
qed

section \<open>Proposals\<close>

text \<open>What a proposal is: the protocol state stays in order, the block has the view and the proposer asked for.\<close>

definition proposal_ok :: "SafetyS \<Rightarrow> View \<Rightarrow> SafetyS \<times> Block \<Rightarrow> bool" where
  "proposal_ok s view = (\<lambda>(s', b). saf_ok s s' \<and> bView b = view \<and> bProposer b = saf_ID s \<and>
     (\<forall>r. bQC b = Some r \<longrightarrow> r < saf_next s'))"

lemma chained_wf_rewrite:
  assumes "chained_wf s" and "0 \<le> cur s"
  shows "chained_wf (s\<lparr>rQCs := (rQCs s)(r := (qc_at s r)\<lparr>qcView := i64 (cur s - 1)\<rparr>)\<rparr>)"
proof -
  have "is_i64 (cur s)" using assms(1) by (simp add: chained_wf_def)
  then have v: "small_view (i64 (cur s - 1))"
    using assms(2) by (subst i64_id) (auto simp: is_i64_def small_view_def)
  have "cur (s\<lparr>rQCs := h\<rparr>) = cur s" "block_ok (s\<lparr>rQCs := h\<rparr>) b = block_ok s b" for h b
    by (simp_all add: cur_def block_ok_def)
  with assms(1) v show ?thesis by (simp add: chained_wf_def)
qed

definition fork_ok :: "chained \<Rightarrow> chained \<times> qcref \<Rightarrow> bool" where
  "fork_ok s = (\<lambda>(s', r). chained_wf s' \<and> r < rNextQC s' \<and> (\<exists>h. s' = s\<lparr>rQCs := h\<rparr>))"

lemma fork_rewrite_ok:
  assumes "chained_wf s" and "0 \<le> cur s" and "r < rNextQC s"
  shows "fork_ok s (s\<lparr>rQCs := (rQCs s)(r := (qc_at s r)\<lparr>qcView := i64 (cur s - 1)\<rparr>)\<rparr>, r)"
  using chained_wf_rewrite [OF assms(1,2), of r] assms(3) by (auto simp: fork_ok_def)

lemma th_forkChoice_ok: "chained_wf s \<Longrightarrow> 0 \<le> cur s \<Longrightarrow> fork_ok s (th_forkChoice s)"
  by (auto simp: th_forkChoice_def th_GetHighQC_def Let_def chained_wf_def [of s] intro!: fork_rewrite_ok)

lemma hs_forkChoice_honest: "\<not> rByz s \<Longrightarrow> hs_forkChoice e s = retG (s, highQC s)"
  by (simp add: hs_forkChoice_def hs_GetHighQC_def)

lemma fork_ok_same: "chained_wf s \<Longrightarrow> fork_ok s (s, highQC s)"
  by (auto simp: fork_ok_def chained_wf_def intro: exI [of _ "rQCs s"])

lemma fork_proposal_ok:
  assumes "fork_ok c (c', r)" and "0 \<le> cur c" and "\<not> rByz c" and "bView b = view" and "bProposer b = rID c'" and "bQC b = Some r"
  shows "proposal_ok (SHotStuff c) view (SHotStuff c', b)" and "proposal_ok (STchs c) view (STchs c', b)"
    and "proposal_ok (SFhs c) view (SFhs c', b)"
  using assms by (auto simp: proposal_ok_def fork_ok_def saf_ok_def saf_wf_def saf_keeps_def cur_def)

lemma MakeBlock_proposal:
  "MakeBlock e h view (Some r) prevID payload p = retG b \<Longrightarrow> bView b = view \<and> bProposer b = p \<and> bQC b = Some r"
  "MakePBlock e h view (Some r) prevID pb p = retG b \<Longrightarrow> bView b = view \<and> bProposer b = p \<and> bQC b = Some r"
  using go_allD [OF MakeBlock_fields] go_allD [OF MakePBlock_fields] by blast+

lemma sl_proposal_ok:
  assumes "sl_wf t" and "0 \<le> sl_cur t" and "sl_alloc t (zero_qc\<lparr>qcView := 0, qcBlockID := prevID\<rparr>) = (t', r)"
    and "bView b = view" and "bProposer b = sID t'" and "bQC b = Some r"
  shows "proposal_ok (SStreamlet t) view (SStreamlet t', b)" and "proposal_ok (SLbft t) view (SLbft t', b)"
proof -
  have "small_view (qcView (zero_qc\<lparr>qcView := 0, qcBlockID := prevID\<rparr>))" by (simp add: small_view_def is_i64_def)
  note a = sl_alloc_ok [OF assms(1) this assms(3)]
  have "sID t' = sID t" using a(1) by (simp add: sl_step_def sl_extends_def)
  with a saf_ok_streamlet [OF a(1) assms(2)] assms(4-6)
  show "proposal_ok (SStreamlet t) view (SStreamlet t', b)" "proposal_ok (SLbft t) view (SLbft t', b)"
    by (simp_all add: proposal_ok_def)
qed

lemma saf_MakeProposal_ok:
  assumes "saf_wf s"
  shows "go_all (proposal_ok s view) (saf_MakeProposal e s view payload)"
proof (cases s)
  case (SHotStuff c)
  with assms fork_ok_same [of c] show ?thesis
    by (auto simp: saf_wf_def go_all_def hs_MakeProposal_def hs_forkChoice_honest elim!: bindG_RetE
        dest!: MakeBlock_proposal(1) intro!: fork_proposal_ok)
next
  case (STchs c)
  obtain c' r where f: "th_forkChoice c = (c', r)" by fastforce
  with STchs assms th_forkChoice_ok [of c] show ?thesis
    by (auto simp: saf_wf_def go_all_def th_MakeProposal_def elim!: bindG_RetE
        dest!: MakeBlock_proposal(1) intro!: fork_proposal_ok)
next
  case (SFhs c)
  obtain c' r where f: "th_forkChoice c = (c', r)" by fastforce
  with SFhs assms th_forkChoice_ok [of c] show ?thesis
    by (auto simp: saf_wf_def go_all_def f_MakeProposal_eq th_MakeProposal_def elim!: bindG_RetE
        dest!: MakeBlock_proposal(1) intro!: fork_proposal_ok)
next
  case (SStreamlet t)
  with assms show ?thesis
    by (auto simp: saf_wf_def go_all_def sl_MakeProposal_def elim!: bindG_RetE split: prod.split_asm
        dest!: MakeBlock_proposal(1) intro: sl_proposal_ok)
next
  case (SLbft t)
  with assms show ?thesis
    by (auto simp: saf_wf_def go_all_def lb_MakeProposal_eq sl_MakeProposal_def elim!: bindG_RetE split: prod.split_asm
        dest!: MakeBlock_proposal(1) intro: sl_proposal_ok)
qed

lemma saf_MakePProposal_ok:
  assumes "saf_wf s"
  shows "go_all (proposal_ok s view) (saf_MakePProposal e ans s view)"
proof (cases s)
  case (SHotStuff c)
  with assms fork_ok_same [of c] show ?thesis
    by (auto simp: saf_wf_def go_all_def hs_MakePProposal_def hs_forkChoice_honest elim!: bindG_RetE
        dest!: MakeBlock_proposal(2) intro!: fork_proposal_ok)
next
  case (STchs c)
  obtain c' r where f: "th_forkChoice c = (c', r)" by fastforce
  with STchs assms th_forkChoice_ok [of c] show ?thesis
    by (auto simp: saf_wf_def go_all_def th_MakePProposal_def elim!: bindG_RetE
        dest!: MakeBlock_proposal(2) intro!: fork_proposal_ok)
next
  case (SFhs c)
  obtain c' r where f: "th_forkChoice c = (c', r)" by fastforce
  with SFhs assms th_forkChoice_ok [of c] show ?thesis
    by (auto simp: saf_wf_def go_all_def f_MakePProposal_eq th_MakePProposal_def elim!: bindG_RetE
        dest!: MakeBlock_proposal(2) intro!: fork_proposal_ok)
next
  case (SStreamlet t)
  with assms show ?thesis
    by (auto simp: saf_wf_def go_all_def sl_MakePProposal_def elim!: bindG_RetE split: prod.split_asm
        dest!: MakeBlock_proposal(2) intro: sl_proposal_ok)
next
  case (SLbft t)
  with assms show ?thesis
    by (auto simp: saf_wf_def go_all_def lb_MakePProposal_eq sl_MakePProposal_def elim!: bindG_RetE split: prod.split_asm
        dest!: MakeBlock_proposal(2) intro: sl_proposal_ok)
qed

section \<open>Runs of a replica\<close>

fun rep_ev_ok :: "nat \<Rightarrow> rep_event \<Rightarrow> bool" where
  "rep_ev_ok n (EvView v) \<longleftrightarrow> small_view v"
| "rep_ev_ok n (EvBlock b) \<longleftrightarrow> ev_ok n (OnBlock b)"
| "rep_ev_ok n (EvVote v) \<longleftrightarrow> ev_ok n (OnVote v)"
| "rep_ev_ok n (EvTMO t) \<longleftrightarrow> ev_ok n (OnRemoteTmo t)"
| "rep_ev_ok n (EvConsensusMessage m) \<longleftrightarrow> True"
| "rep_ev_ok n (EvCommand c) \<longleftrightarrow> True"

lemma rep_ev_ok_mono: "rep_ev_ok n ev \<Longrightarrow> n \<le> m \<Longrightarrow> rep_ev_ok m ev"
  by (cases ev) (auto intro: less_le_trans)

text \<open>The batches handed to Phalanx for execution, in order.\<close>

fun committed_batch :: "phalanx_call \<Rightarrow> PartialOrderBatch option" where
  "committed_batch (CommitProposal p) = Some p"
| "committed_batch _ = None"

definition delivered :: "'b Replica \<Rightarrow> PartialOrderBatch list" where
  "delivered r = List.map_filter committed_batch (rpPhalanx r)"

lemma map_filter_append [simp]: "List.map_filter f (xs @ ys) = List.map_filter f xs @ List.map_filter f ys"
  by (simp add: List.map_filter_def)

lemma delivered_same: "rpPhalanx r' = rpPhalanx r \<Longrightarrow> delivered r' = delivered r"
  by (simp add: delivered_def)

lemma delivered_update [simp]:
  "delivered (r\<lparr>rpEvents := evs\<rparr>) = delivered r" "delivered (r\<lparr>rpSafety := s\<rparr>) = delivered r"
  "delivered (r\<lparr>rpProducer := pd\<rparr>) = delivered r" "delivered (r\<lparr>rpForkedTaken := n\<rparr>) = delivered r"
  "delivered (r\<lparr>rpForkedTaken := n, rpProducer := pd\<rparr>) = delivered r"
  by (rule delivered_same, simp)+

definition rep_wf :: "'b Replica \<Rightarrow> bool" where
  "rep_wf r \<longleftrightarrow> saf_wf (rpSafety r) \<and> list_all (rep_ev_ok (saf_next (rpSafety r))) (rpEvents r) \<and>
     rpCommittedTaken r \<le> length (saf_committed (rpSafety r)) \<and> rpForkedTaken r \<le> length (saf_forked (rpSafety r)) \<and>
     committedNo r = int (rpCommittedTaken r) \<and>
     totalCommittedTx r = (\<Sum>b \<leftarrow> take (rpCommittedTaken r) (saf_committed (rpSafety r)). int (length (bPayload b))) \<and>
     delivered r = List.map_filter bPBatch (take (rpCommittedTaken r) (saf_committed (rpSafety r))) \<and>
     TotalReceivedTxNo (rpProducer r) = 0"

definition rep_ok :: "'b Replica \<Rightarrow> 'b Replica \<Rightarrow> bool" where
  "rep_ok r r' \<longleftrightarrow> rep_wf r' \<and> saf_keeps (rpSafety r) (rpSafety r')"

lemma rep_ok_refl [simp]: "rep_wf r \<Longrightarrow> rep_ok r r"
  by (simp add: rep_ok_def)

lemma rep_ok_trans: "rep_ok r r1 \<Longrightarrow> rep_ok r1 r2 \<Longrightarrow> rep_ok r r2"
  by (auto simp: rep_ok_def intro: saf_keeps_trans)

lemma rep_ok_wf: "rep_ok r r' \<Longrightarrow> rep_wf r'"
  by (simp add: rep_ok_def)

text \<open>Changing the protocol's state, and the fields the invariant does not look at.\<close>

lemma take_prefix: "prefix xs ys \<Longrightarrow> n \<le> length xs \<Longrightarrow> take n ys = take n xs"
  by (auto simp: prefix_def)

lemma rep_safety_ok:
  assumes "rep_wf r" and "saf_ok (rpSafety r) s"
  shows "rep_ok r (r\<lparr>rpSafety := s\<rparr>)"
proof -
  have k: "saf_keeps (rpSafety r) s" "saf_wf s" using assms(2) by (simp_all add: saf_ok_def)
  then have "length (saf_committed (rpSafety r)) \<le> length (saf_committed s)"
      "length (saf_forked (rpSafety r)) \<le> length (saf_forked s)"
    by (auto simp: saf_keeps_def dest: prefix_length_le)
  moreover have "take (rpCommittedTaken r) (saf_committed s) = take (rpCommittedTaken r) (saf_committed (rpSafety r))"
    using assms(1) k by (intro take_prefix) (simp_all add: rep_wf_def saf_keeps_def)
  moreover have "list_all (rep_ev_ok (saf_next s)) (rpEvents r)"
    using assms(1) k rep_ev_ok_mono by (auto simp: rep_wf_def saf_keeps_def list_all_iff)
  ultimately show ?thesis using assms(1) k by (auto simp: rep_ok_def rep_wf_def)
qed

lemma rep_counters_ok:
  assumes "rep_wf r"
  shows "rep_ok r (r\<lparr>receivedNo := k\<rparr>)" and "committed_batch c = None \<Longrightarrow> rep_ok r (r\<lparr>rpPhalanx := rpPhalanx r @ [c]\<rparr>)" and "rep_ok r (startSignal r)"
    and "rep_ok r (r\<lparr>voteNo := k\<rparr>)" and "rep_ok r (r\<lparr>processedNo := k\<rparr>)"
    and "rep_ok r (r\<lparr>totalBlockSize := k, proposedNo := k'\<rparr>)" and "rep_ok r (r\<lparr>rpViewsTaken := n, roundNo := k\<rparr>)"
  using assms by (simp_all add: rep_ok_def rep_wf_def startSignal_def delivered_def map_filter_simps)

lemma rep_enqueue_ok: "rep_wf r \<Longrightarrow> rep_ev_ok (saf_next (rpSafety r)) ev \<Longrightarrow> rep_ok r (rep_enqueue r ev)"
  by (simp add: rep_ok_def rep_wf_def rep_enqueue_def)

lemma rep_dequeue_ok: "rep_wf r \<Longrightarrow> rpEvents r = ev # evs \<Longrightarrow> rep_ok r (r\<lparr>rpEvents := evs\<rparr>)"
  by (simp add: rep_ok_def rep_wf_def)

lemma rep_pool_ok: "rep_wf r \<Longrightarrow> TotalReceivedTxNo pd = 0 \<Longrightarrow> rep_ok r (r\<lparr>rpProducer := pd\<rparr>)"
  by (simp add: rep_ok_def rep_wf_def)

lemma rep_handle_ok:
  assumes "rep_wf r" and "ev_ok (saf_next (rpSafety r)) ev" and "saf_handle e (rpSafety r) ev = retG s"
  shows "rep_ok r (r\<lparr>rpSafety := s\<rparr>)"
  using rep_safety_ok [OF assms(1) go_allD [OF saf_handle_ok [OF _ assms(2)] assms(3)]] assms(1) by (simp add: rep_wf_def)

lemma rep_handle_counted_ok:
  assumes "rep_wf r" and "ev_ok (saf_next (rpSafety r)) ev" and "saf_handle e (rpSafety r) ev = retG s"
  shows "rep_ok r (r\<lparr>rpSafety := s, voteNo := k\<rparr>)" and "rep_ok r (r\<lparr>rpSafety := s, processedNo := k\<rparr>)"
  using rep_handle_ok [OF assms] rep_counters_ok(4,5) [OF rep_ok_wf [OF rep_handle_ok [OF assms]]] rep_ok_trans by blast+

lemma saf_broadcast_ok: "saf_wf s \<Longrightarrow> saf_ok s (saf_broadcast s m)"
  by (cases s) (auto simp: saf_broadcast_def saf_wf_def intro!: saf_ok_chained saf_ok_streamlet send_ok sl_broadcast_ok)

lemma saf_advance_ok: "saf_wf s \<Longrightarrow> small_view v \<Longrightarrow> saf_ok s (saf_advance s v)"
  by (cases s) (auto simp: saf_advance_def saf_wf_def intro!: saf_ok_chained saf_ok_streamlet advance_ok sl_advance_ok)

lemma pool_take_received: "pool_take n b acc = (b', ys) \<Longrightarrow> totalReceived b' = totalReceived b"
proof (induction n arbitrary: b acc)
  case (Suc n)
  then show ?case by (auto simp: pool_front_def split: list.split_asm)
qed simp

lemma rep_make_ok:
  assumes "rep_wf r" and "small_view view" and "rep_make e ans r view = retG (r', b)"
  shows "rep_ok r r' \<and> bView b = view \<and> bProposer b = saf_ID (rpSafety r) \<and> ev_ok (saf_next (rpSafety r')) (OnBlock b)"
proof (cases "rpOpenPhalanx r \<and> view > 1")
  case True
  have wf: "saf_wf (rpSafety r)" using assms(1) by (simp add: rep_wf_def)
  from True assms(3) obtain s where s: "saf_MakePProposal e ans (rpSafety r) view = retG (s, b)" "r' = r\<lparr>rpSafety := s\<rparr>"
    by (auto simp: rep_make_def elim!: bindG_RetE)
  from go_allD [OF saf_MakePProposal_ok [OF wf] s(1)] rep_safety_ok [OF assms(1), of s] s(2) assms(2) show ?thesis
    by (auto simp: proposal_ok_def)
next
  case False
  have wf: "saf_wf (rpSafety r)" using assms(1) by (simp add: rep_wf_def)
  from False assms(3) obtain pd batch payload s where
      pd: "GeneratePayload (cfg e) (rpProducer r) = retG (pd, batch)"
      and s: "saf_MakeProposal e (rpSafety r) view payload = retG (s, b)" "r' = r\<lparr>rpSafety := s, rpProducer := pd\<rparr>"
    by (auto simp: rep_make_def elim!: bindG_RetE split: option.split_asm)
  have "TotalReceivedTxNo pd = 0"
    using pd assms(1) by (auto simp: GeneratePayload_def pool_some_def TotalReceivedTxNo_def rep_wf_def Let_def
        split: if_split_asm dest!: pool_take_received)
  moreover from go_allD [OF saf_MakeProposal_ok [OF wf] s(1)] have "proposal_ok (rpSafety r) view (s, b)" .
  moreover from this have "rep_ok r (r\<lparr>rpSafety := s\<rparr>)" using rep_safety_ok [OF assms(1), of s] by (simp add: proposal_ok_def)
  ultimately show ?thesis
    using s(2) assms(2) rep_pool_ok [OF rep_ok_wf, of r "r\<lparr>rpSafety := s\<rparr>" pd] rep_ok_trans [of r "r\<lparr>rpSafety := s\<rparr>"]
    by (auto simp: proposal_ok_def)
qed

lemma OnBlock_timestamp [simp]: "ev_ok n (OnBlock (b\<lparr>bTimestamp := t\<rparr>)) = ev_ok n (OnBlock b)"
  by simp

lemma proposeBlock_ok:
  assumes "rep_wf r" and "small_view view" and "proposeBlock e ans now r view = retG r'"
  shows "rep_ok r r'"
proof -
  from assms(3) obtain r1 block s where r1: "rep_make e ans r view = retG (r1, block)"
    and s: "saf_handle e (saf_broadcast (rpSafety r1) (BlockMsg (block\<lparr>bTimestamp := now\<rparr>))) (OnBlock (block\<lparr>bTimestamp := now\<rparr>)) = retG s"
    and r': "r' = r1\<lparr>totalBlockSize := totalBlockSize r1 + int (length (bPayload block)), proposedNo := proposedNo r1 + 1\<rparr>\<lparr>rpSafety := s\<rparr>"
    by (auto simp: proposeBlock_def Let_def elim!: bindG_RetE)
  let ?s = "saf_broadcast (rpSafety r1) (BlockMsg (block\<lparr>bTimestamp := now\<rparr>))"
  have b: "ev_ok (saf_next (rpSafety r1)) (OnBlock block)" and ok: "rep_ok r r1"
    using rep_make_ok [OF assms(1,2) r1] by blast+
  have wf: "rep_wf r1" using ok by (rule rep_ok_wf)
  then have bc: "saf_ok (rpSafety r1) ?s" by (intro saf_broadcast_ok) (simp add: rep_wf_def)
  then have "ev_ok (saf_next ?s) (OnBlock (block\<lparr>bTimestamp := now\<rparr>))"
    unfolding OnBlock_timestamp using b by (intro ev_ok_mono [OF b]) (simp add: saf_ok_def saf_keeps_def)
  then have "saf_ok ?s s" using go_allD [OF saf_handle_ok s] bc by (simp add: saf_ok_def)
  then have "saf_ok (rpSafety r1) s" using bc by (blast intro: saf_ok_trans)
  then have "saf_ok (rpSafety (r1\<lparr>totalBlockSize := k, proposedNo := k'\<rparr>)) s" for k k' by simp
  then have "rep_ok r1 r'" unfolding r'
    by (rule rep_ok_trans [OF rep_counters_ok(6) [OF wf] rep_safety_ok [OF rep_ok_wf [OF rep_counters_ok(6) [OF wf]]]])
  with ok show ?thesis by (rule rep_ok_trans)
qed

lemma rep_event_round_ok:
  assumes "rep_wf r" and "rep_ev_ok (saf_next (rpSafety r)) ev" and "rep_event_round e ans now r ev = retG r'"
  shows "rep_ok r r'"
proof (cases ev)
  case (EvView v)
  with assms show ?thesis
    by (auto simp: processNewView_def elim!: bindG_RetE intro: proposeBlock_ok split: if_split_asm)
next
  case (EvBlock b)
  with assms show ?thesis by (auto simp del: ev_ok.simps elim!: bindG_RetE intro: rep_handle_counted_ok)
next
  case (EvVote v)
  with assms show ?thesis by (auto simp del: ev_ok.simps elim!: bindG_RetE intro: rep_handle_counted_ok)
next
  case (EvTMO t)
  with assms show ?thesis by (auto simp del: ev_ok.simps elim!: bindG_RetE intro: rep_handle_ok)
qed (use assms in \<open>auto intro: rep_counters_ok\<close>)

lemma rep_Start_ok:
  assumes "rep_wf r" and "rep_Start e ans now r = retG r'"
  shows "rep_ok r r'"
proof (cases "rpEvents r")
  case (Cons ev evs)
  show ?thesis
  proof (cases "rpStarted r")
    case True
    have d: "rep_ok r (r\<lparr>rpEvents := evs\<rparr>)" by (rule rep_dequeue_ok [OF assms(1) Cons])
    moreover have "rep_ev_ok (saf_next (rpSafety r)) ev" using assms(1) Cons by (simp add: rep_wf_def)
    ultimately show ?thesis
      using rep_event_round_ok [OF rep_ok_wf [OF d], of ev e ans now r'] assms(2) Cons True
      by (auto simp: rep_Start_def intro: rep_ok_trans)
  qed (use assms Cons in \<open>simp add: rep_Start_def\<close>)
qed (use assms in \<open>simp add: rep_Start_def\<close>)

lemma handleTxn_ok:
  assumes "rep_wf r" and "handleTxn r m = retG r'"
  shows "rep_ok r r'"
proof -
  let ?r1 = "startSignal (r\<lparr>rpPhalanx := rpPhalanx r @ [ReceiveTransaction m]\<rparr>)"
  have r1: "rep_ok r ?r1" by (rule rep_ok_trans [OF rep_counters_ok(2) rep_counters_ok(3) [OF rep_ok_wf [OF rep_counters_ok(2)]]])
      (simp_all add: assms(1))
  moreover from rep_ok_wf [OF r1] have "saf_wf (rpSafety ?r1)" by (simp add: rep_wf_def)
  ultimately have "rep_ok ?r1 (?r1\<lparr>rpSafety := saf_advance (rpSafety ?r1) 0\<rparr>)"
    by (intro rep_safety_ok rep_ok_wf [OF r1] saf_advance_ok) (simp_all add: small_view_def is_i64_def)
  with r1 assms(2) show ?thesis
    by (auto simp: handleTxn_def Let_def elim!: bindG_RetE split: if_split_asm intro: rep_ok_trans)
qed

lemma rep_committed_ok:
  assumes "rep_wf r" and "rep_committed_block commit_err r = retG r'"
  shows "rep_ok r r'"
  using assms
  by (auto simp: rep_committed_block_def processCommittedBlock_def rep_ok_def rep_wf_def Let_def take_Suc_conv_app_nth
      delivered_def map_filter_simps split: if_split_asm option.split_asm)

lemma CollectTxn_received: "TotalReceivedTxNo (fold (\<lambda>txn pd. CollectTxn pd (Some txn)) txs pd) = TotalReceivedTxNo pd"
  by (induction txs arbitrary: pd) (simp_all add: CollectTxn_def addOld_def insertFront_def TotalReceivedTxNo_def)

lemma rep_forked_ok: "rep_wf r \<Longrightarrow> rep_ok r (rep_forked_block r)"
  by (auto simp: rep_forked_block_def processForkedBlock_def rep_ok_def rep_wf_def CollectTxn_received)

text \<open>
  What can happen to a replica: a message arrives (its certificate, decoded from the network, is a
  new object), the event loop takes an event, a view is entered, the timer fires, a committed or a
  forked block is taken, a goroutine of Streamlet runs. Views stay below the largest 64-bit number.
\<close>

definition rep_decode :: "'b Replica \<Rightarrow> QC \<Rightarrow> 'b Replica" where
  "rep_decode r qc = r\<lparr>rpSafety := saf_on (\<lambda>c. fst (alloc_qc c qc)) (\<lambda>c. fst (sl_alloc c qc)) (rpSafety r)\<rparr>"

inductive rep_step :: "env \<Rightarrow> (nat \<Rightarrow> PartialOrderBatch option) \<Rightarrow> (PartialOrderBatch \<Rightarrow> bool) \<Rightarrow> 'b Replica \<Rightarrow> 'b Replica \<Rightarrow> bool"
  for e ans commit_err where
  step_decode: "small_view (qcView qc) \<Longrightarrow> rep_step e ans commit_err r (rep_decode r qc)"
| step_block: "ev_ok (saf_next (rpSafety r)) (OnBlock b) \<Longrightarrow> rep_step e ans commit_err r (HandleBlock r b)"
| step_vote: "small_view (vView v) \<Longrightarrow> rep_step e ans commit_err r (HandleVote r v)"
| step_tmo: "ev_ok (saf_next (rpSafety r)) (OnRemoteTmo t) \<Longrightarrow> rep_step e ans commit_err r (HandleTmo r t)"
| step_message: "rep_step e ans commit_err r (HandleConsensusMessage r m)"
| step_command: "rep_step e ans commit_err r (HandleCommand r c)"
| step_txn: "handleTxn r m = retG r' \<Longrightarrow> rep_step e ans commit_err r r'"
| step_loop: "rep_Start e ans now r = retG r' \<Longrightarrow> rep_step e ans commit_err r r'"
| step_view: "list_all small_view (newViewChan (saf_pm (rpSafety r))) \<Longrightarrow> rep_step e ans commit_err r (rep_entering_view r)"
| step_timer: "small_view (saf_cur (rpSafety r) + 1) \<Longrightarrow> rep_timer e r = retG r' \<Longrightarrow> rep_step e ans commit_err r r'"
| step_committed: "rep_committed_block commit_err r = retG r' \<Longrightarrow> rep_step e ans commit_err r r'"
| step_forked: "rep_step e ans commit_err r (rep_forked_block r)"
| step_spawned: "rep_step e ans commit_err r (r\<lparr>rpSafety := saf_on (\<lambda>c. c) (\<lambda>c. sl_run_spawned c k) (rpSafety r)\<rparr>)"

inductive rep_reach :: "env \<Rightarrow> (nat \<Rightarrow> PartialOrderBatch option) \<Rightarrow> (PartialOrderBatch \<Rightarrow> bool) \<Rightarrow> 'b Replica \<Rightarrow> 'b Replica \<Rightarrow> bool"
  for e ans commit_err r where
  rep_start: "rep_reach e ans commit_err r r"
| rep_next: "rep_reach e ans commit_err r r1 \<Longrightarrow> rep_step e ans commit_err r1 r2 \<Longrightarrow> rep_reach e ans commit_err r r2"

lemma rep_decode_ok:
  assumes "rep_wf r" and "small_view (qcView qc)"
  shows "rep_ok r (rep_decode r qc)"
proof -
  have "saf_wf (rpSafety r)" using assms(1) by (simp add: rep_wf_def)
  then have "saf_ok (rpSafety r) (saf_on (\<lambda>c. fst (alloc_qc c qc)) (\<lambda>c. fst (sl_alloc c qc)) (rpSafety r))"
    using assms(2) by (cases "rpSafety r")
      (auto simp: saf_wf_def alloc_qc_def sl_alloc_def intro!: saf_ok_chained saf_ok_streamlet alloc_ok(1) sl_alloc_ok(1))
  with assms(1) show ?thesis unfolding rep_decode_def by (rule rep_safety_ok)
qed

lemma start_enqueue_ok:
  assumes "rep_wf r" and "rep_ev_ok (saf_next (rpSafety r)) ev"
  shows "rep_ok r (rep_enqueue (startSignal r) ev)"
proof -
  have "rep_ok (startSignal r) (rep_enqueue (startSignal r) ev)"
    by (rule rep_enqueue_ok [OF rep_ok_wf [OF rep_counters_ok(3) [OF assms(1)]]]) (use assms(2) in \<open>simp add: startSignal_def\<close>)
  with rep_counters_ok(3) [OF assms(1)] show ?thesis by (rule rep_ok_trans)
qed

lemma HandleBlock_ok:
  assumes "rep_wf r" and "ev_ok (saf_next (rpSafety r)) (OnBlock b)"
  shows "rep_ok r (HandleBlock r b)"
  unfolding HandleBlock_def
  using rep_ok_trans [OF rep_counters_ok(1) [OF assms(1)] start_enqueue_ok [OF rep_ok_wf [OF rep_counters_ok(1) [OF assms(1)]]]] assms(2)
  by simp

lemma rep_entering_view_ok:
  assumes "rep_wf r" and "list_all small_view (newViewChan (saf_pm (rpSafety r)))"
  shows "rep_ok r (rep_entering_view r)"
  unfolding rep_entering_view_def
  using rep_ok_trans [OF rep_counters_ok(7) [OF assms(1)] rep_enqueue_ok [OF rep_ok_wf [OF rep_counters_ok(7) [OF assms(1)]]]] assms
  by (simp add: list_all_length)

lemma rep_step_ok: "rep_step e ans commit_err r r' \<Longrightarrow> rep_wf r \<Longrightarrow> rep_ok r r'"
proof (induction rule: rep_step.induct)
  case (step_block r b)
  then show ?case by (intro HandleBlock_ok)
next
  case (step_vote v r)
  then show ?case by (simp add: HandleVote_def start_enqueue_ok)
next
  case (step_tmo r t)
  then show ?case by (simp add: HandleTmo_def rep_enqueue_ok)
next
  case (step_message r m)
  then show ?case by (simp add: HandleConsensusMessage_def start_enqueue_ok)
next
  case (step_command r c)
  then show ?case by (simp add: HandleCommand_def start_enqueue_ok)
next
  case (step_view r)
  then show ?case by (intro rep_entering_view_ok)
next
  case (step_timer r r')
  moreover from this have "small_view (saf_cur (rpSafety r))"
    by (auto simp: rep_wf_def saf_wf_def small_view_def is_i64_def)
  ultimately show ?case unfolding rep_timer_def by (auto elim!: bindG_RetE intro!: rep_handle_ok)
next
  case (step_spawned r k)
  moreover from this have "saf_wf (rpSafety r)" by (simp add: rep_wf_def)
  ultimately show ?case
    by (intro rep_safety_ok; cases "rpSafety r")
      (auto simp: saf_wf_def intro!: saf_ok_chained saf_ok_streamlet sl_run_spawned_ok)
qed (simp_all add: rep_decode_ok handleTxn_ok rep_Start_ok rep_committed_ok rep_forked_ok)

lemma rep_reach_ok: "rep_reach e ans commit_err r r' \<Longrightarrow> rep_wf r \<Longrightarrow> rep_ok r r'"
proof (induction rule: rep_reach.induct)
  case (rep_next r1 r2)
  then show ?case by (blast intro: rep_ok_trans rep_step_ok rep_ok_wf)
qed simp

text \<open>A new replica that follows its protocol, with any of the five.\<close>

lemma NewHotStuff_saf_wf: "saf_wf (SHotStuff (NewHotStuff e i False (NewPacemaker n) el))"
  by (simp add: saf_wf_def NewHotStuff_wf) (simp add: NewHotStuff_def cur_def GetCurView_def NewPacemaker_def)

lemma NewTchs_saf_wf:
  "saf_wf (STchs (NewTchs e i False (NewPacemaker n) el))" "saf_wf (SFhs (NewFhs e i False (NewPacemaker n) el))"
  by (simp_all add: saf_wf_def NewFhs_eq NewTchs_wf) (simp_all add: NewTchs_def cur_def GetCurView_def NewPacemaker_def)

lemma NewStreamlet_saf_wf:
  "saf_wf (SStreamlet (NewStreamlet e i (NewPacemaker n) el))" "saf_wf (SLbft (NewLbft e i (NewPacemaker n) el))"
  by (simp_all add: saf_wf_def NewLbft_eq NewStreamlet_wf)
    (simp_all add: NewStreamlet_def sl_advance_def AdvanceView_def sl_cur_def GetCurView_def NewPacemaker_def i64_def)

lemma rep_safety_wf: "saf_wf (rep_safety e i alg False)"
  by (simp add: rep_safety_def Let_def NewHotStuff_saf_wf NewTchs_saf_wf NewStreamlet_saf_wf)

lemma NewReplica_wf: "rep_wf (NewReplica e B i alg False)"
  by (simp add: rep_wf_def NewReplica_def rep_safety_wf NewProducer_def NewMemPool_def NewBackend_def TotalReceivedTxNo_def
      delivered_def map_filter_simps)

end
