(* ===== verification/Replica_Props.thy ===== *)
theory Replica_Props
  imports Replica_Inv Samples
begin

text \<open>
  Properties of the replica: what holds in every state it can reach, who proposes, what becomes of
  the transactions of a forked block, and how the protocol is started.
\<close>

text \<open>
  C21: a replica that follows its protocol, whichever of the five it runs, has in every state it
  can reach counted exactly the committed blocks it has taken from the protocol, and their
  transactions, and handed their batches to Phalanx in the order of the commits, each once. Its
  transaction pool is never given a transaction, so the number of transactions received that the
  statistics divide by stays 0.
\<close>
theorem replica_delivers_commits:
  assumes "rep_reach e ans commit_err (NewReplica e B i alg False) r"
  shows "\<exists>bs. prefix bs (saf_committed (rpSafety r)) \<and> committedNo r = int (length bs) \<and>
     totalCommittedTx r = (\<Sum>b \<leftarrow> bs. int (length (bPayload b))) \<and>
     delivered r = List.map_filter bPBatch bs \<and> TotalReceivedTxNo (rpProducer r) = 0"
proof -
  have "rep_wf r" using rep_reach_ok [OF assms NewReplica_wf] by (rule rep_ok_wf)
  then show ?thesis
    by (intro exI [of _ "take (rpCommittedTaken r) (saf_committed (rpSafety r))"]) (auto simp: rep_wf_def take_is_prefix)
qed

text \<open>A replica that has been given a transaction and has entered view 1.\<close>

definition sample_replica :: "64 word set Replica" where
  "sample_replica = NewReplica (sample_env 4 True) sample_bits ''4'' ''hotstuff'' False"

theorem replica_delivers_commits_witness:
  "\<exists>r. rep_reach (sample_env 4 True) (\<lambda>_. None) (\<lambda>_. False) sample_replica r \<and> rpStarted r \<and>
     (\<exists>bs. prefix bs (saf_committed (rpSafety r)) \<and> committedNo r = int (length bs) \<and>
     totalCommittedTx r = (\<Sum>b \<leftarrow> bs. int (length (bPayload b))) \<and>
     delivered r = List.map_filter bPBatch bs \<and> TotalReceivedTxNo (rpProducer r) = 0)"
proof -
  let ?r = "HandleCommand sample_replica 7"
  have "rep_reach (sample_env 4 True) (\<lambda>_. None) (\<lambda>_. False) sample_replica ?r"
    by (rule rep_next [OF rep_start step_command])
  moreover have "rpStarted ?r" by (simp add: HandleCommand_def rep_enqueue_def startSignal_def)
  ultimately show ?thesis using replica_delivers_commits unfolding sample_replica_def by blast
qed

text \<open>
  Along a run of a replica, in any interleaving of its goroutines and of the messages it is
  handed, the view never goes back, and nothing that has been committed, forked or sent is
  withdrawn.
\<close>
theorem replica_run_monotone:
  assumes "rep_wf r" and "rep_reach e ans commit_err r r'"
  shows "saf_cur (rpSafety r) \<le> saf_cur (rpSafety r') \<and>
     prefix (saf_committed (rpSafety r)) (saf_committed (rpSafety r')) \<and>
     prefix (saf_forked (rpSafety r)) (saf_forked (rpSafety r')) \<and>
     prefix (saf_outbox (rpSafety r)) (saf_outbox (rpSafety r'))"
  using rep_reach_ok [OF assms(2,1)] by (simp add: rep_ok_def saf_keeps_def)

theorem replica_run_monotone_witness:
  "saf_cur (rpSafety sample_replica) \<le> saf_cur (rpSafety (HandleCommand sample_replica 7)) \<and>
   prefix (saf_committed (rpSafety sample_replica)) (saf_committed (rpSafety (HandleCommand sample_replica 7)))"
proof -
  have "rep_wf sample_replica" unfolding sample_replica_def by (rule NewReplica_wf)
  moreover have "rep_reach (sample_env 4 True) (\<lambda>_. None) (\<lambda>_. False) sample_replica (HandleCommand sample_replica 7)"
    by (rule rep_next [OF rep_start step_command])
  ultimately show ?thesis using replica_run_monotone by blast
qed

section \<open>A replicated log\<close>

text \<open>
  The abstract specification of a replica: a view, a log of blocks that only grows, and the batches of
  the first \<open>lgDone\<close> blocks of the log, which have been delivered in order.
\<close>

record log_machine =
  lgView :: View
  lgLog :: "Block list"
  lgDone :: nat
  lgBatches :: "PartialOrderBatch list"

inductive log_step :: "log_machine \<Rightarrow> log_machine \<Rightarrow> bool" where
  log_grow: "lgView m \<le> v \<Longrightarrow> prefix (lgLog m) bs \<Longrightarrow> log_step m (m\<lparr>lgView := v, lgLog := bs\<rparr>)"
| log_deliver: "lgDone m < length (lgLog m) \<Longrightarrow>
    log_step m (m\<lparr>lgDone := Suc (lgDone m), lgBatches := lgBatches m @ List.map_filter bPBatch [lgLog m ! lgDone m]\<rparr>)"

definition rep_log :: "'b Replica \<Rightarrow> log_machine" where
  "rep_log r = \<lparr>lgView = saf_cur (rpSafety r), lgLog = saf_committed (rpSafety r), lgDone = rpCommittedTaken r, lgBatches = delivered r\<rparr>"

lemma rep_make_taken: "rep_make e ans r view = retG (r', b) \<Longrightarrow> rpCommittedTaken r' = rpCommittedTaken r"
  by (auto simp: rep_make_def elim!: bindG_RetE split: if_split_asm option.split_asm)

lemma proposeBlock_taken: "proposeBlock e ans now r view = retG r' \<Longrightarrow> rpCommittedTaken r' = rpCommittedTaken r"
  unfolding proposeBlock_def Let_def by (elim bindG_RetE) (clarsimp elim!: bindG_RetE simp: rep_make_taken [of e ans r view])

lemma rep_event_round_taken: "rep_event_round e ans now r ev = retG r' \<Longrightarrow> rpCommittedTaken r' = rpCommittedTaken r"
  by (cases ev) (auto simp: processNewView_def elim!: bindG_RetE split: if_split_asm intro: proposeBlock_taken)

lemma rep_Start_taken: "rep_Start e ans now r = retG r' \<Longrightarrow> rpCommittedTaken r' = rpCommittedTaken r"
  by (auto simp: rep_Start_def split: list.split_asm if_split_asm dest: rep_event_round_taken)

lemma rep_step_taken:
  "rep_step e ans commit_err r r' \<Longrightarrow> rpCommittedTaken r' = rpCommittedTaken r \<or>
     (rpCommittedTaken r < length (saf_committed (rpSafety r)) \<and> rpCommittedTaken r' = Suc (rpCommittedTaken r) \<and> rpSafety r' = rpSafety r)"
proof (induction rule: rep_step.induct)
  case (step_committed r r')
  then show ?case
    by (auto simp: rep_committed_block_def processCommittedBlock_def Let_def split: if_split_asm option.split_asm)
next
  case (step_txn r m r')
  then show ?case by (auto simp: handleTxn_def startSignal_def Let_def elim!: bindG_RetE split: if_split_asm)
qed (auto simp: rep_decode_def HandleBlock_def HandleVote_def HandleTmo_def HandleConsensusMessage_def HandleCommand_def
    rep_enqueue_def startSignal_def rep_entering_view_def rep_timer_def rep_forked_block_def processForkedBlock_def
    dest: rep_Start_taken elim!: bindG_RetE)

text \<open>
  C5: a replica implements a replicated log: every step of it, whichever goroutine takes it and whichever
  protocol it runs, either lets the view and the log grow, or delivers the batch of the next block of
  the log.
\<close>
theorem replica_refines_log:
  assumes "rep_wf r" and "rep_step e ans commit_err r r'"
  shows "log_step (rep_log r) (rep_log r')"
proof -
  have ok: "rep_wf r'" "saf_keeps (rpSafety r) (rpSafety r')" using rep_step_ok [OF assms(2,1)] by (simp_all add: rep_ok_def)
  have d: "delivered r = List.map_filter bPBatch (take (rpCommittedTaken r) (saf_committed (rpSafety r)))"
    "delivered r' = List.map_filter bPBatch (take (rpCommittedTaken r') (saf_committed (rpSafety r')))"
    using assms(1) ok(1) by (simp_all add: rep_wf_def)
  show ?thesis
  proof (cases "rpCommittedTaken r' = rpCommittedTaken r")
    case True
    have "take (rpCommittedTaken r) (saf_committed (rpSafety r')) = take (rpCommittedTaken r) (saf_committed (rpSafety r))"
      using ok(2) assms(1) by (intro take_prefix) (simp_all add: saf_keeps_def rep_wf_def)
    with True d have "rep_log r' = (rep_log r)\<lparr>lgView := saf_cur (rpSafety r'), lgLog := saf_committed (rpSafety r')\<rparr>"
      by (simp add: rep_log_def)
    then show ?thesis by (simp only:) (rule log_grow, use ok(2) in \<open>simp_all add: rep_log_def saf_keeps_def\<close>)
  next
    case False
    with rep_step_taken [OF assms(2)] have t: "rpCommittedTaken r < length (saf_committed (rpSafety r))"
      "rpCommittedTaken r' = Suc (rpCommittedTaken r)" "rpSafety r' = rpSafety r" by auto
    with d have "rep_log r' = (rep_log r)\<lparr>lgDone := Suc (lgDone (rep_log r)),
        lgBatches := lgBatches (rep_log r) @ List.map_filter bPBatch [lgLog (rep_log r) ! lgDone (rep_log r)]\<rparr>"
      by (simp add: rep_log_def take_Suc_conv_app_nth)
    then show ?thesis by (simp only:) (rule log_deliver, use t in \<open>simp add: rep_log_def\<close>)
  qed
qed

theorem replica_refines_log_witness:
  "log_step (rep_log sample_replica) (rep_log (HandleCommand sample_replica 7))"
  by (rule replica_refines_log [OF _ step_command [of "sample_env 4 True" "\<lambda>_. None" "\<lambda>_. False"]])
    (simp add: sample_replica_def NewReplica_wf)

section \<open>The protocols behind one interface\<close>

text \<open>
  C25: each of the five protocols keeps its state well-formed on every event that a message, the timer or
  a proposal can bring, as long as the views stay below the largest integer and the certificates an event
  names have been received: the block tree, the buffers and the certificates fit together, and the view
  and what is committed, forked and sent only grow.
\<close>
theorem protocols_stay_well_formed:
  assumes "saf_wf s" and "ev_ok (saf_next s) ev" and "saf_handle e s ev = retG s'"
  shows "saf_wf s' \<and> saf_keeps s s'"
  using any_protocol.handle_ok [OF assms] .

theorem protocols_stay_well_formed_witness:
  "\<exists>s'. saf_handle (sample_env 4 True) (SHotStuff (links_state ''2'')) (OnBlock ((link 3)\<lparr>bView := 5, bProposer := ''1''\<rparr>)) = retG s' \<and>
     saf_wf s' \<and> saf_committed s' = []"
proof -
  let ?s = "SHotStuff (links_state ''2'')"
  obtain s' where s': "saf_handle (sample_env 4 True) ?s (OnBlock ((link 3)\<lparr>bView := 5, bProposer := ''1''\<rparr>)) = retG s'"
      "saf_committed s' = []"
    by (subst (asm) saf_handle.simps, subst (asm) hs_handle.simps, subst (asm) hs_ProcessBlock.simps) (simp add: hs_process_one_def)
  have "saf_wf ?s" using links_state_wf by (simp add: saf_wf_def)
  moreover have "ev_ok (saf_next ?s) (OnBlock ((link 3)\<lparr>bView := 5, bProposer := ''1''\<rparr>))"
    by (simp add: small_view_def is_i64_def)
  ultimately show ?thesis using protocols_stay_well_formed [OF _ _ s'(1)] s' by blast
qed

section \<open>Proposals\<close>

lemma saf_broadcast_outbox [simp]: "saf_outbox (saf_broadcast s m) = saf_outbox s @ [Broadcast m]"
  by (cases s) (simp_all add: saf_broadcast_def send_def sl_broadcast_def)

lemma saf_broadcast_next [simp]: "saf_next (saf_broadcast s m) = saf_next s"
  by (cases s) (simp_all add: saf_broadcast_def send_def sl_broadcast_def)

lemma prefix_snocD: "prefix (xs @ [x]) ys \<Longrightarrow> prefix zs xs \<Longrightarrow> x \<in> set (drop (length zs) ys)"
  by (auto simp: prefix_def)

lemma proposeBlock_sends:
  assumes "rep_wf r" and "small_view view" and "proposeBlock e ans now r view = retG r'"
  shows "\<exists>b. bView b = view \<and> bProposer b = saf_ID (rpSafety r) \<and> bTimestamp b = now \<and>
    Broadcast (BlockMsg b) \<in> set (drop (length (saf_outbox (rpSafety r))) (saf_outbox (rpSafety r'))) \<and>
    proposedNo r' = proposedNo r + 1"
proof -
  from assms(3) obtain r1 block s where r1: "rep_make e ans r view = retG (r1, block)"
    and s: "saf_handle e (saf_broadcast (rpSafety r1) (BlockMsg (block\<lparr>bTimestamp := now\<rparr>))) (OnBlock (block\<lparr>bTimestamp := now\<rparr>)) = retG s"
    and r': "rpSafety r' = s" "proposedNo r' = proposedNo r1 + 1"
    by (auto simp: proposeBlock_def Let_def elim!: bindG_RetE)
  note make = rep_make_ok [OF assms(1,2) r1]
  let ?b = "block\<lparr>bTimestamp := now\<rparr>"
  let ?s = "saf_broadcast (rpSafety r1) (BlockMsg ?b)"
  have "saf_ok (rpSafety r1) ?s" using make by (intro saf_broadcast_ok) (simp add: rep_ok_def rep_wf_def)
  then have "saf_ok ?s s" using make assms(2) go_allD [OF saf_handle_ok s] by (simp add: saf_ok_def)
  then have "prefix (saf_outbox (rpSafety r1) @ [Broadcast (BlockMsg ?b)]) (saf_outbox s)"
    by (simp add: saf_ok_def saf_keeps_def)
  moreover have "prefix (saf_outbox (rpSafety r)) (saf_outbox (rpSafety r1))"
    using make by (simp add: rep_ok_def saf_keeps_def)
  moreover have "proposedNo r1 = proposedNo r"
    using r1 by (auto simp: rep_make_def elim!: bindG_RetE split: if_split_asm option.split_asm)
  ultimately show ?thesis using make r' by (intro exI [of _ ?b]) (auto dest: prefix_snocD)
qed

text \<open>
  Entering a view, a replica does nothing unless it is the leader of that view; the leader
  makes exactly one proposal, counts it, and broadcasts a block of that view with itself as the
  proposer, whichever protocol it runs.
\<close>
theorem new_view_proposal:
  assumes "rep_wf r" and "small_view view" and "processNewView e ans now r view = retG r'"
  shows "(IsLeader (saf_elect (rpSafety r)) (saf_ID (rpSafety r)) view = retG False \<and> r' = r) \<or>
    (IsLeader (saf_elect (rpSafety r)) (saf_ID (rpSafety r)) view = retG True \<and> proposedNo r' = proposedNo r + 1 \<and>
     (\<exists>b. bView b = view \<and> bProposer b = saf_ID (rpSafety r) \<and> bTimestamp b = now \<and>
        Broadcast (BlockMsg b) \<in> set (drop (length (saf_outbox (rpSafety r))) (saf_outbox (rpSafety r')))))"
proof -
  from assms(3) obtain leader where l: "IsLeader (saf_elect (rpSafety r)) (saf_ID (rpSafety r)) view = retG leader"
    and r': "(if \<not> leader then retG r else proposeBlock e ans now r view) = retG r'"
    by (auto simp: processNewView_def elim!: bindG_RetE)
  show ?thesis
  proof (cases leader)
    case True
    with l r' proposeBlock_sends [OF assms(1,2), of e ans now r'] show ?thesis by auto
  qed (use l r' in auto)
qed

text \<open>The leader of all views, in view 5, and late with its proposal for view 1.\<close>

definition sample_leader :: "64 word set Replica" where
  "sample_leader = sample_replica\<lparr>rpSafety := SHotStuff ((links_state ''1'')\<lparr>rPm := (NewPacemaker 4)\<lparr>curView := 5\<rparr>\<rparr>)\<rparr>"

lemma sample_leader_wf: "rep_wf sample_leader"
  using NewReplica_wf [of "sample_env 4 True" sample_bits "''4''" "''hotstuff''"] links_state_wf [of "''1''"]
  by (simp add: rep_wf_def sample_leader_def sample_replica_def NewReplica_def saf_wf_def chained_wf_def cur_def GetCurView_def
      delivered_def is_i64_def)

lemma sample_leader_block:
  assumes "bView b = 1" and "bProposer b = ''1''" and "bQC b = Some 0"
  shows "\<exists>s'. hs_handle e (send ((links_state ''1'')\<lparr>rPm := (NewPacemaker 4)\<lparr>curView := 5\<rparr>\<rparr>) p) (OnBlock b) = retG s'"
  using assms by (subst hs_handle.simps, subst hs_ProcessBlock.simps)
    (simp add: hs_process_one_def send_def hs_updateHighQC_def cur_def GetCurView_def i64_def qc_at_def)

lemma sample_leader_proposes: "\<exists>r'. processNewView (sample_env 4 True) ans now sample_leader 1 = retG r'"
proof -
  let ?e = "sample_env 4 True"
  let ?s = "(links_state ''1'')\<lparr>rPm := (NewPacemaker 4)\<lparr>curView := 5\<rparr>\<rparr>"
  obtain b where b: "hs_MakeProposal ?e ?s 1 [] = retG (?s, b)" "bView b = 1" "bProposer b = ''1''" "bQC b = Some 0"
    by (simp add: hs_MakeProposal_def hs_forkChoice_honest MakeBlock_def makeID_def blockID_of_def MakeID_def
        sign_block_def PrivSign_def sample_env_def index_slice_def priv_Sign_def qc_at_def empty_block_def)
  have r: "rpSafety sample_leader = SHotStuff ?s" "rpProducer sample_leader = NewProducer sample_bits (cfg ?e)"
    by (simp_all add: sample_leader_def sample_replica_def NewReplica_def)
  have "GeneratePayload (cfg ?e) (rpProducer sample_leader) = retG (rpProducer sample_leader, [])"
    by (simp add: r GeneratePayload_def pool_some_eq NewProducer_def NewMemPool_def NewBackend_def sample_env_def MakeDefaultConfig_def)
  then have "rep_make ?e ans sample_leader 1 = retG (sample_leader, b)"
    using b by (simp add: rep_make_def r)
  moreover obtain s' where "hs_handle ?e (send ?s (Broadcast (BlockMsg (b\<lparr>bTimestamp := now\<rparr>)))) (OnBlock (b\<lparr>bTimestamp := now\<rparr>)) = retG s'"
    using sample_leader_block [of "b\<lparr>bTimestamp := now\<rparr>"] b by fastforce
  ultimately show ?thesis
    by (simp add: processNewView_def r Static_IsLeader_def Static_FindLeaderFor_def NewStatic_def proposeBlock_def saf_broadcast_def)
qed

theorem new_view_proposal_witness:
  "\<exists>r'. processNewView (sample_env 4 True) (\<lambda>_. None) 17 sample_leader 1 = retG r' \<and> proposedNo r' = 1 \<and>
     (\<exists>b. bView b = 1 \<and> bProposer b = ''1'' \<and> Broadcast (BlockMsg b) \<in> set (saf_outbox (rpSafety r')))"
proof -
  obtain r' where r': "processNewView (sample_env 4 True) (\<lambda>_. None) 17 sample_leader 1 = retG r'"
    using sample_leader_proposes by blast
  have r: "saf_ID (rpSafety sample_leader) = ''1''" "saf_elect (rpSafety sample_leader) = StaticE (NewStatic ''1'')"
    "proposedNo sample_leader = 0"
    by (simp_all add: sample_leader_def sample_replica_def NewReplica_def)
  have "small_view 1" by (simp add: small_view_def is_i64_def)
  from new_view_proposal [OF sample_leader_wf this r'] r' show ?thesis
    by (auto simp: r Static_IsLeader_def NewStatic_def dest: in_set_dropD)
qed

section \<open>Forked blocks\<close>

lemma collect_content: "txns (fold (\<lambda>txn pd. CollectTxn pd (Some txn)) txs pd) = rev txs @ txns pd"
  using pool.collect_all [of txs pd] by (simp add: CollectTxn_def)

text \<open>
  When one of its own blocks is forked away, a replica puts the block's transactions back at
  the front of its pool in reverse order, ahead of everything that waits there; the pool is
  untouched by a forked block of another proposer.
\<close>
theorem forked_block_returns:
  "txns (rpProducer (processForkedBlock r block)) =
     (if bProposer block = saf_ID (rpSafety r) then rev (bPayload block) else []) @ txns (rpProducer r)"
  by (simp add: processForkedBlock_def collect_content)

section \<open>The first transaction\<close>

lemma rep_safety_start:
  "saf_ID (rep_safety e i alg byz) = i" "saf_elect (rep_safety e i alg byz) = rep_election (cfg e)"
  "(saf_cur (rep_safety e i alg byz) = 0 \<and> newViewChan (saf_pm (rep_safety e i alg byz)) = []) \<or>
   (saf_cur (rep_safety e i alg byz) = 1 \<and> newViewChan (saf_pm (rep_safety e i alg byz)) = [1])"
  by (simp_all add: rep_safety_def Let_def NewFhs_eq NewLbft_eq NewHotStuff_def NewTchs_def NewStreamlet_def sl_advance_def
      AdvanceView_def cur_def sl_cur_def GetCurView_def NewPacemaker_def i64_def)

lemma saf_advance_start:
  "saf_cur s = 0 \<Longrightarrow> newViewChan (saf_pm s) = [] \<Longrightarrow> saf_cur (saf_advance s 0) = 1 \<and> newViewChan (saf_pm (saf_advance s 0)) = [1]"
  by (cases s) (simp_all add: saf_advance_def advance_def sl_advance_def AdvanceView_def cur_def sl_cur_def GetCurView_def i64_def)

text \<open>
  The first transaction that reaches the leader of view 1 starts the replica, whichever
  protocol it runs: the transaction goes to Phalanx, the replica is in view 1, and the event its
  view listener hands to the event loop is that view.
\<close>
theorem first_transaction_starts:
  assumes "IsLeader (rep_election (cfg e)) i 1 = retG True"
  shows "\<exists>r. handleTxn (NewReplica e B i alg byz) m = retG r \<and> rpStarted r \<and> rpPhalanx r = [ReceiveTransaction m] \<and>
     saf_cur (rpSafety r) = 1 \<and> rpEvents (rep_entering_view r) = [EvView 1]"
proof -
  note start = rep_safety_start(3) [of e i alg byz]
  have n: "rpSafety (NewReplica e B i alg byz) = rep_safety e i alg byz" "rpEvents (NewReplica e B i alg byz) = []"
    "rpViewsTaken (NewReplica e B i alg byz) = 0" "rpPhalanx (NewReplica e B i alg byz) = []" "\<not> rpStarted (NewReplica e B i alg byz)"
    by (simp_all add: NewReplica_def)
  show ?thesis
  proof (cases "saf_cur (rep_safety e i alg byz) = 0")
    case True
    with start have "newViewChan (saf_pm (rep_safety e i alg byz)) = []" by simp
    with True n assms show ?thesis
      by (simp add: handleTxn_def startSignal_def rep_safety_start saf_advance_start rep_entering_view_def rep_enqueue_def)
  next
    case False
    with start n show ?thesis by (simp add: handleTxn_def startSignal_def rep_entering_view_def rep_enqueue_def)
  qed
qed

theorem first_transaction_starts_witness:
  "\<forall>m. \<exists>r. handleTxn (NewReplica ((sample_env 4 True)\<lparr>cfg := MakeDefaultConfig\<lparr>cfg_n := 4, Master := ''0''\<rparr>\<rparr>)
       sample_bits ''4'' ''tchs'' False) m = retG r \<and> saf_cur (rpSafety r) = 1 \<and> rpEvents (rep_entering_view r) = [EvView 1]"
proof -
  have "IsLeader (rep_election (MakeDefaultConfig\<lparr>cfg_n := 4, Master := ''0''\<rparr>)) ''4'' 1 = retG True"
    by (simp add: rep_election_def config_N_def NewRotation_def Rotation_IsLeader_def)
  then show ?thesis
    using first_transaction_starts [of "(sample_env 4 True)\<lparr>cfg := MakeDefaultConfig\<lparr>cfg_n := 4, Master := ''0''\<rparr>\<rparr>" "''4''"]
    by fastforce
qed

end
