(* ===== verification/Client.thy ===== *)
theory Client
  imports Db Config Crypto "HOL-Library.Sublist"
begin

text \<open>
  The REST client (client.go) and the operations of the benchmark history (benchmark/operation.go,
  benchmark/history.go). What an HTTP request is answered is an argument.
\<close>

record HTTPClient =
  clAddrs :: "(NodeID \<times> string) list"
  clHTTP :: "(NodeID \<times> string) list"
  clID :: NodeID
  clN :: nat
  clCID :: int

text \<open>
  The address tables are the configuration's own maps, so what the client deletes from them is gone
  from the configuration too.
\<close>

definition NewHTTPClient :: "Config \<Rightarrow> HTTPClient \<times> Config" where
  "NewHTTPClient c =
     (let byz = map (\<lambda>i. NewNodeID (int i)) [1..<Suc (nat (ByzNo c))];
          c' = (if Strategy c = ''silence''
                then c\<lparr>Addrs := filter (\<lambda>(i, _). i \<notin> set byz) (Addrs c),
                       HTTPAddrs := filter (\<lambda>(i, _). i \<notin> set byz) (HTTPAddrs c)\<rparr> else c)
      in (\<lparr>clAddrs = Addrs c', clHTTP = HTTPAddrs c', clID = [], clN = length (Addrs c), clCID = 0\<rparr>, c'))"

definition client_Get :: "HTTPClient \<Rightarrow> HTTPClient \<times> string" where
  "client_Get c = (c\<lparr>clCID := clCID c + 1\<rparr>, [])"

section \<open>Requests\<close>

record http_request =
  rqMethod :: string
  rqURL :: string
  rqHeader :: "(string \<times> string) list"
  rqBody :: "string option"

record http_response =
  rsStatusCode :: int
  rsStatus :: string
  rsBody :: string

text \<open>Go's HTTP client: whether a request can be built for a URL, and what it is answered.\<close>

record http =
  http_NewRequest :: "string \<Rightarrow> go_error option"
  http_Do :: "http_request \<Rightarrow> go_error + http_response"

definition http_answer :: "http \<Rightarrow> http_request \<Rightarrow> go_error + string" where
  "http_answer H req =
     (case http_Do H req of
        Inl err \<Rightarrow> Inl err
      | Inr rep \<Rightarrow> if rsStatusCode rep = 200 then Inr (rsBody rep) else Inl (HTTPStatus (rsStatus rep)))"

definition client_rest :: "http \<Rightarrow> HTTPClient \<Rightarrow> string \<Rightarrow> Value \<Rightarrow> go_error option" where
  "client_rest H c url value =
     (case http_NewRequest H url of
        Some err \<Rightarrow> Some err
      | None \<Rightarrow>
          (case http_answer H \<lparr>rqMethod = (if value \<noteq> None then ''PUT'' else ''GET''), rqURL = url,
                  rqHeader = [(''Id'', clID c), (''Cid'', Itoa (clCID c)), (''Connection'', ''keep-alive'')],
                  rqBody = value\<rparr> of
             Inl err \<Rightarrow> Some err
           | Inr _ \<Rightarrow> None))"

text \<open>\<open>encode\<close> is \<open>json.Marshal\<close> on commands.\<close>

definition client_json :: "(Command \<Rightarrow> string) \<Rightarrow> http \<Rightarrow> HTTPClient \<Rightarrow> NodeID \<Rightarrow> Key \<Rightarrow> Value \<Rightarrow> go_error + Value" where
  "client_json encode H c i key value =
     (let url = (case map_of (clHTTP c) i of None \<Rightarrow> [] | Some u \<Rightarrow> u);
          data = encode \<lparr>cKey = key, cValue = value, cClientID = clID c, cCommandID = clCID c\<rparr>
      in case http_NewRequest H url of
           Some err \<Rightarrow> Inl err
         | None \<Rightarrow> map_sum (\<lambda>err. err) Some
             (http_answer H \<lparr>rqMethod = ''POST'', rqURL = url, rqHeader = [(''Content-Type'', ''json'')], rqBody = Some data\<rparr>))"

definition JSONGet :: "(Command \<Rightarrow> string) \<Rightarrow> http \<Rightarrow> HTTPClient \<Rightarrow> Key \<Rightarrow> go_error + Value" where
  "JSONGet encode H c key = client_json encode H c (clID c) key None"

definition JSONPut :: "(Command \<Rightarrow> string) \<Rightarrow> http \<Rightarrow> HTTPClient \<Rightarrow> Key \<Rightarrow> Value \<Rightarrow> go_error + Value" where
  "JSONPut encode H c key value = client_json encode H c (clID c) key value"

text \<open>
  \<open>AllPut\<close> sends one request per node; \<open>finished\<close> is the order in which the requests end. Each
  stores its error in the same variable.
\<close>

definition put_url :: "Key \<Rightarrow> NodeID \<times> string \<Rightarrow> string" where
  "put_url key = (\<lambda>(i, ip). ip @ ''/'' @ Itoa (i64 (key + Node i)))"

definition AllPut :: "http \<Rightarrow> ((NodeID \<times> string) list \<Rightarrow> (NodeID \<times> string) list) \<Rightarrow>
  HTTPClient \<Rightarrow> Key \<Rightarrow> Value \<Rightarrow> go_error option" where
  "AllPut H finished c key value = fold (\<lambda>node err. client_rest H c (put_url key node) value) (finished (clHTTP c)) None"

definition RESTPut :: "http \<Rightarrow> ((NodeID \<times> string) list \<Rightarrow> (NodeID \<times> string) list) \<Rightarrow>
  HTTPClient \<Rightarrow> Key \<Rightarrow> Value \<Rightarrow> go_error option" where
  "RESTPut H finished c key value = AllPut H finished c key value"

definition client_Put :: "http \<Rightarrow> ((NodeID \<times> string) list \<Rightarrow> (NodeID \<times> string) list) \<Rightarrow>
  HTTPClient \<Rightarrow> Key \<Rightarrow> Value \<Rightarrow> HTTPClient \<times> go_error option" where
  "client_Put H finished c key value =
     (let c' = c\<lparr>clCID := clCID c + 1\<rparr> in (c', RESTPut H finished c' key value))"

text \<open>The histories that the nodes report; a node that does not answer has reported nothing.\<close>

definition client_history :: "(string \<Rightarrow> string list option) \<Rightarrow> string \<Rightarrow> string list" where
  "client_history fetch url = (case fetch url of None \<Rightarrow> [] | Some h \<Rightarrow> h)"

definition history_uri :: "Key \<Rightarrow> string" where
  "history_uri k = ''/history?key='' @ Itoa k"

definition reported :: "(string \<Rightarrow> string list option) \<Rightarrow> HTTPClient \<Rightarrow> Key \<Rightarrow> string list list" where
  "reported fetch c k = map (\<lambda>(i, url). client_history fetch (url @ history_uri k)) (clHTTP c)"

definition Consensus :: "(string \<Rightarrow> string list option) \<Rightarrow> HTTPClient \<Rightarrow> Key \<Rightarrow> bool" where
  "Consensus fetch c k =
     (let hs = reported fetch c k;
          n = fold (\<lambda>v n. if length v > n then length v else n) hs 0
      in list_all (\<lambda>i. length (remdups (map (\<lambda>h. h ! i) (filter (\<lambda>h. length h > i) hs))) \<le> 1) [0..<n])"

text \<open>The requests with which a client asks a node for a fault.\<close>

definition admin_request :: "HTTPClient \<Rightarrow> NodeID \<Rightarrow> string \<Rightarrow> http_request" where
  "admin_request c i uri =
     \<lparr>rqMethod = ''GET'', rqURL = (case map_of (clHTTP c) i of None \<Rightarrow> [] | Some u \<Rightarrow> u) @ uri, rqHeader = [], rqBody = None\<rparr>"

definition client_Crash :: "HTTPClient \<Rightarrow> NodeID \<Rightarrow> int \<Rightarrow> http_request" where
  "client_Crash c i t = admin_request c i (''/crash?t='' @ Itoa t)"

definition client_Drop :: "HTTPClient \<Rightarrow> NodeID \<Rightarrow> NodeID \<Rightarrow> int \<Rightarrow> http_request" where
  "client_Drop c from to t = admin_request c from (''/drop?id='' @ to @ ''&t='' @ Itoa t)"

section \<open>The benchmark history\<close>

record operation =
  opInput :: "string option"
  opOutput :: "string option"
  opStart :: int
  opEnd :: int

definition happenBefore :: "operation \<Rightarrow> operation \<Rightarrow> bool" where
  "happenBefore a b \<longleftrightarrow> opEnd a < opStart b"

definition op_concurrent :: "operation \<Rightarrow> operation \<Rightarrow> bool" where
  "op_concurrent a b \<longleftrightarrow> \<not> happenBefore a b \<and> \<not> happenBefore b a"

definition op_equal :: "operation \<Rightarrow> operation \<Rightarrow> bool" where
  "op_equal a b \<longleftrightarrow> opInput a = opInput b \<and> opOutput a = opOutput b \<and> opStart a = opStart b \<and> opEnd a = opEnd b"

record History =
  hShard :: "int \<rightharpoonup> operation list"
  hOperations :: "operation list"

definition NewHistory :: History where
  "NewHistory = \<lparr>hShard = Map.empty, hOperations = []\<rparr>"

definition AddOperation :: "History \<Rightarrow> int \<Rightarrow> operation \<Rightarrow> History" where
  "AddOperation h key o1 =
     (let shard = (case hShard h key of None \<Rightarrow> (hShard h)(key \<mapsto> []) | Some _ \<Rightarrow> hShard h)
      in h\<lparr>hShard := shard(key \<mapsto> the (shard key) @ [o1]), hOperations := hOperations h @ [o1]\<rparr>)"

definition history_Add :: "History \<Rightarrow> int \<Rightarrow> string option \<Rightarrow> string option \<Rightarrow> int \<Rightarrow> int \<Rightarrow> History" where
  "history_Add h key inp out start end1 =
     AddOperation h key \<lparr>opInput = inp, opOutput = out, opStart = start, opEnd = end1\<rparr>"

text \<open>
  \<open>strconv.ParseInt(s, 10, 64)\<close>, which \<open>strconv.Atoi\<close> is on a 64-bit machine: an optional sign and
  decimal digits in the range of the type.
\<close>

definition ParseInt :: "string \<Rightarrow> go_error + int" where
  "ParseInt s =
     (let neg = (s \<noteq> [] \<and> hd s = CHR ''-''); ds = (if s \<noteq> [] \<and> (hd s = CHR ''-'' \<or> hd s = CHR ''+'') then tl s else s)
      in if ds = [] then Inl (NumSyntax s)
         else case parse_digits None 0 ds of
           None \<Rightarrow> Inl (NumSyntax s)
         | Some n \<Rightarrow>
             (let x = (if neg then - int n else int n) in if is_i64 x then Inr x else Inl (NumRange s)))"

definition field_value :: "string \<Rightarrow> string option" where
  "field_value s = (if s = ''null'' \<or> s = [] then None else Some s)"

text \<open>
  \<open>ReadFile\<close> on the records of the file, each with its error or its fields. A bad time stops the
  process, everything else that is bad is returned, with what has been read before.
\<close>

fun history_read :: "History \<Rightarrow> (go_error + string list) list \<Rightarrow> (History \<times> go_error option) go" where
  "history_read h [] = retG (h, None)"
| "history_read h (Inl err # rest) = retG (h, Some err)"
| "history_read h (Inr record # rest) =
     (case record of
        f0 # f1 # f2 # f3 # f4 # _ \<Rightarrow>
          (case ParseInt f0 of
             Inl err \<Rightarrow> retG (h, Some err)
           | Inr key \<Rightarrow>
               (case ParseInt f3 of
                  Inl err \<Rightarrow> panicG LogFatal
                | Inr start \<Rightarrow>
                    (case ParseInt f4 of
                       Inl err \<Rightarrow> panicG LogFatal
                     | Inr end1 \<Rightarrow>
                         history_read (AddOperation h key
                           \<lparr>opInput = field_value f1, opOutput = field_value f2, opStart = start, opEnd = end1\<rparr>) rest)))
      | _ \<Rightarrow> retG (h, Some HistoryFormat))"

text \<open>The fields of the line that \<open>WriteFile\<close> writes for an operation; \<open>secs\<close> prints a time.\<close>

definition write_fields :: "(int \<Rightarrow> string) \<Rightarrow> operation \<Rightarrow> string list" where
  "write_fields secs o1 =
     [case opInput o1 of None \<Rightarrow> ''<nil>'' | Some x \<Rightarrow> x, case opOutput o1 of None \<Rightarrow> ''<nil>'' | Some x \<Rightarrow> x,
      secs (opStart o1), secs (opEnd o1)]"

section \<open>When the client sees a consensus\<close>

lemma fold_max_length: "fold (\<lambda>v n. if length v > n then length v else n) hs m = Max (insert m (length ` set hs))"
proof (induction hs arbitrary: m)
  case (Cons h hs)
  have "Max (insert m (insert (length h) (length ` set hs))) = Max (insert (if length h > m then length h else m) (length ` set hs))"
    by (cases "set hs = {}") (auto simp: max_def)
  with Cons show ?case by simp
qed simp

lemma remdups_le_1: "length (remdups xs) \<le> 1 \<longleftrightarrow> (\<forall>x \<in> set xs. \<forall>y \<in> set xs. x = y)"
proof -
  have "length (remdups xs) = card (set xs)" by (simp add: length_remdups_card_conv)
  then show ?thesis by (auto simp: card_le_Suc0_iff_eq)
qed

lemma agree_prefix: "(\<forall>i. i < length xs \<and> i < length ys \<longrightarrow> xs ! i = ys ! i) \<longleftrightarrow> prefix xs ys \<or> prefix ys xs"
proof
  assume a: "\<forall>i. i < length xs \<and> i < length ys \<longrightarrow> xs ! i = ys ! i"
  have eq: "take (length ys) xs = take (length xs) ys" by (rule nth_equalityI) (use a in auto)
  have "prefix (take (length xs) ys) ys" "prefix (take (length ys) xs) xs" by (rule take_is_prefix)+
  with eq show "prefix xs ys \<or> prefix ys xs" by (cases "length xs \<le> length ys") simp_all
next
  assume "prefix xs ys \<or> prefix ys xs"
  then show "\<forall>i. i < length xs \<and> i < length ys \<longrightarrow> xs ! i = ys ! i"
    by (auto simp: prefix_def nth_append)
qed

lemma Consensus_iff:
  "Consensus fetch c k \<longleftrightarrow> (\<forall>h1 \<in> set (reported fetch c k). \<forall>h2 \<in> set (reported fetch c k).
     \<forall>i. i < length h1 \<and> i < length h2 \<longrightarrow> h1 ! i = h2 ! i)"
proof -
  define hs where "hs = reported fetch c k"
  define n where "n = fold (\<lambda>v n. if length v > n then length v else n) hs 0"
  have bound: "length h \<le> n" if "h \<in> set hs" for h
    unfolding n_def fold_max_length using that by (intro Max_ge) auto
  have c: "Consensus fetch c k \<longleftrightarrow> list_all (\<lambda>i. length (remdups (map (\<lambda>h. h ! i) (filter (\<lambda>h. length h > i) hs))) \<le> 1) [0..<n]"
    unfolding Consensus_def Let_def hs_def n_def by (rule refl)
  show ?thesis
    unfolding c hs_def [symmetric] list_all_iff remdups_le_1
  proof (intro iffI ballI allI impI)
    fix h1 h2 i assume a: "\<forall>i \<in> set [0..<n]. \<forall>x \<in> set (map (\<lambda>h. h ! i) (filter (\<lambda>h. i < length h) hs)).
        \<forall>y \<in> set (map (\<lambda>h. h ! i) (filter (\<lambda>h. i < length h) hs)). x = y"
      and h: "h1 \<in> set hs" "h2 \<in> set hs" "i < length h1 \<and> i < length h2"
    have "i \<in> set [0..<n]" using bound [OF h(1)] h(3) by simp
    from bspec [OF a this] h show "h1 ! i = h2 ! i" by simp
  qed auto
qed

text \<open>
  The client reports a consensus on a key exactly when of any two histories the nodes report,
  one is a prefix of the other.
\<close>
theorem consensus_iff_prefixes:
  "Consensus fetch c k \<longleftrightarrow> (\<forall>h1 \<in> set (reported fetch c k). \<forall>h2 \<in> set (reported fetch c k). prefix h1 h2 \<or> prefix h2 h1)"
  by (simp add: Consensus_iff agree_prefix)

theorem consensus_iff_prefixes_witness:
  "\<not> Consensus (\<lambda>url. Some [url]) \<lparr>clAddrs = [], clHTTP = [(''1'', ''a''), (''2'', ''b'')], clID = [], clN = 2, clCID = 0\<rparr> 7"
  unfolding consensus_iff_prefixes by (simp add: reported_def client_history_def history_uri_def)

text \<open>
  What a put reports is the outcome of the request that ended last: it succeeds although the
  request to every other node has failed, and fails although every other node has taken the value.
\<close>
theorem put_reports_last:
  assumes "finished (clHTTP c) = nodes @ [node]"
  shows "client_Put H finished c key value =
     (c\<lparr>clCID := clCID c + 1\<rparr>, client_rest H (c\<lparr>clCID := clCID c + 1\<rparr>) (put_url key node) value)"
  using assms by (simp add: client_Put_def RESTPut_def AllPut_def Let_def)

theorem put_reports_last_witness:
  "snd (client_Put \<lparr>http_NewRequest = (\<lambda>url. if hd url = CHR ''a'' then Some (External ''bad url'') else None),
        http_Do = (\<lambda>_. Inr \<lparr>rsStatusCode = 200, rsStatus = ''200 OK'', rsBody = []\<rparr>)\<rparr> (\<lambda>nodes. nodes)
      \<lparr>clAddrs = [], clHTTP = [(''1'', ''a''), (''2'', ''b'')], clID = [], clN = 2, clCID = 0\<rparr> 7 (Some ''v'')) = None"
proof -
  let ?c = "\<lparr>clAddrs = [], clHTTP = [(''1'', ''a''), (''2'', ''b'')], clID = [], clN = 2, clCID = 0\<rparr>"
  have "clHTTP ?c = [(''1'', ''a'')] @ [(''2'', ''b'')]" by simp
  from put_reports_last [where finished = "\<lambda>nodes. nodes", OF this] show ?thesis by (simp add: client_rest_def http_answer_def put_url_def)
qed

section \<open>Histories and operations\<close>

text \<open>
  Operations whose end is not before their start are partially ordered by \<open>happenBefore\<close>, two
  of them are concurrent exactly when their intervals meet, and an operation added to the history is
  the last of its key, with the other keys unchanged.
\<close>
theorem history_order:
  assumes "opStart a \<le> opEnd a" and "opStart b \<le> opEnd b" and "opStart c \<le> opEnd c"
  shows "\<not> happenBefore a a \<and> (happenBefore a b \<and> happenBefore b c \<longrightarrow> happenBefore a c) \<and>
     (op_concurrent a b \<longleftrightarrow> (\<exists>t. opStart a \<le> t \<and> t \<le> opEnd a \<and> opStart b \<le> t \<and> t \<le> opEnd b)) \<and>
     (\<exists>ops. hShard (AddOperation h k a) k = Some (ops @ [a])) \<and>
     (k \<noteq> k' \<longrightarrow> hShard (AddOperation h k a) k' = hShard h k')"
proof -
  have "\<exists>t. opStart a \<le> t \<and> t \<le> opEnd a \<and> opStart b \<le> t \<and> t \<le> opEnd b" if "op_concurrent a b"
    using that assms by (intro exI [of _ "max (opStart a) (opStart b)"]) (auto simp: op_concurrent_def happenBefore_def)
  with assms show ?thesis
    by (auto simp: happenBefore_def op_concurrent_def AddOperation_def Let_def split: option.split)
qed

theorem history_order_witness:
  "\<not> happenBefore \<lparr>opInput = None, opOutput = None, opStart = 1, opEnd = 4\<rparr> \<lparr>opInput = None, opOutput = None, opStart = 1, opEnd = 4\<rparr>"
  using history_order [of "\<lparr>opInput = None, opOutput = None, opStart = 1, opEnd = 4\<rparr>"
      "\<lparr>opInput = None, opOutput = None, opStart = 2, opEnd = 3\<rparr>" "\<lparr>opInput = None, opOutput = None, opStart = 5, opEnd = 6\<rparr>"]
  by simp

section \<open>The history file\<close>

text \<open>The record that \<open>ReadFile\<close> expects for an operation of a key.\<close>

definition read_record :: "int \<Rightarrow> operation \<Rightarrow> string list" where
  "read_record key o1 =
     [Itoa key, case opInput o1 of None \<Rightarrow> [] | Some x \<Rightarrow> x, case opOutput o1 of None \<Rightarrow> ''null'' | Some x \<Rightarrow> x,
      Itoa (opStart o1), Itoa (opEnd o1)]"

definition readable :: "operation \<Rightarrow> bool" where
  "readable o1 \<longleftrightarrow> is_i64 (opStart o1) \<and> is_i64 (opEnd o1) \<and> opInput o1 \<notin> {Some [], Some ''null''} \<and> opOutput o1 \<notin> {Some [], Some ''null''}"

lemma ParseInt_Itoa: "is_i64 x \<Longrightarrow> ParseInt (Itoa x) = Inr x"
proof -
  assume x: "is_i64 x"
  have "hd (dec_digits n) \<noteq> CHR ''-'' \<and> hd (dec_digits n) \<noteq> CHR ''+''" for n
    using dec_digits_all_digits [OF hd_in_set [OF dec_digits_nonempty], of n] digit_char_neq_sign by fastforce
  moreover have "parse_digits None 0 (dec_digits n) = Some n" for n by (rule parse_dec_digits) simp
  ultimately
  show ?thesis using x by (auto simp: ParseInt_def Itoa_def Let_def)
qed

lemma field_value_read:
  "x \<notin> {Some [], Some ''null''} \<Longrightarrow> field_value (case x of None \<Rightarrow> [] | Some y \<Rightarrow> y) = x"
  "x \<notin> {Some [], Some ''null''} \<Longrightarrow> field_value (case x of None \<Rightarrow> ''null'' | Some y \<Rightarrow> y) = x"
  by (cases x; simp add: field_value_def)+

text \<open>
  A file of records in the format that \<open>ReadFile\<close> expects is read back into the operations it
  lists, each under its key and in order. The file that \<open>WriteFile\<close> writes is not in that format:
  its lines have four fields, and reading it stops at the first one.
\<close>
theorem history_file:
  assumes "list_all (\<lambda>(key, o1). is_i64 key \<and> readable o1) ops"
  shows "history_read h (map (\<lambda>(key, o1). Inr (read_record key o1)) ops) =
       retG (fold (\<lambda>(key, o1) h. AddOperation h key o1) ops h, None) \<and>
     history_read h (map (\<lambda>(key, o1). Inr (write_fields secs o1)) ops) =
       retG (h, if ops = [] then None else Some HistoryFormat)"
proof
  show "history_read h (map (\<lambda>(key, o1). Inr (read_record key o1)) ops) =
      retG (fold (\<lambda>(key, o1) h. AddOperation h key o1) ops h, None)"
    using assms
  proof (induction ops arbitrary: h)
    case (Cons op ops)
    then show ?case
      by (cases op; cases "snd op") (simp add: read_record_def readable_def ParseInt_Itoa field_value_read)
  qed simp
  show "history_read h (map (\<lambda>(key, o1). Inr (write_fields secs o1)) ops) =
      retG (h, if ops = [] then None else Some HistoryFormat)"
    by (cases ops) (simp_all add: write_fields_def split: prod.split)
qed

theorem history_file_witness:
  "history_read NewHistory [Inr (write_fields Itoa \<lparr>opInput = Some ''1'', opOutput = None, opStart = 1, opEnd = 4\<rparr>)] =
     retG (NewHistory, Some HistoryFormat)"
proof -
  have "list_all (\<lambda>(key, o1). is_i64 key \<and> readable o1) [(5, \<lparr>opInput = Some ''1'', opOutput = None, opStart = 1, opEnd = 4\<rparr>)]"
    by (simp add: readable_def is_i64_def)
  from history_file [OF this, of NewHistory Itoa] show ?thesis by simp
qed

end
