(* ===== verification/Keys.thy ===== *)
theory Keys
  imports Crypto Config
begin

text \<open>
  The generation of the key table (crypto/sign.go). \<open>ecdsa.GenerateKey\<close> reads a fixed number of
  bytes from the reader it is given, with \<open>io.ReadFull\<close>, and derives the key pair from them: the
  number and the derivation are the argument \<open>G\<close>. The reader of the program is \<open>StaticRand\<close>.
\<close>

record ecdsa_generator =
  gen_bytes :: nat
  gen_key :: "string \<Rightarrow> go_error + (int \<times> int \<times> int)"

text \<open>A reader is handed a buffer; it returns the buffer's new content, the number of bytes and an error.\<close>

type_synonym reader = "string \<Rightarrow> string \<times> int \<times> go_error option"

text \<open>\<open>Read\<close> reports as many bytes as the number of the node, and writes none.\<close>

definition StaticRand_Read :: "NodeID \<Rightarrow> reader" where
  "StaticRand_Read i x = (x, Node i, None)"

text \<open>\<open>io.ReadFull\<close>: read into the rest of the buffer until enough bytes have been reported.\<close>

partial_function (option) ReadFull :: "reader \<Rightarrow> string \<Rightarrow> int \<Rightarrow> (string \<times> go_error option) go" where
  "ReadFull read buf n =
     (if n < 0 then panicG IndexOutOfRange
      else if n < int (length buf)
      then (case read (drop (nat n) buf) of
              (rest, nn, None) \<Rightarrow> ReadFull read (take (nat n) buf @ rest) (n + nn)
            | (rest, nn, Some err) \<Rightarrow>
                retG (take (nat n) buf @ rest, if n + nn \<ge> int (length buf) then None else Some err))
      else retG (buf, None))"

definition GenerateKey :: "ecdsa_generator \<Rightarrow> string \<Rightarrow> NodeID \<Rightarrow> (go_error + ecdsa_p256_PrivateKey option) go" where
  "GenerateKey G signer i =
     (if signer = ''ECDSA_P256'' then
        bindG (ReadFull (StaticRand_Read i) (replicate (gen_bytes G) (CHR 0x00)) 0) (\<lambda>(seed, err).
          case err of
            Some x \<Rightarrow> retG (Inl x)
          | None \<Rightarrow>
              (case gen_key G seed of
                 Inl x \<Rightarrow> retG (Inl x)
               | Inr (d, pub) \<Rightarrow> retG (Inr (Some \<lparr>privSignAlg = signer, privD = d, privPub = pub\<rparr>))))
      else if signer = ''ECDSA_SECp256k1'' then retG (Inr None)
      else if signer = ''BLS_BLS12381'' then retG (Inr None)
      else retG (Inl InvalidSignatureScheme))"

fun set_keys_loop :: "ecdsa_generator \<Rightarrow> string \<Rightarrow> nat list \<Rightarrow> 'z crypto_scheme \<Rightarrow> ('z crypto_scheme \<times> go_error option) go" where
  "set_keys_loop G signer [] e = retG (e, None)"
| "set_keys_loop G signer (i # is) e =
     bindG (GenerateKey G signer (NewNodeID (int i + 1))) (\<lambda>r.
       case r of
         Inl err \<Rightarrow> retG (e\<lparr>keys := (keys e)[i := None]\<rparr>, Some err)
       | Inr None \<Rightarrow> panicG NilDereference
       | Inr (Some k) \<Rightarrow>
           set_keys_loop G signer is
             (e\<lparr>keys := (keys e)[i := Some k], pubKeys := (pubKeys e)[i := Some (priv_PublicKey k)]\<rparr>))"

definition SetKeys :: "ecdsa_generator \<Rightarrow> Config \<Rightarrow> 'z crypto_scheme \<Rightarrow> ('z crypto_scheme \<times> go_error option) go" where
  "SetKeys G c e =
     (let n = config_N c
      in set_keys_loop G (GetSignatureScheme c) [0..<n] (e\<lparr>keys := replicate n None, pubKeys := replicate n None\<rparr>))"

section \<open>What a reader of node numbers delivers\<close>

lemma ReadFull_static:
  assumes "0 < Node i" and "0 \<le> n"
  shows "ReadFull (StaticRand_Read i) buf n = retG (buf, None)"
  using assms(2)
proof (induction "nat (int (length buf) - n)" arbitrary: n rule: less_induct)
  case less
  show ?case
  proof (cases "n < int (length buf)")
    case True
    with assms(1) less.prems have "ReadFull (StaticRand_Read i) buf (n + Node i) = retG (buf, None)"
      by (intro less.hyps) auto
    with True less.prems show ?thesis by (subst ReadFull.simps) (simp add: StaticRand_Read_def)
  next
    case False
    with less.prems show ?thesis by (subst ReadFull.simps) simp
  qed
qed

lemmas ReadFull_induct = ReadFull.raw_induct [rotated, consumes 1, case_names step]

lemma ReadFull_zero_diverges:
  "ReadFull read buf n = Some r \<Longrightarrow> read = StaticRand_Read i \<Longrightarrow> Node i = 0 \<Longrightarrow> 0 \<le> n \<Longrightarrow> n < int (length buf) \<Longrightarrow> False"
  by (induction rule: ReadFull_induct) (auto simp: StaticRand_Read_def)

lemma GenerateKey_static:
  assumes "gen_key G (replicate (gen_bytes G) (CHR 0x00)) = Inr (d, pub)" and "0 < Node i"
  shows "GenerateKey G ''ECDSA_P256'' i = retG (Inr (Some \<lparr>privSignAlg = ''ECDSA_P256'', privD = d, privPub = pub\<rparr>))"
  using assms by (simp add: GenerateKey_def ReadFull_static)

lemma set_keys_static:
  assumes "gen_key G (replicate (gen_bytes G) (CHR 0x00)) = Inr (d, pub)" and "list_all (\<lambda>i. int i + 1 < 2 ^ 63) is"
  shows "set_keys_loop G ''ECDSA_P256'' is e =
    (let k = \<lparr>privSignAlg = ''ECDSA_P256'', privD = d, privPub = pub\<rparr>
     in retG (e\<lparr>keys := fold (\<lambda>i ks. ks[i := Some k]) is (keys e),
                 pubKeys := fold (\<lambda>i ks. ks[i := Some (priv_PublicKey k)]) is (pubKeys e)\<rparr>, None))"
  using assms(2)
proof (induction "is" arbitrary: e)
  case (Cons i "is")
  from Cons.prems have "Node (NewNodeID (int i + 1)) = int i + 1" by (intro Node_NewNodeID) simp_all
  with Cons show ?case by (simp add: GenerateKey_static [OF assms(1)] Let_def)
qed simp

lemma fold_update_all: "length ks = n \<Longrightarrow> m \<le> n \<Longrightarrow> fold (\<lambda>i ks. ks[i := x]) [0..<m] ks = replicate m x @ drop m ks"
proof (induction m)
  case (Suc m)
  then have "fold (\<lambda>i ks. ks[i := x]) [0..<m] ks = replicate m x @ drop m ks" by simp
  moreover obtain y where "drop m ks = y # drop (Suc m) ks" using Suc.prems by (metis Cons_nth_drop_Suc Suc_le_lessD)
  ultimately show ?case by (simp add: list_update_append replicate_append_same [symmetric])
qed simp

lemma SetKeys_static:
  assumes "GetSignatureScheme c = ''ECDSA_P256''" and "gen_key G (replicate (gen_bytes G) (CHR 0x00)) = Inr (d, pub)"
    and "int (config_N c) < 2 ^ 63"
  shows "\<exists>k. SetKeys G c e = retG (e\<lparr>keys := replicate (config_N c) (Some k),
      pubKeys := replicate (config_N c) (Some (priv_PublicKey k))\<rparr>, None)"
proof -
  have "list_all (\<lambda>i. int i + 1 < 2 ^ 63) [0..<config_N c]" using assms(3) by (auto simp: list_all_iff)
  with assms show ?thesis
    by (intro exI [of _ "\<lparr>privSignAlg = ''ECDSA_P256'', privD = d, privPub = pub\<rparr>"])
      (simp add: SetKeys_def set_keys_static [OF assms(2)] fold_update_all [where n = "config_N c"] Let_def)
qed

lemma index_replicate: "1 \<le> i \<Longrightarrow> i \<le> int n \<Longrightarrow> int n < 2 ^ 63 \<Longrightarrow>
    index_slice (replicate n x) (i64 (Node (NewNodeID i) - 1)) = retG x"
  by (simp add: Node_NewNodeID i64_nonneg_id index_slice_def nat_less_iff)

text \<open>
  Every node gets the same key pair. The reader from which a node's key is derived never writes
  to the buffer it is handed, so the seed is all zeros whatever the number of the node; hence what one
  node signs any other node could have signed, and a signature is accepted from one node exactly when
  it is accepted from any other.
\<close>
theorem all_nodes_share_a_key:
  assumes "GetSignatureScheme c = ''ECDSA_P256''" and "gen_key G (replicate (gen_bytes G) (CHR 0x00)) = Inr (d, pub)"
    and "int (config_N c) < 2 ^ 63"
  shows "\<exists>e'. SetKeys G c e = retG (e', None) \<and> length (keys e') = config_N c \<and>
    (\<forall>i j data hasher sig. 1 \<le> i \<and> i \<le> int (config_N c) \<and> 1 \<le> j \<and> j \<le> int (config_N c) \<longrightarrow>
       PrivSign e' data (NewNodeID i) hasher = PrivSign e' data (NewNodeID j) hasher \<and>
       PubVerify e' sig data (NewNodeID i) = PubVerify e' sig data (NewNodeID j))"
proof -
  obtain k where k: "SetKeys G c e = retG (e\<lparr>keys := replicate (config_N c) (Some k),
      pubKeys := replicate (config_N c) (Some (priv_PublicKey k))\<rparr>, None)" using SetKeys_static [OF assms] by blast
  show ?thesis
    by (rule exI, intro conjI, rule k)
      (use assms(3) in \<open>simp_all add: PrivSign_def PubVerify_def index_replicate priv_Sign_def pub_Verify_def\<close>)
qed

definition sample_generator :: ecdsa_generator where
  "sample_generator = \<lparr>gen_bytes = 40, gen_key = (\<lambda>seed. Inr (foldl (\<lambda>n c. 256 * n + of_char c) 0 seed + 1, 3, 4))\<rparr>"

theorem all_nodes_share_a_key_witness:
  "\<exists>e'. SetKeys sample_generator (MakeDefaultConfig\<lparr>cfg_n := 4\<rparr>)
      \<lparr>keys = [], pubKeys = [], ecdsaSign = (\<lambda>d _. Some (d, 5)), ecdsaVerify = (\<lambda>_ _ _ _. True)\<rparr> = retG (e', None) \<and>
    PubVerify e' [''1'', ''2''] ''msg'' (NewNodeID 1) = PubVerify e' [''1'', ''2''] ''msg'' (NewNodeID 4)"
proof -
  let ?c = "MakeDefaultConfig\<lparr>cfg_n := 4\<rparr>"
  have "GetSignatureScheme ?c = ''ECDSA_P256''" "int (config_N ?c) < 2 ^ 63" "config_N ?c = 4"
    "gen_key sample_generator (replicate (gen_bytes sample_generator) (CHR 0x00)) =
       Inr (foldl (\<lambda>n c. 256 * n + of_char c) 0 (replicate 40 (CHR 0x00)) + 1, 3, 4)"
    by (simp_all add: GetSignatureScheme_def MakeDefaultConfig_def config_N_def sample_generator_def)
  from all_nodes_share_a_key [OF this(1,4,2), unfolded this(3), of "\<lparr>keys = [], pubKeys = [],
      ecdsaSign = (\<lambda>d _. Some (d, 5)), ecdsaVerify = (\<lambda>_ _ _ _. True)\<rparr>"] obtain e' where
    e': "SetKeys sample_generator ?c \<lparr>keys = [], pubKeys = [], ecdsaSign = (\<lambda>d _. Some (d, 5)),
        ecdsaVerify = (\<lambda>_ _ _ _. True)\<rparr> = retG (e', None)"
      "\<And>i j data sig. 1 \<le> i \<and> i \<le> int 4 \<and> 1 \<le> j \<and> j \<le> int 4 \<Longrightarrow>
        PubVerify e' sig data (NewNodeID i) = PubVerify e' sig data (NewNodeID j)" by blast
  have "PubVerify e' [''1'', ''2''] ''msg'' (NewNodeID 1) = PubVerify e' [''1'', ''2''] ''msg'' (NewNodeID 4)"
    by (rule e'(2)) simp
  with e'(1) show ?thesis by blast
qed

section \<open>Signature schemes\<close>

text \<open>
  Of the four answers to the configured signature scheme only P-256 gives keys: with one of the two
  schemes that are named but not implemented a start with at least one node crashes on the missing key, and
  an unknown scheme is reported as an error.
\<close>
theorem signature_schemes:
  assumes "0 < config_N c" and "GetSignatureScheme c \<noteq> ''ECDSA_P256''"
  shows "SetKeys G c e =
    (if GetSignatureScheme c = ''ECDSA_SECp256k1'' \<or> GetSignatureScheme c = ''BLS_BLS12381'' then panicG NilDereference
     else retG (e\<lparr>keys := replicate (config_N c) None, pubKeys := replicate (config_N c) None\<rparr>, Some InvalidSignatureScheme))"
proof -
  obtain n where n: "config_N c = Suc n" using assms(1) by (cases "config_N c") auto
  then have "[0..<config_N c] = 0 # [1..<Suc n]" by (simp add: upt_rec)
  with assms(2) n show ?thesis by (simp add: SetKeys_def GenerateKey_def Let_def)
qed

theorem signature_schemes_witness:
  "SetKeys sample_generator (MakeDefaultConfig\<lparr>cfg_n := 4, cfgSigner := ''BLS_BLS12381''\<rparr>)
      \<lparr>keys = [], pubKeys = [], ecdsaSign = (\<lambda>d _. Some (d, 5)), ecdsaVerify = (\<lambda>_ _ _ _. True)\<rparr> = panicG NilDereference"
  using signature_schemes [of "MakeDefaultConfig\<lparr>cfg_n := 4, cfgSigner := ''BLS_BLS12381''\<rparr>" sample_generator]
  by (simp add: config_N_def GetSignatureScheme_def)

end
