(* ===== verification/Server.thy ===== *)
theory Server
  imports Replica_Props Client Keys
begin

text \<open>
  The server (server/server.go): a process starts one replica, or in a simulation one per address of the
  configuration, after the keys have been set; and which of them are Byzantine.
\<close>

text \<open>\<open>strconv.Atoi\<close> with its error dropped: 0 for what is no numeral, the nearest integer out of range.\<close>

definition Atoi_value :: "string \<Rightarrow> int" where
  "Atoi_value s =
     (case ParseInt s of
        Inr x \<Rightarrow> x
      | Inl (NumRange _) \<Rightarrow> if hd s = CHR ''-'' then - (2 ^ 63) else 2 ^ 63 - 1
      | Inl _ \<Rightarrow> 0)"

definition initReplica :: "env \<Rightarrow> 'b bitset_ops \<Rightarrow> string \<Rightarrow> NodeID \<Rightarrow> bool \<Rightarrow> 'b Replica" where
  "initReplica e B algorithm i isByz = NewReplica e B i algorithm isByz"

text \<open>The replicas that \<open>main\<close> starts, with their identifiers; \<open>i\<close> is the identifier on the command line.\<close>

definition server_main ::
  "ecdsa_generator \<Rightarrow> env \<Rightarrow> 'b bitset_ops \<Rightarrow> string \<Rightarrow> bool \<Rightarrow> string \<Rightarrow> (NodeID \<times> 'b Replica) list go" where
  "server_main G e B algorithm simulation i =
     bindG (SetKeys G (cfg e) e) (\<lambda>(e', errCrypto).
       if errCrypto \<noteq> None then panicG LogFatal
       else if simulation
       then retG (map (\<lambda>(j, _). (j, initReplica e' B algorithm j (Node j \<le> ByzNo (cfg e')))) (Addrs (cfg e')))
       else retG [(i, initReplica e' B algorithm i (Atoi_value i \<le> ByzNo (cfg e')))])"

section \<open>Which replicas are Byzantine\<close>

text \<open>Whether a replica follows its protocol.\<close>

definition rep_byz :: "'b Replica \<Rightarrow> bool" where
  "rep_byz r = saf_get rByz (\<lambda>_. False) (rpSafety r)"

lemma initReplica_byz:
  "rep_byz (initReplica e B alg i byz) \<longleftrightarrow> byz \<and> alg \<noteq> ''streamlet'' \<and> alg \<noteq> ''lbft''"
  by (simp add: initReplica_def NewReplica_def rep_byz_def rep_safety_def Let_def NewHotStuff_def NewTchs_def NewFhs_def)

lemma Atoi_NewNodeID: "0 \<le> k \<Longrightarrow> k < 2 ^ 63 \<Longrightarrow> Atoi_value (NewNodeID k) = k"
  by (simp add: Atoi_value_def NewNodeID_def ParseInt_Itoa is_i64_def)

lemma SetKeys_cfg: "SetKeys G c e = retG (e', None) \<Longrightarrow> cfg e' = cfg (e :: env)"
proof -
  have "set_keys_loop G s is (e :: env) = retG (e', err) \<Longrightarrow> cfg e' = cfg e" for s "is" e err
    by (induction "is" arbitrary: e) (auto elim!: bindG_RetE split: sum.split_asm option.split_asm)
  from this [of _ _ _ None] show "SetKeys G c e = retG (e', None) \<Longrightarrow> cfg e' = cfg e" by (fastforce simp: SetKeys_def Let_def)
qed

text \<open>
  The three tests of whether a node is Byzantine, of a process for one node, of a simulation and of
  the configuration, agree on every node number: exactly the nodes up to the configured number are. A
  process started without an identifier is Byzantine whenever that number is not negative. Every replica
  that is not is well-formed from the start.
\<close>
theorem byzantine_replicas:
  assumes "server_main G e B alg simulation i = retG rs" and "(j, r) \<in> set rs"
    and "simulation \<longrightarrow> list_all (\<lambda>(k, _). \<exists>x. 0 \<le> x \<and> x < 2 ^ 63 \<and> k = NewNodeID x) (Addrs (cfg e))"
    and "\<not> simulation \<longrightarrow> i = [] \<or> (\<exists>x. 0 \<le> x \<and> x < 2 ^ 63 \<and> i = NewNodeID x)"
  shows "(rep_byz r \<longleftrightarrow> IsByzantine (cfg e) j \<and> alg \<noteq> ''streamlet'' \<and> alg \<noteq> ''lbft'') \<and>
     (\<not> IsByzantine (cfg e) j \<longrightarrow> rep_wf r) \<and> (\<not> simulation \<and> i = [] \<and> 0 \<le> ByzNo (cfg e) \<longrightarrow> IsByzantine (cfg e) j)"
proof -
  from assms(1) obtain e' where e': "SetKeys G (cfg e) e = retG (e', None)" and
    rs: "rs = (if simulation
       then map (\<lambda>(j, _). (j, initReplica e' B alg j (Node j \<le> ByzNo (cfg e')))) (Addrs (cfg e'))
       else [(i, initReplica e' B alg i (Atoi_value i \<le> ByzNo (cfg e')))])"
    by (auto simp: server_main_def elim!: bindG_RetE split: if_split_asm)
  have cfg: "cfg e' = cfg e" using e' by (rule SetKeys_cfg)
  have empty: "Atoi_value [] = 0" "Node [] = 0" by (simp_all add: Atoi_value_def ParseInt_def Node_def ParseUint_def)
  have r: "r = initReplica e' B alg j (IsByzantine (cfg e) j)"
    using assms(2-4) rs cfg empty
    by (auto simp: IsByzantine_def Atoi_NewNodeID Node_NewNodeID split: if_split_asm)
  have "j = [] \<Longrightarrow> 0 \<le> ByzNo (cfg e) \<Longrightarrow> IsByzantine (cfg e) j" using empty by (simp add: IsByzantine_def)
  with r assms(2) rs NewReplica_wf [of e' B j alg] show ?thesis by (auto simp: initReplica_byz) (auto simp: initReplica_def)
qed

theorem byzantine_replicas_witness:
  "\<exists>r. server_main sample_generator (sample_env 4 True) sample_bits ''hotstuff'' False [] = retG [([], r)] \<and> rep_byz r"
proof -
  let ?e = "sample_env 4 True"
  have "GetSignatureScheme (cfg ?e) = ''ECDSA_P256''" "int (config_N (cfg ?e)) < 2 ^ 63"
    "gen_key sample_generator (replicate (gen_bytes sample_generator) (CHR 0x00)) =
       Inr (foldl (\<lambda>n c. 256 * n + of_char c) 0 (replicate 40 (CHR 0x00)) + 1, 3, 4)"
    by (simp_all add: GetSignatureScheme_def MakeDefaultConfig_def config_N_def sample_generator_def sample_env_def)
  from SetKeys_static [OF this(1,3,2), of ?e] obtain e' where "SetKeys sample_generator (cfg ?e) ?e = retG (e', None)" by blast
  then obtain r where r: "server_main sample_generator ?e sample_bits ''hotstuff'' False [] = retG [([], r)]"
    by (simp add: server_main_def)
  have "0 \<le> ByzNo (cfg ?e)" by (simp add: sample_env_def MakeDefaultConfig_def)
  with byzantine_replicas [OF r, of "[]" r] r show ?thesis by simp
qed

end
