(* ===== verification/Clock.thy ===== *)
theory Clock
  imports Complex_Main Prelude "HOL-Library.Signed_Division"
begin

text \<open>
  What the program uses of Go's clocks and of its floating-point numbers. A time is the number of
  nanoseconds since the zero time of package time, the first of January of the year 1, so that a time
  that was never set is 0; a duration is a 64-bit number of nanoseconds. A float64 that is neither
  infinite nor undefined is the real number it stands for, and \<open>fl\<close> rounds the exact result of an
  operation to one.
\<close>

type_synonym time = int

type_synonym Duration = int

definition maxDuration :: Duration where
  "maxDuration = 2 ^ 63 - 1"

definition minDuration :: Duration where
  "minDuration = - (2 ^ 63)"

text \<open>\<open>t.Sub(u)\<close>, which stays at the ends of the range.\<close>

definition time_Sub :: "time \<Rightarrow> time \<Rightarrow> Duration" where
  "time_Sub t u = max minDuration (min maxDuration (t - u))"

text \<open>\<open>t.UnixNano()\<close>: the nanoseconds since 1970.\<close>

definition UnixNano :: "time \<Rightarrow> int" where
  "UnixNano t = i64 (t - 62135596800000000000)"

definition Milliseconds :: "Duration \<Rightarrow> int" where
  "Milliseconds d = d sdiv 1000000"

section \<open>Floats\<close>

text \<open>
  \<open>fl_ok\<close> is what IEEE 754 says of rounding: it is monotone and within half a unit in the last place
  wherever the result is a normal number.
\<close>

definition fl_normal :: "real \<Rightarrow> bool" where
  "fl_normal x \<longleftrightarrow> 1 / 2 ^ 1022 \<le> \<bar>x\<bar> \<and> \<bar>x\<bar> \<le> 2 ^ 1023"

definition fl_ok :: "(real \<Rightarrow> real) \<Rightarrow> bool" where
  "fl_ok fl \<longleftrightarrow> mono fl \<and> fl 0 = 0 \<and> (\<forall>x. fl_normal x \<longrightarrow> \<bar>fl x - x\<bar> \<le> \<bar>x\<bar> / 2 ^ 53)"

text \<open>The quotient of two floats; a zero that is divided by is a positive one here.\<close>

datatype float64 = Finite real | Infinite bool | NaN

definition float_div :: "(real \<Rightarrow> real) \<Rightarrow> real \<Rightarrow> real \<Rightarrow> float64" where
  "float_div fl x y =
     (if y = 0 then (if x = 0 then NaN else Infinite (0 < x)) else Finite (fl (x / y)))"

definition float_int :: "(real \<Rightarrow> real) \<Rightarrow> int \<Rightarrow> real" where
  "float_int fl n = fl (real_of_int n)"

definition Seconds :: "(real \<Rightarrow> real) \<Rightarrow> Duration \<Rightarrow> real" where
  "Seconds fl d = fl (float_int fl (d sdiv 1000000000) + fl (float_int fl (d smod 1000000000) / 1000000000))"

section \<open>Facts on durations\<close>

lemma time_Sub_range [simp]: "is_i64 (time_Sub t u)"
  by (simp add: is_i64_def time_Sub_def minDuration_def maxDuration_def)

lemma time_Sub_exact: "is_i64 (t - u) \<Longrightarrow> time_Sub t u = t - u"
  by (simp add: is_i64_def time_Sub_def minDuration_def maxDuration_def)

lemma time_Sub_unset: "2 ^ 63 \<le> t \<Longrightarrow> time_Sub t 0 = maxDuration"
  by (simp add: time_Sub_def minDuration_def maxDuration_def)

lemma unset_time_Sub: "2 ^ 63 \<le> t \<Longrightarrow> time_Sub 0 t = minDuration"
  by (simp add: time_Sub_def minDuration_def maxDuration_def)

lemma time_Sub_nonneg: "u \<le> t \<Longrightarrow> 0 \<le> time_Sub t u"
  by (simp add: time_Sub_def minDuration_def maxDuration_def)

section \<open>Facts on rounding\<close>

lemma fl_normalI: "1 / 2 \<le> x \<Longrightarrow> x \<le> 2 ^ 60 \<Longrightarrow> fl_normal x"
proof -
  have "(1 :: real) / 2 ^ 1022 \<le> 1 / 2 ^ 1" by (rule divide_left_mono) (simp_all only: power_increasing, simp_all)
  moreover have "(2 :: real) ^ 60 \<le> 2 ^ 1023" by (rule power_increasing) simp_all
  moreover assume "1 / 2 \<le> x" "x \<le> 2 ^ 60"
  ultimately show ?thesis unfolding fl_normal_def by (auto intro: order_trans)
qed

lemma fl_bound:
  assumes "fl_ok fl" and "1 / 2 \<le> x" and "x \<le> 2 ^ 60"
  shows "fl x \<le> x * (1 + 1 / 2 ^ 53)" and "0 \<le> fl x"
proof -
  have "\<bar>fl x - x\<bar> \<le> \<bar>x\<bar> / 2 ^ 53" using assms(1) fl_normalI [OF assms(2,3)] unfolding fl_ok_def by blast
  then have "fl x - x \<le> x / 2 ^ 53" using assms(2) by linarith
  then show "fl x \<le> x * (1 + 1 / 2 ^ 53)" by (simp add: algebra_simps)
  show "0 \<le> fl x" using assms(1,2) monoD [of fl 0 x] by (auto simp: fl_ok_def)
qed

lemma fl_ok_exact: "fl_ok (\<lambda>x. x)"
  by (simp add: fl_ok_def mono_def)

end
