(* ===== verification/Node.thy ===== *)
theory Node
  imports Block Pacemaker Clock
begin

text \<open>
  The node (node/node.go): messages come in from the socket, are sorted into two channels and
  handed to the function registered for their dynamic type. A message is the value or a pointer to
  it, because the type name that selects the handler differs. Channels are lists, oldest first; the
  times at which the clock is read are arguments.
\<close>

datatype go_value =
    VBlock Block
  | VVote Vote
  | VTMO TMO
  | VTransaction Transaction
  | VTransactionReply Command
  | VQuery
  | VConsensusMessage nat
  | VCommand nat

datatype netmsg = Value go_value | Pointer go_value

fun value_type :: "go_value \<Rightarrow> string" where
  "value_type (VBlock _) = ''blockchain.Block''"
| "value_type (VVote _) = ''blockchain.Vote''"
| "value_type (VTMO _) = ''pacemaker.TMO''"
| "value_type (VTransaction _) = ''message.Transaction''"
| "value_type (VTransactionReply _) = ''message.TransactionReply''"
| "value_type VQuery = ''message.Query''"
| "value_type (VConsensusMessage _) = ''protos.ConsensusMessage''"
| "value_type (VCommand _) = ''protos.Command''"

fun type_name :: "netmsg \<Rightarrow> string" where
  "type_name (Value v) = value_type v"
| "type_name (Pointer v) = CHR ''*'' # value_type v"

section \<open>Commands as strings\<close>

definition hex_char :: "nat \<Rightarrow> char" where
  "hex_char n = (''0123456789abcdef'' ! n)"

definition hex_bytes :: "string \<Rightarrow> string" where
  "hex_bytes bs = concat (map (\<lambda>c. [hex_char (of_char c div 16), hex_char (of_char c mod 16)]) bs)"

definition Command_String :: "Command \<Rightarrow> string" where
  "Command_String c =
     (case cValue c of
        None \<Rightarrow> ''Get{key='' @ Itoa (cKey c) @ '' id='' @ cClientID c @ '' cid='' @ Itoa (cCommandID c) @ ''}''
      | Some v \<Rightarrow> ''Put{key='' @ Itoa (cKey c) @ '' value='' @ hex_bytes v @ '' id='' @ cClientID c @
          '' cid='' @ Itoa (cCommandID c))"

section \<open>The node\<close>

record 'h node =
  nID :: NodeID
  nByz :: bool
  MessageChan :: "netmsg list"
  TxChan :: "netmsg list"
  handles :: "string \<rightharpoonup> 'h"
  forwards :: "string \<rightharpoonup> Transaction"
  nReplies :: "(Transaction \<times> Command) list"
  nSent :: "(NodeID \<times> netmsg) list"
  nTotalCommittedTx :: int
  nThroughputAnchor :: time
  nTotalLatency :: real
  nLatencyCount :: int
  nTotalBlockSize :: int
  nBlockNumber :: int
  nTotalCommandSize :: int
  nCommandNumber :: int

definition NewNode :: "NodeID \<Rightarrow> bool \<Rightarrow> 'h node" where
  "NewNode i byz = \<lparr>nID = i, nByz = byz, MessageChan = [], TxChan = [], handles = Map.empty, forwards = Map.empty,
     nReplies = [], nSent = [], nTotalCommittedTx = 0, nThroughputAnchor = 0, nTotalLatency = 0, nLatencyCount = 0,
     nTotalBlockSize = 0, nBlockNumber = 0, nTotalCommandSize = 0, nCommandNumber = 0\<rparr>"

definition node_Retry :: "'h node \<Rightarrow> Transaction \<Rightarrow> 'h node" where
  "node_Retry n r = n\<lparr>MessageChan := MessageChan n @ [Value (VTransaction r)]\<rparr>"

text \<open>
  \<open>Register m f\<close>: \<open>t\<close> is the type of \<open>m\<close>; \<open>f\<close> is \<open>None\<close> when it is not a function, else
  its parameter types and what a call of it does.
\<close>

definition node_Register :: "'h node \<Rightarrow> string \<Rightarrow> (string list \<times> 'h) option \<Rightarrow> 'h node go" where
  "node_Register n t f =
     (case f of
        None \<Rightarrow> panicG ExplicitPanic
      | Some (ins, h) \<Rightarrow>
          (case ins of
             [] \<Rightarrow> panicG IndexOutOfRange
           | x # _ \<Rightarrow>
               if x \<noteq> t then panicG ExplicitPanic
               else if length ins \<noteq> 1 then panicG ExplicitPanic
               else retG (n\<lparr>handles := (handles n)(t \<mapsto> h)\<rparr>)))"

text \<open>One round of \<open>recv\<close> on the message \<open>m\<close> of the socket.\<close>

definition node_recv :: "Config \<Rightarrow> 'h node \<Rightarrow> netmsg \<Rightarrow> 'h node go" where
  "node_recv c n m =
     (if nByz n \<and> Strategy c = ''silence'' then retG n
      else case m of
        Value (VTransaction tx) \<Rightarrow> retG (n\<lparr>TxChan := TxChan n @ [m]\<rparr>)
      | Value (VTransactionReply cmd) \<Rightarrow>
          (case forwards n (Command_String cmd) of
             None \<Rightarrow> panicG NilDereference
           | Some r \<Rightarrow> retG (n\<lparr>nReplies := nReplies n @ [(r, cmd)]\<rparr>))
      | _ \<Rightarrow> retG (n\<lparr>MessageChan := MessageChan n @ [m]\<rparr>))"

text \<open>
  One round of \<open>handle\<close> and of \<open>txn\<close>: the first message of the channel with the function it is
  handed to, \<open>None\<close> while the channel is empty.
\<close>

definition node_dispatch :: "'h node \<Rightarrow> netmsg \<Rightarrow> ('h \<times> netmsg) go" where
  "node_dispatch n m =
     (case handles n (type_name m) of
        None \<Rightarrow> panicG LogFatal
      | Some f \<Rightarrow> retG (f, m))"

definition node_handle :: "'h node \<Rightarrow> ('h node \<times> ('h \<times> netmsg) option) go" where
  "node_handle n =
     (case MessageChan n of
        [] \<Rightarrow> retG (n, None)
      | m # rest \<Rightarrow> bindG (node_dispatch n m) (\<lambda>call. retG (n\<lparr>MessageChan := rest\<rparr>, Some call)))"

definition node_txn :: "'h node \<Rightarrow> ('h node \<times> ('h \<times> netmsg) option) go" where
  "node_txn n =
     (case TxChan n of
        [] \<Rightarrow> retG (n, None)
      | m # rest \<Rightarrow> bindG (node_dispatch n m) (\<lambda>call. retG (n\<lparr>TxChan := rest\<rparr>, Some call)))"

definition node_Forward :: "'h node \<Rightarrow> NodeID \<Rightarrow> Transaction \<Rightarrow> 'h node" where
  "node_Forward n i m =
     (let m' = m\<lparr>txNodeID := nID n\<rparr>
      in n\<lparr>forwards := (forwards n)(Command_String (txCommand m') \<mapsto> m'), nSent := nSent n @ [(i, Value (VTransaction m'))]\<rparr>)"

text \<open>
  A transaction of an executed command: when it is reached, the timestamp its client gave it, and the
  length of its payload. \<open>nano_to_second\<close> is the Phalanx library's conversion.
\<close>

record executed =
  exNow :: time
  exTimestamp :: int
  exLength :: int

definition node_execute :: "(real \<Rightarrow> real) \<Rightarrow> (int \<Rightarrow> real) \<Rightarrow> executed \<Rightarrow> 'h node \<Rightarrow> 'h node" where
  "node_execute fl nano_to_second tx n = n\<lparr>
     nTotalCommittedTx := nTotalCommittedTx n + 1,
     nTotalLatency := fl (nTotalLatency n + fl (nano_to_second (i64 (UnixNano (exNow tx) - exTimestamp tx)) * 1000)),
     nLatencyCount := nLatencyCount n + 1,
     nTotalBlockSize := nTotalBlockSize n + exLength tx,
     nTotalCommandSize := nTotalCommandSize n + exLength tx,
     nCommandNumber := nCommandNumber n + 1\<rparr>"

definition node_CommandExecution :: "(real \<Rightarrow> real) \<Rightarrow> (int \<Rightarrow> real) \<Rightarrow> 'h node \<Rightarrow> executed list \<Rightarrow> 'h node" where
  "node_CommandExecution fl nano_to_second n txs =
     (let n1 = fold (node_execute fl nano_to_second) txs n in n1\<lparr>nBlockNumber := nBlockNumber n1 + 1\<rparr>)"

definition node_StartSignal :: "'h node \<Rightarrow> time \<Rightarrow> 'h node" where
  "node_StartSignal n now = n\<lparr>nThroughputAnchor := now\<rparr>"

text \<open>\<open>QueryNode\<close>, which starts a new throughput period; it reads the clock at \<open>t1\<close> and at \<open>t2\<close>.\<close>

record QueryMessage =
  qmThroughput :: float64
  qmLatency :: float64
  qmAveBlockSize :: float64
  qmAveCommandSize :: float64

definition node_QueryNode :: "(real \<Rightarrow> real) \<Rightarrow> 'h node \<Rightarrow> time \<Rightarrow> time \<Rightarrow> 'h node \<times> QueryMessage" where
  "node_QueryNode fl n t1 t2 =
     (let throughput = float_div fl (float_int fl (nTotalCommittedTx n)) (Seconds fl (time_Sub t1 (nThroughputAnchor n)));
          latency = float_div fl (nTotalLatency n) (float_int fl (nLatencyCount n));
          n' = n\<lparr>nTotalCommittedTx := 0, nThroughputAnchor := t2\<rparr>
      in (n', \<lparr>qmThroughput = throughput, qmLatency = latency,
               qmAveBlockSize = float_div fl (float_int fl (nTotalBlockSize n')) (float_int fl (nBlockNumber n')),
               qmAveCommandSize = float_div fl (float_int fl (nTotalCommandSize n')) (float_int fl (nCommandNumber n'))\<rparr>))"

text \<open>
  \<open>BroadcastCommand\<close> and \<open>BroadcastPCM\<close>: the value goes to every other address, and the message back
  to the Phalanx library.
\<close>

definition node_Broadcast :: "'h node \<Rightarrow> NodeID list \<Rightarrow> go_value \<Rightarrow> 'h node" where
  "node_Broadcast n addrs v = n\<lparr>nSent := nSent n @ map (\<lambda>i. (i, Value v)) (filter (\<lambda>i. i \<noteq> nID n) addrs)\<rparr>"

definition node_BroadcastCommand :: "'h node \<Rightarrow> NodeID list \<Rightarrow> nat \<Rightarrow> 'h node \<times> bool" where
  "node_BroadcastCommand n addrs command = (node_Broadcast n addrs (VCommand command), True)"

definition node_BroadcastPCM :: "'h node \<Rightarrow> NodeID list \<Rightarrow> nat \<Rightarrow> 'h node \<times> bool" where
  "node_BroadcastPCM n addrs message = (node_Broadcast n addrs (VConsensusMessage message), True)"

text \<open>
  \<open>UnicastPCM\<close>: a message for the node itself goes back to the Phalanx library (\<open>True\<close>), any other
  is sent, as the pointer.
\<close>

definition node_UnicastPCM :: "'h node \<Rightarrow> nat \<Rightarrow> nat \<Rightarrow> 'h node \<times> bool" where
  "node_UnicastPCM n to message =
     (if to = u64 (Node (nID n)) then (n, True)
      else (n\<lparr>nSent := nSent n @ [(NewNodeID (i64 (int to)), Pointer (VConsensusMessage message))]\<rparr>, False))"

section \<open>Dispatch\<close>

lemma value_type_star: "value_type v \<noteq> CHR ''*'' # x"
  by (cases v) simp_all

text \<open>What the replica registers: a handler per message type, each taking the value.\<close>

fun register_all :: "'h node \<Rightarrow> (string \<times> 'h) list \<Rightarrow> 'h node go" where
  "register_all n [] = retG n"
| "register_all n ((t, h) # ths) = bindG (node_Register n t (Some ([t], h))) (\<lambda>n'. register_all n' ths)"

lemma register_all_eq:
  "register_all n ths = retG (n\<lparr>handles := handles n ++ map_of (rev ths)\<rparr>)"
proof (induction ths arbitrary: n)
  case (Cons th ths)
  then show ?case by (cases th) (simp add: node_Register_def map_add_def fun_eq_iff split: option.split)
qed simp

text \<open>
  With handlers registered for value types only, a value of a registered type is handed to its
  handler in the order of arrival, and a pointer to any value stops the process.
\<close>
theorem dispatch_values_only:
  assumes "register_all n ths = retG n'" and "handles n = Map.empty" and "list_all (\<lambda>(t, h). \<exists>v. t = value_type v) ths"
    and "MessageChan n = m # rest"
  shows "(\<forall>v h. m = Value v \<and> map_of (rev ths) (value_type v) = Some h \<longrightarrow>
        node_handle n' = retG (n'\<lparr>MessageChan := rest\<rparr>, Some (h, m))) \<and>
     (\<forall>v. m = Pointer v \<longrightarrow> node_handle n' = panicG LogFatal)"
proof -
  have n': "n' = n\<lparr>handles := map_of (rev ths)\<rparr>" using assms(1,2) by (simp add: register_all_eq)
  have "map_of (rev ths) (CHR ''*'' # x) = None" for x
  proof (rule ccontr)
    assume "map_of (rev ths) (CHR ''*'' # x) \<noteq> None"
    then obtain h where "(CHR ''*'' # x, h) \<in> set ths" by (auto dest!: map_of_SomeD)
    then obtain v where "CHR ''*'' # x = value_type v" using assms(3) by (auto simp: list_all_iff)
    with value_type_star [of v x] show False by simp
  qed
  with assms(4) show ?thesis by (auto simp: n' node_handle_def node_dispatch_def)
qed

theorem dispatch_values_only_witness:
  "\<exists>n' :: nat node. register_all ((NewNode ''1'' False)\<lparr>MessageChan := [Pointer VQuery]\<rparr>) [(''message.Query'', 0)] = retG n' \<and>
     node_handle n' = panicG LogFatal"
proof -
  let ?n = "(NewNode ''1'' False)\<lparr>MessageChan := [Pointer VQuery]\<rparr> :: nat node"
  obtain n' where n': "register_all ?n [(''message.Query'', 0)] = retG n'" by (simp add: register_all_eq)
  have "list_all (\<lambda>(t, h :: nat). \<exists>v. t = value_type v) [(''message.Query'', 0)]"
    by (auto intro: exI [of _ VQuery])
  with dispatch_values_only [OF n', of "Pointer VQuery" "[]"] n' show ?thesis by (auto simp: NewNode_def)
qed

section \<open>Replies\<close>

text \<open>
  A reply to a transaction that this node has not forwarded stops the node, unless it is a silent
  Byzantine one; a reply to a forwarded transaction reaches it.
\<close>
theorem unknown_reply_crashes:
  assumes "\<not> (nByz n \<and> Strategy c = ''silence'')"
  shows "(forwards n (Command_String cmd) = None \<longrightarrow> node_recv c n (Value (VTransactionReply cmd)) = panicG NilDereference) \<and>
     node_recv c (node_Forward n i tx) (Value (VTransactionReply (txCommand tx))) =
       retG ((node_Forward n i tx)\<lparr>nReplies := nReplies n @ [(tx\<lparr>txNodeID := nID n\<rparr>, txCommand tx)]\<rparr>)"
proof -
  have "\<not> (nByz (node_Forward n i tx) \<and> Strategy c = ''silence'')"
    using assms by (simp add: node_Forward_def Let_def)
  with assms show ?thesis by (auto simp: node_recv_def node_Forward_def Let_def)
qed

theorem unknown_reply_crashes_witness:
  "node_recv MakeDefaultConfig (NewNode ''1'' False :: nat node)
     (Value (VTransactionReply \<lparr>cKey = 1, cValue = None, cClientID = ''2'', cCommandID = 3\<rparr>)) = panicG NilDereference"
  using unknown_reply_crashes [of "NewNode ''1'' False :: nat node" MakeDefaultConfig] by (simp add: NewNode_def)

end
