(* ===== verification/Utils.thy ===== *)
theory Utils
  imports Prelude
begin

text \<open>
  The helpers of utils/utils.go. What \<open>rand\<close> draws and what a retried function answers are the
  streams \<open>draws\<close> and \<open>answers\<close>, indexed by the number of the call.
\<close>

fun FindIntSlice :: "int list \<Rightarrow> int \<Rightarrow> bool" where
  "FindIntSlice [] val \<longleftrightarrow> False"
| "FindIntSlice (item # items) val \<longleftrightarrow> (if item = val then True else FindIntSlice items val)"

text \<open>The inner loop of \<open>RandomPick\<close>, which draws until it has a new value, and the outer one.\<close>

partial_function (option) pick_new :: "(nat \<Rightarrow> int) \<Rightarrow> nat \<Rightarrow> int list \<Rightarrow> (int \<times> nat) go" where
  "pick_new draws k picked =
     (if FindIntSlice picked (draws k) then pick_new draws (Suc k) picked else retG (draws k, Suc k))"

fun pick_loop :: "(nat \<Rightarrow> int) \<Rightarrow> nat \<Rightarrow> nat \<Rightarrow> int list \<Rightarrow> int list go" where
  "pick_loop draws k 0 picked = retG picked"
| "pick_loop draws k (Suc f) picked =
     bindG (pick_new draws k picked) (\<lambda>(randomID, k'). pick_loop draws k' f (picked @ [randomID]))"

text \<open>\<open>Intn\<close> panics unless its argument is positive.\<close>

definition RandomPick :: "(nat \<Rightarrow> int) \<Rightarrow> int \<Rightarrow> int \<Rightarrow> int list go" where
  "RandomPick draws n f = (if 0 < f \<and> n \<le> 0 then panicG ExplicitPanic else pick_loop draws 0 (nat f) [])"

definition Max2 :: "int \<Rightarrow> int \<Rightarrow> int" where
  "Max2 a b = (if a < b then b else a)"

definition VMax :: "int list \<Rightarrow> int go" where
  "VMax v =
     (case v of
        [] \<Rightarrow> panicG IndexOutOfRange
      | x # _ \<Rightarrow> retG (fold (\<lambda>i max. if max < i then i else max) v x))"

text \<open>\<open>Retry\<close>, with the number of calls it has made.\<close>

function retry_loop :: "(nat \<Rightarrow> go_error option) \<Rightarrow> int \<Rightarrow> nat \<Rightarrow> nat \<times> go_error option" where
  "retry_loop answers attempts i =
     (case answers i of
        None \<Rightarrow> (Suc i, None)
      | Some err \<Rightarrow>
          if int i \<ge> attempts - 1 then (Suc i, Some (AfterAttempts attempts err))
          else retry_loop answers attempts (Suc i))"
  by pat_completeness auto
termination
  by (relation "measure (\<lambda>(answers, attempts, i). nat (attempts - int i))") auto

declare retry_loop.simps [simp del]

definition Retry :: "(nat \<Rightarrow> go_error option) \<Rightarrow> int \<Rightarrow> nat \<times> go_error option" where
  "Retry answers attempts = retry_loop answers attempts 0"

text \<open>
  The goroutine of \<open>Schedule\<close>: \<open>stops\<close> says of each \<open>select\<close> whether it takes the signal to stop rather
  than the end of the delay. The result has the state and whether the goroutine has returned; at the end
  of \<open>stops\<close> it still waits.
\<close>

fun Schedule :: "('s \<Rightarrow> 's) \<Rightarrow> 's \<Rightarrow> bool list \<Rightarrow> 's \<times> bool" where
  "Schedule f s [] = (f s, False)"
| "Schedule f s (stop # stops) = (if stop then (f s, True) else Schedule f (f s) stops)"

text \<open>The keys of the map, in the order of \<open>MapKeys\<close>, and the number drawn for their count.\<close>

definition MapRandomKeyGet :: "(nat \<Rightarrow> nat) \<Rightarrow> 'k list \<Rightarrow> 'k go" where
  "MapRandomKeyGet intn keys = (if keys = [] then panicG ExplicitPanic else retG (keys ! intn (length keys)))"

section \<open>Random picks\<close>

lemma FindIntSlice_iff [simp]: "FindIntSlice xs v \<longleftrightarrow> v \<in> set xs"
  by (induction xs) auto

lemmas pick_new_induct = pick_new.raw_induct [rotated, consumes 1, case_names step]

lemma pick_new_fresh: "pick_new draws k picked = Some r \<Longrightarrow> \<exists>j \<ge> k. r = Ret (draws j, Suc j) \<and> draws j \<notin> set picked"
proof (induction rule: pick_new_induct)
  case (step f draws k picked r)
  show ?case
  proof (cases "draws k \<in> set picked")
    case True
    with step.hyps step.IH [of draws "Suc k" picked r] show ?thesis by (auto dest: Suc_leD)
  qed (use step.hyps in auto)
qed

lemma pick_new_returns:
  assumes "draws j \<notin> set picked" and "k \<le> j"
  shows "\<exists>r. pick_new draws k picked = Some r"
  using assms(2)
proof (induction "j - k" arbitrary: k)
  case 0
  with assms(1) show ?case by (subst pick_new.simps) simp
next
  case (Suc d)
  show ?case
  proof (cases "draws k \<in> set picked")
    case True
    with Suc.prems assms(1) have "k < j" by (metis le_neq_implies_less)
    with Suc.hyps(1) [of "Suc k"] Suc.hyps(2) True show ?thesis by (subst pick_new.simps) simp
  next
    case False
    then show ?thesis by (subst pick_new.simps) simp
  qed
qed

lemma pick_loop_result:
  "pick_loop draws k f picked = retG xs \<Longrightarrow> distinct picked \<Longrightarrow>
     distinct xs \<and> length xs = length picked + f \<and> set xs \<subseteq> set picked \<union> range draws"
proof (induction f arbitrary: k picked)
  case (Suc f)
  then obtain x k' where x: "pick_new draws k picked = retG (x, k')" "pick_loop draws k' f (picked @ [x]) = retG xs"
    by (auto elim!: bindG_RetE)
  from pick_new_fresh [OF x(1)] have "x \<notin> set picked" "x \<in> range draws" by auto
  with Suc.IH [OF x(2)] Suc.prems(2) show ?case by auto
qed simp

lemma pick_loop_no_panic: "pick_loop draws k f picked \<noteq> panicG p"
proof (induction f arbitrary: k picked)
  case (Suc f)
  have "pick_new draws k picked \<noteq> panicG p" using pick_new_fresh by blast
  with Suc show ?case by (auto simp: bindG_eq_Panic split: prod.split_asm)
qed simp

lemma pick_loop_returns:
  assumes "finite D" and "\<And>x k. x \<in> D \<Longrightarrow> \<exists>j \<ge> k. draws j = x" and "length picked + f \<le> card D" and "set picked \<subseteq> D"
    and "range draws \<subseteq> D" and "distinct picked"
  shows "\<exists>xs. pick_loop draws k f picked = retG xs"
  using assms(3,4,6)
proof (induction f arbitrary: k picked)
  case (Suc f)
  have "card (set picked) < card D" using Suc.prems by (simp add: distinct_card)
  then obtain x where x: "x \<in> D" "x \<notin> set picked"
    using card_mono [OF finite_set, of D picked] by (meson linorder_not_less subsetI)
  from assms(2) [OF x(1), of k] obtain j where "k \<le> j" "draws j = x" by blast
  with x(2) pick_new_returns [of draws j picked k] obtain r where r: "pick_new draws k picked = Some r" by auto
  from pick_new_fresh [OF r] obtain i where i: "r = Ret (draws i, Suc i)" "draws i \<notin> set picked" by blast
  have "\<exists>xs. pick_loop draws (Suc i) f (picked @ [draws i]) = retG xs"
    using Suc.prems assms(5) i(2) by (intro Suc.IH) auto
  with r i(1) show ?case by simp
qed simp

text \<open>
  A pick of \<open>f\<close> out of \<open>n\<close> that returns has \<open>f\<close> different numbers below \<open>n\<close>. It returns if
  \<open>f\<close> is at most \<open>n\<close> and the generator keeps drawing every number, and it never returns
  if \<open>f\<close> is larger than \<open>n\<close>.
\<close>
theorem random_pick:
  assumes "0 \<le> f" and "0 < n" and "\<And>k. 0 \<le> draws k \<and> draws k < n"
  shows "(\<forall>xs. RandomPick draws n f = retG xs \<longrightarrow> distinct xs \<and> int (length xs) = f \<and> set xs \<subseteq> {0..<n}) \<and>
     (f \<le> n \<and> (\<forall>x k. 0 \<le> x \<and> x < n \<longrightarrow> (\<exists>j \<ge> k. draws j = x)) \<longrightarrow> (\<exists>xs. RandomPick draws n f = retG xs)) \<and>
     (n < f \<longrightarrow> RandomPick draws n f = None)"
proof (intro conjI allI impI)
  have rd: "range draws \<subseteq> {0..<n}" using assms(3) by auto
  have eq: "RandomPick draws n f = pick_loop draws 0 (nat f) []" using assms(2) by (simp add: RandomPick_def)
  show res: "distinct xs" "int (length xs) = f" "set xs \<subseteq> {0..<n}" if "RandomPick draws n f = retG xs" for xs
    using pick_loop_result [of draws 0 "nat f" "[]" xs] that assms(1) rd by (auto simp: eq)
  show "\<exists>xs. RandomPick draws n f = retG xs"
    if "f \<le> n \<and> (\<forall>x k. 0 \<le> x \<and> x < n \<longrightarrow> (\<exists>j \<ge> k. draws j = x))"
    unfolding eq using that rd assms(1,2) by (intro pick_loop_returns [of "{0..<n}"]) auto
  show "RandomPick draws n f = None" if "n < f"
  proof (cases "RandomPick draws n f")
    case (Some r)
    then obtain xs where xs: "RandomPick draws n f = retG xs"
      using pick_loop_no_panic by (cases r) (auto simp: eq)
    have "length xs \<le> card {0..<n}"
      using res [OF xs] card_mono [of "{0..<n}" "set xs"] distinct_card [of xs] by simp
    with res(2) [OF xs] that assms(2) show ?thesis by simp
  qed
qed

theorem random_pick_witness:
  "RandomPick (\<lambda>k. int (k mod 2)) 2 3 = None \<and> (\<exists>xs. RandomPick (\<lambda>k. int (k mod 2)) 2 2 = retG xs)"
proof -
  have dr: "0 \<le> int (k mod 2) \<and> int (k mod 2) < 2" for k by auto
  have "\<exists>j \<ge> k. int (j mod 2) = x" if "0 \<le> x \<and> x < 2" for x k
  proof -
    have "x = 0 \<or> x = 1" using that by auto
    then show ?thesis
      by (auto intro: exI [of _ "2 * k"] exI [of _ "2 * k + 1"])
  qed
  with random_pick [of 3 2 "\<lambda>k. int (k mod 2)"] random_pick [of 2 2 "\<lambda>k. int (k mod 2)"] dr show ?thesis by simp
qed

section \<open>Maxima and retries\<close>

lemma fold_max: "fold (\<lambda>i m. if m < i then i else m) xs x = Max (insert x (set xs))" for x :: int
proof (induction xs arbitrary: x)
  case (Cons y ys)
  have "Max (insert x (insert y (set ys))) = Max (insert (if x < y then y else x) (set ys))"
    by (cases "set ys = {}") (auto simp: max_def)
  with Cons show ?case by simp
qed simp

lemma VMax_eq: "VMax v = (if v = [] then panicG IndexOutOfRange else retG (Max (set v)))"
  by (cases v) (auto simp: VMax_def fold_max insert_absorb simp del: fold.simps)

lemma retry_loop_result:
  "retry_loop answers attempts i = (n, err) \<Longrightarrow>
     i < n \<and> n \<le> max (Suc i) (nat attempts) \<and> (\<forall>j. i \<le> j \<and> j < n - 1 \<longrightarrow> answers j \<noteq> None) \<and>
     (case answers (n - 1) of
        None \<Rightarrow> err = None
      | Some e \<Rightarrow> n = max (Suc i) (nat attempts) \<and> err = Some (AfterAttempts attempts e))"
proof (induction answers attempts i rule: retry_loop.induct)
  case (1 answers attempts i)
  show ?case
  proof (cases "answers i = None \<or> int i \<ge> attempts - 1")
    case True
    with 1(2) show ?thesis
      by (auto simp: retry_loop.simps [of answers attempts i] max_def split: option.splits if_splits)
  next
    case False
    with 1(2) have "retry_loop answers attempts (Suc i) = (n, err)"
      by (auto simp: retry_loop.simps [of answers attempts i] split: option.splits)
    with 1(1) False have IH: "Suc i < n \<and> n \<le> max (Suc (Suc i)) (nat attempts) \<and>
        (\<forall>j. Suc i \<le> j \<and> j < n - 1 \<longrightarrow> answers j \<noteq> None) \<and>
        (case answers (n - 1) of
           None \<Rightarrow> err = None
         | Some e \<Rightarrow> n = max (Suc (Suc i)) (nat attempts) \<and> err = Some (AfterAttempts attempts e))" by auto
    have "max (Suc (Suc i)) (nat attempts) = max (Suc i) (nat attempts)" using False by auto
    moreover have "answers j \<noteq> None" if "i \<le> j \<and> j < n - 1" for j
      using IH False that by (cases "j = i") auto
    ultimately show ?thesis using IH by (auto split: option.splits)
  qed
qed

text \<open>
  A retried function is called until it succeeds, at least once and at most as often as asked;
  the result is an error exactly when every call failed, and then it carries the last one.
\<close>
theorem retry_calls:
  assumes "Retry answers attempts = (n, err)"
  shows "1 \<le> n \<and> n \<le> max 1 (nat attempts) \<and> (\<forall>j < n - 1. answers j \<noteq> None) \<and>
     (case answers (n - 1) of
        None \<Rightarrow> err = None
      | Some e \<Rightarrow> n = max 1 (nat attempts) \<and> err = Some (AfterAttempts attempts e))"
  using retry_loop_result [OF assms [unfolded Retry_def]] by (auto split: option.splits)

theorem retry_calls_witness:
  "Retry (\<lambda>k. if k < 2 then Some ServerNotReady else None) 100 = (3, None) \<and>
   (\<forall>j < 2. (if j < (2::nat) then Some ServerNotReady else None) \<noteq> None)"
proof -
  have "Retry (\<lambda>k. if k < 2 then Some ServerNotReady else None) 100 = (3, None)"
    by (simp add: Retry_def retry_loop.simps)
  with retry_calls [OF this] show ?thesis by simp
qed

text \<open>
  A scheduled function is called at once and then once per delay, until the signal to stop: \<open>n + 1\<close> times
  when the signal comes after \<open>n\<close> delays, and no more whatever follows.
\<close>
theorem schedule_calls: "Schedule f s (replicate n False @ True # stops) = ((f ^^ Suc n) s, True)"
  by (induction n arbitrary: s) (simp_all add: funpow_swap1)

end
