(* ===== verification/Socket.thy ===== *)
theory Socket
  imports Complex_Main Utils Config
begin

text \<open>
  The sockets with their fault injection (socket/socket.go). The transports are I/O: \<open>skWire\<close> is
  what has been handed to them, \<open>dial a k\<close> is what the \<open>k\<close>-th attempt to connect to address
  \<open>a\<close> answers, and a float is a rational number. A timer that has been started is an entry of
  \<open>skTimers\<close> until it fires.
\<close>

datatype 'm timer = Deliver NodeID 'm | UnDrop NodeID | UnSlow NodeID | UnFlaky NodeID | UnCrash

record 'm Socket =
  skID :: NodeID
  skAddresses :: "(NodeID \<times> string) list"
  skNodes :: "NodeID set"
  skClosed :: "NodeID set"
  skCrash :: bool
  skDrop :: "NodeID \<Rightarrow> bool"
  skSlow :: "NodeID \<rightharpoonup> int"
  skFlaky :: "NodeID \<rightharpoonup> rat"
  skWire :: "(NodeID \<times> 'm) list"
  skTimers :: "'m timer list"

definition NewSocket :: "NodeID \<Rightarrow> (NodeID \<times> string) list \<Rightarrow> 'm Socket" where
  "NewSocket i addrs = \<lparr>skID = i, skAddresses = addrs, skNodes = {i}, skClosed = {}, skCrash = False, skDrop = (\<lambda>_. False),
     skSlow = Map.empty, skFlaky = Map.empty, skWire = [], skTimers = []\<rparr>"

text \<open>A message is handed to the transport to \<open>to\<close>, whose channel must not have been closed.\<close>

definition sk_hand :: "'m Socket \<Rightarrow> NodeID \<Rightarrow> 'm \<Rightarrow> 'm Socket go" where
  "sk_hand s to m = (if to \<in> skClosed s then panicG ClosedChannel else retG (s\<lparr>skWire := skWire s @ [(to, m)]\<rparr>))"

text \<open>The transport to \<open>to\<close>, connected on first use; \<open>None\<close> when there is no address for it.\<close>

definition sk_connect :: "(string \<Rightarrow> nat \<Rightarrow> go_error option) \<Rightarrow> 'm Socket \<Rightarrow> NodeID \<Rightarrow> 'm Socket option go" where
  "sk_connect dial s to =
     (if to \<in> skNodes s then retG (Some s)
      else case map_of (skAddresses s) to of
        None \<Rightarrow> retG None
      | Some address \<Rightarrow>
          (case Retry (dial address) 100 of
             (_, Some err) \<Rightarrow> panicG ExplicitPanic
           | (_, None) \<Rightarrow> retG (Some (s\<lparr>skNodes := insert to (skNodes s)\<rparr>))))"

definition sk_Send ::
  "(string \<Rightarrow> nat \<Rightarrow> go_error option) \<Rightarrow> rat \<Rightarrow> 'm Socket \<Rightarrow> NodeID \<Rightarrow> 'm \<Rightarrow> 'm Socket go" where
  "sk_Send dial draw s to m =
     (if skCrash s then retG s
      else if skDrop s to then retG s
      else if (case skFlaky s to of None \<Rightarrow> False | Some p \<Rightarrow> p > 0 \<and> draw < p) then retG s
      else
        bindG (sk_connect dial s to) (\<lambda>t.
          case t of
            None \<Rightarrow> retG s
          | Some s1 \<Rightarrow>
              if (case skSlow s1 to of None \<Rightarrow> False | Some delay \<Rightarrow> delay > 0)
              then retG (s1\<lparr>skTimers := skTimers s1 @ [Deliver to m]\<rparr>)
              else sk_hand s1 to m))"

fun sk_send_all ::
  "(string \<Rightarrow> nat \<Rightarrow> go_error option) \<Rightarrow> (NodeID \<Rightarrow> rat) \<Rightarrow> 'm Socket \<Rightarrow> NodeID list \<Rightarrow> 'm \<Rightarrow> 'm Socket go" where
  "sk_send_all dial draws s [] m = retG s"
| "sk_send_all dial draws s (i # is) m =
     (if i = skID s then sk_send_all dial draws s is m
      else bindG (sk_Send dial (draws i) s i m) (\<lambda>s'. sk_send_all dial draws s' is m))"

definition sk_Broadcast ::
  "(string \<Rightarrow> nat \<Rightarrow> go_error option) \<Rightarrow> (NodeID \<Rightarrow> rat) \<Rightarrow> 'm Socket \<Rightarrow> 'm \<Rightarrow> 'm Socket go" where
  "sk_Broadcast dial draws s m = sk_send_all dial draws s (map fst (skAddresses s)) m"

text \<open>\<open>rand\<close> picks \<open>picks i\<close> in round \<open>i\<close>; a number drawn before is skipped, not drawn again.\<close>

fun sk_multicast ::
  "(string \<Rightarrow> nat \<Rightarrow> go_error option) \<Rightarrow> (NodeID \<Rightarrow> rat) \<Rightarrow> 'm Socket \<Rightarrow> int list \<Rightarrow> int set \<Rightarrow> 'm \<Rightarrow> 'm Socket go" where
  "sk_multicast dial draws s [] sent m = retG s"
| "sk_multicast dial draws s (r # rs) sent m =
     (if r + 1 \<in> sent then sk_multicast dial draws s rs sent m
      else bindG (sk_Send dial (draws (NewNodeID (r + 1))) s (NewNodeID (r + 1)) m) (\<lambda>s'.
             sk_multicast dial draws s' rs (insert (r + 1) sent) m))"

definition sk_MulticastQuorum ::
  "(string \<Rightarrow> nat \<Rightarrow> go_error option) \<Rightarrow> (NodeID \<Rightarrow> rat) \<Rightarrow> (nat \<Rightarrow> int) \<Rightarrow> 'm Socket \<Rightarrow> int \<Rightarrow> 'm \<Rightarrow> 'm Socket go" where
  "sk_MulticastQuorum dial draws picks s quorum m =
     (if 0 < quorum \<and> skAddresses s = [] then panicG ExplicitPanic
      else sk_multicast dial draws s (map picks [0..<nat quorum]) {} m)"

text \<open>The messages that arrive, each with whether the node was crashed by then.\<close>

fun sk_Recv :: "(bool \<times> 'm) list \<Rightarrow> ('m \<times> (bool \<times> 'm) list) option" where
  "sk_Recv [] = None"
| "sk_Recv ((crashed, m) # rest) = (if \<not> crashed then Some (m, rest) else sk_Recv rest)"

text \<open>Closing a transport twice panics.\<close>

definition sk_Close :: "'m Socket \<Rightarrow> 'm Socket go" where
  "sk_Close s = (if skNodes s \<inter> skClosed s \<noteq> {} then panicG ClosedChannel else retG (s\<lparr>skClosed := skClosed s \<union> skNodes s\<rparr>))"

definition sk_Drop :: "'m Socket \<Rightarrow> NodeID \<Rightarrow> 'm Socket" where
  "sk_Drop s i = s\<lparr>skDrop := (skDrop s)(i := True), skTimers := skTimers s @ [UnDrop i]\<rparr>"

definition sk_Slow :: "'m Socket \<Rightarrow> NodeID \<Rightarrow> int \<Rightarrow> 'm Socket" where
  "sk_Slow s i delay = s\<lparr>skSlow := (skSlow s)(i \<mapsto> delay), skTimers := skTimers s @ [UnSlow i]\<rparr>"

definition sk_Flaky :: "'m Socket \<Rightarrow> NodeID \<Rightarrow> rat \<Rightarrow> 'm Socket" where
  "sk_Flaky s i p = s\<lparr>skFlaky := (skFlaky s)(i \<mapsto> p), skTimers := skTimers s @ [UnFlaky i]\<rparr>"

definition sk_Crash :: "'m Socket \<Rightarrow> int \<Rightarrow> 'm Socket" where
  "sk_Crash s t =
     (let s1 = s\<lparr>skCrash := True\<rparr> in if t > 0 then s1\<lparr>skTimers := skTimers s1 @ [UnCrash]\<rparr> else s1)"

fun sk_expire :: "'m timer \<Rightarrow> 'm Socket \<Rightarrow> 'm Socket go" where
  "sk_expire (Deliver to m) s = sk_hand s to m"
| "sk_expire (UnDrop i) s = retG (s\<lparr>skDrop := (skDrop s)(i := False)\<rparr>)"
| "sk_expire (UnSlow i) s = retG (s\<lparr>skSlow := (skSlow s)(i \<mapsto> 0)\<rparr>)"
| "sk_expire (UnFlaky i) s = retG (s\<lparr>skFlaky := (skFlaky s)(i \<mapsto> 0)\<rparr>)"
| "sk_expire UnCrash s = retG (s\<lparr>skCrash := False\<rparr>)"

text \<open>The timer at position \<open>k\<close> fires.\<close>

definition sk_fire :: "'m Socket \<Rightarrow> nat \<Rightarrow> 'm Socket go" where
  "sk_fire s k =
     (if k < length (skTimers s)
      then sk_expire (skTimers s ! k) (s\<lparr>skTimers := take k (skTimers s) @ drop (Suc k) (skTimers s)\<rparr>)
      else retG s)"

section \<open>A healthy socket delivers\<close>

definition healthy :: "'m Socket \<Rightarrow> bool" where
  "healthy s \<longleftrightarrow> \<not> skCrash s \<and> skClosed s = {} \<and> (\<forall>i. \<not> skDrop s i) \<and> (\<forall>i p. skFlaky s i = Some p \<longrightarrow> p \<le> 0) \<and>
     (\<forall>i d. skSlow s i = Some d \<longrightarrow> d \<le> 0)"

definition reachable :: "(string \<Rightarrow> nat \<Rightarrow> go_error option) \<Rightarrow> bool" where
  "reachable dial \<longleftrightarrow> (\<forall>a. \<exists>k < 100. dial a k = None)"

lemma reachable_Retry: "reachable dial \<Longrightarrow> snd (Retry (dial a) 100) = None"
proof -
  assume "reachable dial"
  then obtain k where k: "k < 100" "dial a k = None" by (auto simp: reachable_def)
  obtain n err where r: "retry_loop (dial a) 100 0 = (n, err)" by fastforce
  have "err = None"
  proof (cases "dial a (n - 1)")
    case (Some e)
    with retry_loop_result [OF r] have n: "n = 100" "\<forall>j < 99. dial a j \<noteq> None" by auto
    with k Some show ?thesis by (cases "k = 99") auto
  qed (use retry_loop_result [OF r] in auto)
  with r show ?thesis by (simp add: Retry_def)
qed

lemma sk_Send_healthy:
  assumes "healthy s" and "reachable dial" and "to \<in> fst ` set (skAddresses s)"
  shows "sk_Send dial u s to m = retG (s\<lparr>skNodes := insert to (skNodes s), skWire := skWire s @ [(to, m)]\<rparr>)"
proof -
  obtain a where a: "map_of (skAddresses s) to = Some a"
    using assms(3) by (cases "map_of (skAddresses s) to") (auto simp: map_of_eq_None_iff)
  obtain n where "Retry (dial a) 100 = (n, None)" using reachable_Retry [OF assms(2), of a] by (cases "Retry (dial a) 100") auto
  then have "sk_connect dial s to = retG (Some (s\<lparr>skNodes := insert to (skNodes s)\<rparr>))"
    using a by (auto simp: sk_connect_def insert_absorb)
  moreover have "(case skSlow s to of None \<Rightarrow> False | Some delay \<Rightarrow> delay > 0) = False"
    "(case skFlaky s to of None \<Rightarrow> False | Some p \<Rightarrow> p > 0 \<and> u < p) = False"
    using assms(1) by (auto simp: healthy_def not_less split: option.split)
  ultimately show ?thesis using assms(1) by (simp add: sk_Send_def sk_hand_def healthy_def)
qed

lemma sk_send_all_healthy:
  assumes "healthy s" and "reachable dial" and "set is \<subseteq> fst ` set (skAddresses s)"
  shows "\<exists>s'. sk_send_all dial draws s is m = retG s' \<and>
     skWire s' = skWire s @ map (\<lambda>i. (i, m)) (filter (\<lambda>i. i \<noteq> skID s) is) \<and> healthy s'"
  using assms(1,3)
proof (induction "is" arbitrary: s)
  case (Cons i "is")
  show ?case
  proof (cases "i = skID s")
    case True
    with Cons show ?thesis by auto
  next
    case False
    let ?s = "s\<lparr>skNodes := insert i (skNodes s), skWire := skWire s @ [(i, m)]\<rparr>"
    have "sk_Send dial (draws i) s i m = retG ?s" using Cons.prems assms(2) by (intro sk_Send_healthy) auto
    moreover have "healthy ?s" using Cons.prems(1) by (simp add: healthy_def)
    ultimately show ?thesis using Cons.IH [of ?s] Cons.prems(2) False by auto
  qed
qed simp

text \<open>
  On a socket without injected faults whose peers accept a connection within the hundred
  attempts, a broadcast hands the message to every address but the node's own, once each. A
  crashed socket sends nothing, and a dropped peer gets nothing.
\<close>
theorem broadcast_reaches_peers:
  "(healthy s \<and> reachable dial \<longrightarrow> (\<exists>s'. sk_Broadcast dial draws s m = retG s' \<and>
      skWire s' = skWire s @ map (\<lambda>i. (i, m)) (filter (\<lambda>i. i \<noteq> skID s) (map fst (skAddresses s))))) \<and>
   (skCrash s \<longrightarrow> sk_Broadcast dial draws s m = retG s) \<and> (skDrop s i \<longrightarrow> sk_Send dial u s i m = retG s)"
proof -
  have "sk_send_all dial draws s is m = retG s" if "skCrash s" for "is"
    by (induction "is") (simp_all add: sk_Send_def that)
  with sk_send_all_healthy [of s dial "map fst (skAddresses s)" draws m] show ?thesis
    by (auto simp: sk_Broadcast_def sk_Send_def)
qed

theorem broadcast_reaches_peers_witness:
  "\<exists>s'. sk_Broadcast (\<lambda>_ _. None) (\<lambda>_. 0) (NewSocket ''1'' [(''1'', ''a''), (''2'', ''b''), (''3'', ''c'')]) True = retG s' \<and>
     skWire s' = [(''2'', True), (''3'', True)]"
proof -
  let ?s = "NewSocket ''1'' [(''1'', ''a''), (''2'', ''b''), (''3'', ''c'')] :: bool Socket"
  have "healthy ?s" "reachable (\<lambda>_ _. None)"
    by (auto simp: healthy_def NewSocket_def reachable_def intro: exI [of _ 0])
  with broadcast_reaches_peers [of ?s "\<lambda>_ _. None" "\<lambda>_. 0" True] show ?thesis by (auto simp: NewSocket_def)
qed

section \<open>Injected faults wear off\<close>

text \<open>What can happen to a socket: messages, temporary faults, and timers that fire in any order.\<close>

inductive sk_run :: "(string \<Rightarrow> nat \<Rightarrow> go_error option) \<Rightarrow> 'm Socket \<Rightarrow> bool" for dial where
  run_new: "sk_run dial (NewSocket i addrs)"
| run_send: "sk_run dial s \<Longrightarrow> sk_Send dial u s to m = retG s' \<Longrightarrow> sk_run dial s'"
| run_drop: "sk_run dial s \<Longrightarrow> sk_run dial (sk_Drop s i)"
| run_slow: "sk_run dial s \<Longrightarrow> sk_run dial (sk_Slow s i d)"
| run_flaky: "sk_run dial s \<Longrightarrow> sk_run dial (sk_Flaky s i p)"
| run_crash: "sk_run dial s \<Longrightarrow> 0 < t \<Longrightarrow> sk_run dial (sk_Crash s t)"
| run_fire: "sk_run dial s \<Longrightarrow> sk_fire s k = retG s' \<Longrightarrow> sk_run dial s'"

text \<open>Every fault has a timer that will end it.\<close>

definition timed :: "'m Socket \<Rightarrow> bool" where
  "timed s \<longleftrightarrow> skClosed s = {} \<and> (skCrash s \<longrightarrow> UnCrash \<in> set (skTimers s)) \<and>
     (\<forall>i. skDrop s i \<longrightarrow> UnDrop i \<in> set (skTimers s)) \<and>
     (\<forall>i p. skFlaky s i = Some p \<and> p > 0 \<longrightarrow> UnFlaky i \<in> set (skTimers s)) \<and>
     (\<forall>i d. skSlow s i = Some d \<and> d > 0 \<longrightarrow> UnSlow i \<in> set (skTimers s))"

lemma timed_healthy: "timed s \<Longrightarrow> skTimers s = [] \<Longrightarrow> healthy s"
  by (auto simp: timed_def healthy_def not_less)

lemma sk_connect_timed: "timed s \<Longrightarrow> sk_connect dial s to = retG (Some s') \<Longrightarrow> timed s'"
  by (auto simp: sk_connect_def timed_def split: if_split_asm option.split_asm prod.split_asm)

lemma sk_hand_timed: "timed s \<Longrightarrow> sk_hand s to m = retG s' \<Longrightarrow> timed s'"
  by (auto simp: sk_hand_def timed_def)

lemma sk_later_timed: "timed s \<Longrightarrow> timed (s\<lparr>skTimers := skTimers s @ [t]\<rparr>)"
  by (simp add: timed_def)

lemma sk_Send_timed:
  assumes "timed s" and "sk_Send dial u s to m = retG s'"
  shows "timed s'"
  using assms unfolding sk_Send_def
  by (auto elim!: bindG_RetE split: if_split_asm option.split_asm
      dest!: sk_connect_timed [OF assms(1)] intro: sk_hand_timed sk_later_timed)

lemma set_removed: "k < length xs \<Longrightarrow> x \<in> set xs \<Longrightarrow> x \<noteq> xs ! k \<Longrightarrow> x \<in> set (take k xs @ drop (Suc k) xs)"
  by (subst (asm) id_take_nth_drop [of k xs]) auto

lemma sk_fire_timed:
  assumes "timed s" and "sk_fire s k = retG s'"
  shows "timed s'"
proof (cases "k < length (skTimers s)")
  case True
  with assms(2) have "sk_expire (skTimers s ! k) (s\<lparr>skTimers := take k (skTimers s) @ drop (Suc k) (skTimers s)\<rparr>) = retG s'"
    by (simp add: sk_fire_def)
  with assms(1) set_removed [OF True] show ?thesis
    by (cases "skTimers s ! k") (auto simp: timed_def sk_hand_def split: if_split_asm)
qed (use assms in \<open>simp add: sk_fire_def\<close>)

lemma sk_run_timed: "sk_run dial s \<Longrightarrow> timed s"
proof (induction rule: sk_run.induct)
  case (run_new i addrs)
  show ?case by (simp add: timed_def NewSocket_def)
next
  case (run_drop s i)
  then show ?case by (simp add: timed_def sk_Drop_def)
next
  case (run_slow s i d)
  then show ?case by (simp add: timed_def sk_Slow_def)
next
  case (run_flaky s i p)
  then show ?case by (simp add: timed_def sk_Flaky_def)
next
  case (run_crash s t)
  then show ?case by (simp add: timed_def sk_Crash_def)
qed (blast intro: sk_Send_timed sk_fire_timed)+

lemma timers_run_out:
  "timed s \<Longrightarrow> \<exists>s'. (\<lambda>s s'. sk_fire s 0 = retG s')\<^sup>*\<^sup>* s s' \<and> skTimers s' = [] \<and> healthy s'"
proof (induction "skTimers s" arbitrary: s)
  case Nil
  then show ?case using timed_healthy by force
next
  case (Cons t ts)
  have "\<exists>s1. sk_fire s 0 = retG s1 \<and> skTimers s1 = ts"
    using Cons.hyps(2) [symmetric] Cons.prems by (cases t) (auto simp: sk_fire_def sk_hand_def timed_def)
  then obtain s1 where s1: "sk_fire s 0 = retG s1" "skTimers s1 = ts" by blast
  have "timed s1" using Cons.prems s1(1) by (rule sk_fire_timed)
  from Cons.hyps(1) [OF s1(2) [symmetric] this] obtain s' where
    "(\<lambda>s s'. sk_fire s 0 = retG s')\<^sup>*\<^sup>* s1 s'" "skTimers s' = []" "healthy s'" by blast
  with s1(1) show ?case by (intro exI [of _ s'] conjI converse_rtranclp_into_rtranclp [of _ s s1])
qed

text \<open>
  C38: the faults injected into a socket for a limited time are gone once its timers have fired,
  in whatever order they were injected, overlapped and expired; and the timers always can
  fire, each without a crash.
\<close>
theorem faults_wear_off:
  assumes "sk_run dial s"
  shows "(skTimers s = [] \<longrightarrow> healthy s) \<and>
     (\<exists>s'. (\<lambda>s s'. sk_fire s 0 = retG s')\<^sup>*\<^sup>* s s' \<and> skTimers s' = [] \<and> healthy s')"
  using timers_run_out [OF sk_run_timed [OF assms]] timed_healthy [OF sk_run_timed [OF assms]] by blast

theorem faults_wear_off_witness:
  "\<exists>s'. (\<lambda>s s'. sk_fire s 0 = retG s')\<^sup>*\<^sup>* (sk_Crash (sk_Drop (NewSocket ''1'' []) ''2'') 5 :: nat Socket) s' \<and> healthy s'"
proof -
  have "sk_run (\<lambda>_ _. None) (sk_Crash (sk_Drop (NewSocket ''1'' []) ''2'') 5 :: nat Socket)"
    by (intro run_crash run_drop run_new) simp
  from faults_wear_off [OF this] show ?thesis by blast
qed

end
