(* ===== verification/Http.thy ===== *)
theory Http
  imports Node Socket Client
begin

text \<open>
  The HTTP interface of a node (node/http.go): the routes, what each handler does to the node and to
  its socket, and what it answers. \<open>draws\<close> is what \<open>rand\<close> draws for a node.
\<close>

datatype route = RootRoute | QueryRoute | SlowRoute | FlakyRoute | CrashRoute

text \<open>The path of a request is what stands before the query; the pattern \<open>/\<close> takes every other path.\<close>

definition http_path :: "string \<Rightarrow> string" where
  "http_path uri = takeWhile (\<lambda>c. c \<noteq> CHR ''?'') uri"

definition http_mux :: "string \<Rightarrow> route" where
  "http_mux uri =
     (if http_path uri = ''/query'' then QueryRoute
      else if http_path uri = ''/slow'' then SlowRoute
      else if http_path uri = ''/flaky'' then FlakyRoute
      else if http_path uri = ''/crash'' then CrashRoute
      else RootRoute)"

definition handleRoot :: "'h node \<Rightarrow> int \<Rightarrow> string \<Rightarrow> string \<Rightarrow> 'h node" where
  "handleRoot n now uri body =
     (let req = \<lparr>txCommand = \<lparr>cKey = 0, cValue = Some body, cClientID = [], cCommandID = 0\<rparr>, txProperties = [],
                 txTimestamp = now, txNodeID = nID n, txID = uri\<rparr>
      in n\<lparr>TxChan := TxChan n @ [Value (VTransaction req)]\<rparr>)"

definition handleQuery :: "'h node \<Rightarrow> 'h node" where
  "handleQuery n = n\<lparr>TxChan := TxChan n @ [Value VQuery]\<rparr>"

definition handleCrash :: "Config \<Rightarrow> 'm Socket \<Rightarrow> 'm Socket" where
  "handleCrash c s = sk_Crash s (Crash c)"

text \<open>\<open>Intn\<close> panics unless its argument is positive.\<close>

definition handleSlow :: "Config \<Rightarrow> (NodeID \<Rightarrow> int) \<Rightarrow> 'm Socket \<Rightarrow> 'm Socket go" where
  "handleSlow c draws s =
     (if Slow c \<le> 0 \<and> HTTPAddrs c \<noteq> [] then panicG ExplicitPanic
      else retG (fold (\<lambda>(i, _) s. sk_Slow s i (draws i)) (HTTPAddrs c) s))"

definition handleFlaky :: "Config \<Rightarrow> 'm Socket \<Rightarrow> 'm Socket" where
  "handleFlaky c s = fold (\<lambda>(i, _) s. sk_Flaky s i (1 / 2)) (HTTPAddrs c) s"

text \<open>A request to a node, with the body of the answer; \<open>info\<close> is what the replica replies to a query.\<close>

definition http_serve ::
  "Config \<Rightarrow> (NodeID \<Rightarrow> int) \<Rightarrow> string \<Rightarrow> int \<Rightarrow> 'h node \<times> 'm Socket \<Rightarrow> string \<Rightarrow> string \<Rightarrow> (('h node \<times> 'm Socket) \<times> string) go" where
  "http_serve c draws info now = (\<lambda>(n, s) uri body.
     case http_mux uri of
       RootRoute \<Rightarrow> retG ((handleRoot n now uri body, s), [])
     | QueryRoute \<Rightarrow> retG ((handleQuery n, s), info)
     | SlowRoute \<Rightarrow> bindG (handleSlow c draws s) (\<lambda>s'. retG ((n, s'), []))
     | FlakyRoute \<Rightarrow> retG ((n, handleFlaky c s), [])
     | CrashRoute \<Rightarrow> retG ((n, handleCrash c s), []))"

section \<open>The client's view of a consensus\<close>

lemma http_mux_history: "http_mux (history_uri k) = RootRoute"
  by (simp add: http_mux_def http_path_def history_uri_def)

text \<open>
  C39: a node does not serve the histories that the client's consensus check asks for. It takes such a
  request for a transaction, queues it and answers with an empty body; as that is no JSON value, the
  client finds a consensus on every key, whatever the nodes have executed.
\<close>
theorem consensus_check_is_vacuous:
  assumes "unmarshal [] = None"
    and "\<forall>(i, url) \<in> set (clHTTP c). \<exists>sv' body. http_serve conf draws info now (sv i) (history_uri k) [] = retG (sv', body) \<and>
      fetch (url @ history_uri k) = unmarshal body"
  shows "Consensus fetch c k \<and>
    http_serve conf draws info now (n, s) (history_uri k) [] = retG ((handleRoot n now (history_uri k) [], s), [])"
proof -
  have serve: "http_serve conf draws info now (n, s) (history_uri k) [] = retG ((handleRoot n now (history_uri k) [], s), [])" for n s
    by (simp add: http_serve_def http_mux_history)
  have "fetch (url @ history_uri k) = None" if "(i, url) \<in> set (clHTTP c)" for i url
    using bspec [OF assms(2) that] assms(1) by (cases "sv i") (auto simp: serve)
  then have "list_all (\<lambda>h. h = []) (reported fetch c k)"
    by (auto simp: reported_def client_history_def list_all_iff)
  then have "Consensus fetch c k" unfolding Consensus_iff by (auto simp: list_all_iff)
  with serve show ?thesis by blast
qed

theorem consensus_check_is_vacuous_witness:
  "Consensus (\<lambda>_. None) \<lparr>clAddrs = [], clHTTP = [(''1'', ''a''), (''2'', ''b'')], clID = [], clN = 2, clCID = 0\<rparr> 7"
proof -
  let ?c = "\<lparr>clAddrs = [], clHTTP = [(''1'', ''a''), (''2'', ''b'')], clID = [], clN = 2, clCID = 0\<rparr>"
  let ?sv = "\<lambda>i. (NewNode i False :: nat node, NewSocket i [] :: nat Socket)"
  have "\<forall>(i, url) \<in> set (clHTTP ?c). \<exists>sv' body.
      http_serve MakeDefaultConfig (\<lambda>_. 0) [] 0 (?sv i) (history_uri 7) [] = retG (sv', body) \<and> None = (\<lambda>_. None) body"
    by (simp add: http_serve_def http_mux_history)
  from consensus_check_is_vacuous [where unmarshal = "\<lambda>_. None" and fetch = "\<lambda>_. None", OF refl this] show ?thesis by blast
qed

section \<open>Slow nodes\<close>

lemma slow_all:
  "skSlow (fold (\<lambda>(i, _) s. sk_Slow s i (draws i)) xs s) i = (if i \<in> fst ` set xs then Some (draws i) else skSlow s i)"
  by (induction xs arbitrary: s) (auto simp: sk_Slow_def)

text \<open>
  A request to slow a node down stops its handler unless the configured delay is positive, which
  it is not by default; with a positive delay every address gets the delay drawn for it.
\<close>
theorem slow_request:
  "http_serve c draws info now (n, s) ''/slow'' body =
     (if Slow c \<le> 0 \<and> HTTPAddrs c \<noteq> [] then panicG ExplicitPanic
      else retG ((n, fold (\<lambda>(i, _) s. sk_Slow s i (draws i)) (HTTPAddrs c) s), [])) \<and>
   skSlow (fold (\<lambda>(i, _) s. sk_Slow s i (draws i)) (HTTPAddrs c) s) i =
     (if i \<in> fst ` set (HTTPAddrs c) then Some (draws i) else skSlow s i)"
  by (simp add: http_serve_def http_mux_def http_path_def handleSlow_def slow_all)

end
