(* ===== verification/Monitor.thy ===== *)
theory Monitor
  imports Replica_Props Node
begin

text \<open>
  A replica with its node and its clocks (replica/replica.go): the handlers it registers with the
  node, the statistics it keeps around each handler, the timer of the view and the answer to a query.
  \<open>clk 0\<close>, \<open>clk 1\<close> and so on are the readings of the clock in the order in which an operation makes
  them. What a handler does to the replica itself is the definition of theory \<open>Replica\<close>.
\<close>

section \<open>Ratios of the chain\<close>

definition GetChainGrowth :: "(real \<Rightarrow> real) \<Rightarrow> BlockChain \<Rightarrow> float64" where
  "GetChainGrowth fl bc = float_div fl (float_int fl (int (committedBlockNo bc))) (float_int fl (int (prunedBlockNo bc) + 1))"

definition GetBlockIntervals :: "(real \<Rightarrow> real) \<Rightarrow> BlockChain \<Rightarrow> float64" where
  "GetBlockIntervals fl bc = float_div fl (float_int fl (totalBlockIntervals bc)) (float_int fl (int (committedBlockNo bc)))"

text \<open>\<open>fv\<close> and \<open>ff\<close> print a float under the verbs v and f.\<close>

definition chain_status :: "(real \<Rightarrow> real) \<Rightarrow> (float64 \<Rightarrow> string) \<Rightarrow> NodeID \<Rightarrow> View \<Rightarrow> BlockChain \<Rightarrow> string" where
  "chain_status fl fv i view bc =
     ''['' @ i @ ''] The current view is: '' @ Itoa view @ '', chain growth rate is: '' @ fv (GetChainGrowth fl bc) @
     '', ave block interval is: '' @ fv (GetBlockIntervals fl bc)"

definition hs_GetChainStatus :: "(real \<Rightarrow> real) \<Rightarrow> (float64 \<Rightarrow> string) \<Rightarrow> HotStuff \<Rightarrow> string" where
  "hs_GetChainStatus fl fv s = chain_status fl fv (rID s) (cur s) (rBc s)"

definition th_GetChainStatus :: "(real \<Rightarrow> real) \<Rightarrow> (float64 \<Rightarrow> string) \<Rightarrow> Tchs \<Rightarrow> string" where
  "th_GetChainStatus fl fv s = chain_status fl fv (rID s) (cur s) (rBc s)"

definition f_GetChainStatus :: "(real \<Rightarrow> real) \<Rightarrow> (float64 \<Rightarrow> string) \<Rightarrow> Fhs \<Rightarrow> string" where
  "f_GetChainStatus fl fv s = chain_status fl fv (rID s) (cur s) (rBc s)"

definition sl_GetChainStatus :: "(real \<Rightarrow> real) \<Rightarrow> (float64 \<Rightarrow> string) \<Rightarrow> Streamlet \<Rightarrow> string" where
  "sl_GetChainStatus fl fv s = chain_status fl fv (sID s) (sl_cur s) (sBc s)"

definition lb_GetChainStatus :: "(real \<Rightarrow> real) \<Rightarrow> (float64 \<Rightarrow> string) \<Rightarrow> Lbft \<Rightarrow> string" where
  "lb_GetChainStatus fl fv s = chain_status fl fv (sID s) (sl_cur s) (sBc s)"

fun saf_GetChainStatus :: "(real \<Rightarrow> real) \<Rightarrow> (float64 \<Rightarrow> string) \<Rightarrow> SafetyS \<Rightarrow> string" where
  "saf_GetChainStatus fl fv (SHotStuff s) = hs_GetChainStatus fl fv s"
| "saf_GetChainStatus fl fv (STchs s) = th_GetChainStatus fl fv s"
| "saf_GetChainStatus fl fv (SFhs s) = f_GetChainStatus fl fv s"
| "saf_GetChainStatus fl fv (SStreamlet s) = sl_GetChainStatus fl fv s"
| "saf_GetChainStatus fl fv (SLbft s) = lb_GetChainStatus fl fv s"

section \<open>The machine\<close>

text \<open>
  The timer of the view is \<open>timerAt\<close>, when it is running, and \<open>timerC\<close>, whether its channel holds a tick that
  has not been taken. \<open>listening\<close> says that \<open>ListenLocalEvent\<close> has been started, \<open>selecting\<close> that it is at its
  select statement and not about to reset the timer.
\<close>

record Monitor =
  thrus :: string
  lastViewTime :: time
  startTime :: time
  voteStart :: time
  totalCreateDuration :: Duration
  totalProcessDuration :: Duration
  totalProposeDuration :: Duration
  totalRoundTime :: Duration
  totalVoteTime :: Duration
  timerAt :: "time option"
  timerC :: bool
  listening :: bool
  selecting :: bool
  queryReplies :: "string list"

datatype handler =
  CallHandleBlock | CallHandleVote | CallHandleTmo | CallHandleTxn | CallHandleQuery | CallHandleConsensusMessage | CallHandleCommand

record 'b machine =
  mcReplica :: "'b Replica"
  mcMonitor :: Monitor
  mcNode :: "handler node"

definition NewMonitor :: Monitor where
  "NewMonitor = \<lparr>thrus = [], lastViewTime = 0, startTime = 0, voteStart = 0, totalCreateDuration = 0, totalProcessDuration = 0,
     totalProposeDuration = 0, totalRoundTime = 0, totalVoteTime = 0, timerAt = None, timerC = False, listening = False,
     selecting = False, queryReplies = []\<rparr>"

definition registered :: "(string \<times> handler) list" where
  "registered =
     [(''blockchain.Block'', CallHandleBlock), (''blockchain.Vote'', CallHandleVote), (''pacemaker.TMO'', CallHandleTmo),
      (''message.Transaction'', CallHandleTxn), (''message.Query'', CallHandleQuery),
      (''protos.ConsensusMessage'', CallHandleConsensusMessage), (''protos.Command'', CallHandleCommand)]"

definition NewMachine :: "env \<Rightarrow> 'b bitset_ops \<Rightarrow> NodeID \<Rightarrow> string \<Rightarrow> bool \<Rightarrow> 'b machine go" where
  "NewMachine e B i alg byz =
     bindG (register_all (NewNode i byz) registered) (\<lambda>n.
       retG \<lparr>mcReplica = NewReplica e B i alg byz, mcMonitor = NewMonitor, mcNode = n\<rparr>)"

definition on_monitor :: "(Monitor \<Rightarrow> Monitor) \<Rightarrow> 'b machine \<Rightarrow> 'b machine" where
  "on_monitor f x = x\<lparr>mcMonitor := f (mcMonitor x)\<rparr>"

text \<open>What the start signal does beside the replica's own flag.\<close>

definition tm_startSignal :: "(nat \<Rightarrow> time) \<Rightarrow> 'b machine \<Rightarrow> 'b machine" where
  "tm_startSignal clk x =
     (if \<not> rpStarted (mcReplica x)
      then x\<lparr>mcMonitor := (mcMonitor x)\<lparr>startTime := clk 0\<rparr>, mcNode := node_StartSignal (mcNode x) (clk 1)\<rparr>
      else x)"

definition tm_HandleBlock :: "(nat \<Rightarrow> time) \<Rightarrow> 'b machine \<Rightarrow> Block \<Rightarrow> 'b machine" where
  "tm_HandleBlock clk x b = (tm_startSignal clk x)\<lparr>mcReplica := HandleBlock (mcReplica x) b\<rparr>"

definition tm_HandleVote :: "(nat \<Rightarrow> time) \<Rightarrow> 'b machine \<Rightarrow> Vote \<Rightarrow> 'b machine" where
  "tm_HandleVote clk x v =
     (if vView v < saf_cur (rpSafety (mcReplica x)) then x
      else (tm_startSignal clk x)\<lparr>mcReplica := HandleVote (mcReplica x) v\<rparr>)"

definition tm_HandleTmo :: "'b machine \<Rightarrow> TMO \<Rightarrow> 'b machine" where
  "tm_HandleTmo x t = x\<lparr>mcReplica := HandleTmo (mcReplica x) t\<rparr>"

definition tm_HandleConsensusMessage :: "(nat \<Rightarrow> time) \<Rightarrow> 'b machine \<Rightarrow> nat \<Rightarrow> 'b machine" where
  "tm_HandleConsensusMessage clk x m = (tm_startSignal clk x)\<lparr>mcReplica := HandleConsensusMessage (mcReplica x) m\<rparr>"

definition tm_HandleCommand :: "(nat \<Rightarrow> time) \<Rightarrow> 'b machine \<Rightarrow> nat \<Rightarrow> 'b machine" where
  "tm_HandleCommand clk x c = (tm_startSignal clk x)\<lparr>mcReplica := HandleCommand (mcReplica x) c\<rparr>"

definition tm_handleTxn :: "(nat \<Rightarrow> time) \<Rightarrow> 'b machine \<Rightarrow> Transaction \<Rightarrow> 'b machine go" where
  "tm_handleTxn clk x tx =
     bindG (handleTxn (mcReplica x) tx) (\<lambda>r. retG ((tm_startSignal clk x)\<lparr>mcReplica := r\<rparr>))"

text \<open>The answer to a query, which is sent on the channel of the query.\<close>

definition tm_handleQuery ::
  "(real \<Rightarrow> real) \<Rightarrow> (float64 \<Rightarrow> string) \<Rightarrow> (float64 \<Rightarrow> string) \<Rightarrow> (nat \<Rightarrow> time) \<Rightarrow> 'b machine \<Rightarrow> 'b machine" where
  "tm_handleQuery fl fv ff clk x =
     (let r = mcReplica x; m = mcMonitor x;
          ave = (\<lambda>total n. float_div fl (float_int fl (Milliseconds total)) (float_int fl n));
          requestRate = float_div fl (float_int fl (TotalReceivedTxNo (rpProducer r))) (Seconds fl (time_Sub (clk 0) (startTime m)));
          (n, nodeQuery) = node_QueryNode fl (mcNode x) (clk 1) (clk 2);
          thrus1 = thrus m @ ''Time: '' @ fv (Finite (Seconds fl (time_Sub (clk 3) (startTime m)))) @ '' s. Throughput: '' @
            fv (qmThroughput nodeQuery) @ '' txs/s, Latency: '' @ fv (qmLatency nodeQuery) @ ''\<newline>'';
          status = ''chain status is: '' @ saf_GetChainStatus fl fv (rpSafety r) @ ''\<newline>'' @
            ''Ave. block size is '' @ fv (qmAveBlockSize nodeQuery) @ ''.\<newline>'' @
            ''Ave. command size is '' @ fv (qmAveCommandSize nodeQuery) @ ''.\<newline>'' @
            ''Ave. creation time is '' @ ff (ave (totalCreateDuration m) (proposedNo r)) @ '' ms.\<newline>'' @
            ''Ave. processing time is '' @ fv (ave (totalProcessDuration m) (processedNo r)) @ '' ms.\<newline>'' @
            ''Ave. vote time is '' @ fv (ave (totalVoteTime m) (voteNo r)) @ '' ms.\<newline>'' @
            ''Request rate is '' @ ff requestRate @ '' txs/s.\<newline>'' @
            ''Ave. round time is '' @ ff (ave (totalRoundTime m) (roundNo r)) @ '' ms.\<newline>'' @
            ''Latency is '' @ ff (qmLatency nodeQuery) @ '' ms.\<newline>'' @
            ''Throughput is: \<newline>'' @ thrus1
      in x\<lparr>mcMonitor := m\<lparr>thrus := thrus1, queryReplies := queryReplies m @ [status]\<rparr>, mcNode := n\<rparr>)"

definition tm_proposeBlock ::
  "env \<Rightarrow> (nat \<Rightarrow> PartialOrderBatch option) \<Rightarrow> (nat \<Rightarrow> time) \<Rightarrow> 'b machine \<Rightarrow> View \<Rightarrow> 'b machine go" where
  "tm_proposeBlock e ans clk x view =
     bindG (proposeBlock e ans (clk 2) (mcReplica x) view) (\<lambda>r.
       retG (on_monitor (\<lambda>m. m\<lparr>totalCreateDuration := i64 (totalCreateDuration m + time_Sub (clk 1) (clk 0)), voteStart := clk 3\<rparr>)
         (x\<lparr>mcReplica := r\<rparr>)))"

definition tm_processNewView ::
  "env \<Rightarrow> (nat \<Rightarrow> PartialOrderBatch option) \<Rightarrow> (nat \<Rightarrow> time) \<Rightarrow> 'b machine \<Rightarrow> View \<Rightarrow> 'b machine go" where
  "tm_processNewView e ans clk x newView =
     bindG (FindLeaderFor (saf_elect (rpSafety (mcReplica x))) newView) (\<lambda>_.
     bindG (IsLeader (saf_elect (rpSafety (mcReplica x))) (saf_ID (rpSafety (mcReplica x))) newView) (\<lambda>leader.
       if \<not> leader then retG x else tm_proposeBlock e ans clk x newView))"

fun tm_event_round ::
  "env \<Rightarrow> (nat \<Rightarrow> PartialOrderBatch option) \<Rightarrow> (nat \<Rightarrow> time) \<Rightarrow> 'b machine \<Rightarrow> rep_event \<Rightarrow> 'b machine go" where
  "tm_event_round e ans clk x (EvView v) = tm_processNewView e ans clk x v"
| "tm_event_round e ans clk x (EvBlock b) =
     bindG (rep_event_round e ans (clk 0) (mcReplica x) (EvBlock b)) (\<lambda>r.
       retG (on_monitor (\<lambda>m. m\<lparr>totalProposeDuration := i64 (totalProposeDuration m + time_Sub (clk 0) (bTimestamp b)),
           totalProcessDuration := i64 (totalProcessDuration m + time_Sub (clk 1) (clk 0)), voteStart := clk 2\<rparr>)
         (x\<lparr>mcReplica := r\<rparr>)))"
| "tm_event_round e ans clk x (EvVote v) =
     bindG (rep_event_round e ans (clk 0) (mcReplica x) (EvVote v)) (\<lambda>r.
       retG (on_monitor (\<lambda>m. m\<lparr>totalVoteTime := i64 (totalVoteTime m + time_Sub (clk 1) (clk 0))\<rparr>) (x\<lparr>mcReplica := r\<rparr>)))"
| "tm_event_round e ans clk x ev =
     bindG (rep_event_round e ans (clk 0) (mcReplica x) ev) (\<lambda>r. retG (x\<lparr>mcReplica := r\<rparr>))"

definition tm_Start ::
  "env \<Rightarrow> (nat \<Rightarrow> PartialOrderBatch option) \<Rightarrow> (nat \<Rightarrow> time) \<Rightarrow> 'b machine \<Rightarrow> 'b machine go" where
  "tm_Start e ans clk x =
     (case rpEvents (mcReplica x) of
        ev # evs \<Rightarrow>
          if rpStarted (mcReplica x)
          then tm_event_round e ans clk (x\<lparr>mcReplica := (mcReplica x)\<lparr>rpEvents := evs\<rparr>\<rparr>) ev else retG x
      | [] \<Rightarrow> retG x)"

section \<open>The view listener and its timer\<close>

text \<open>\<open>ListenLocalEvent\<close> up to its loop, the head of the loop, and the two cases of its select statement.\<close>

definition tm_listen :: "Config \<Rightarrow> (nat \<Rightarrow> time) \<Rightarrow> 'b machine \<Rightarrow> 'b machine" where
  "tm_listen c clk = on_monitor (\<lambda>m. m\<lparr>lastViewTime := clk 0, timerAt := Some (clk 1 + GetTimerForView c), listening := True\<rparr>)"

definition tm_reset :: "Config \<Rightarrow> (nat \<Rightarrow> time) \<Rightarrow> 'b machine \<Rightarrow> 'b machine" where
  "tm_reset c clk = on_monitor (\<lambda>m. m\<lparr>timerAt := Some (clk 0 + GetTimerForView c), selecting := True\<rparr>)"

definition tm_entering_view :: "(nat \<Rightarrow> time) \<Rightarrow> 'b machine \<Rightarrow> 'b machine" where
  "tm_entering_view clk x =
     (let r = mcReplica x in
      if rpViewsTaken r < length (newViewChan (saf_pm (rpSafety r)))
      then on_monitor (\<lambda>m.
             let m1 = (if newViewChan (saf_pm (rpSafety r)) ! rpViewsTaken r \<ge> 2
                       then m\<lparr>totalVoteTime := i64 (totalVoteTime m + time_Sub (clk 0) (voteStart m))\<rparr> else m)
             in m1\<lparr>totalRoundTime := i64 (totalRoundTime m1 + time_Sub (clk 1) (lastViewTime m1)), lastViewTime := clk 1,
                   selecting := False\<rparr>)
             (x\<lparr>mcReplica := rep_entering_view r\<rparr>)
      else x)"

definition tm_timer :: "env \<Rightarrow> 'b machine \<Rightarrow> 'b machine go" where
  "tm_timer e x =
     bindG (rep_timer e (mcReplica x)) (\<lambda>r.
       retG (on_monitor (\<lambda>m. m\<lparr>timerC := False, selecting := False\<rparr>) (x\<lparr>mcReplica := r\<rparr>)))"

text \<open>The timer of package time: when it is due, its channel, which holds one tick, has one.\<close>

definition tm_fire :: "'b machine \<Rightarrow> 'b machine" where
  "tm_fire = on_monitor (\<lambda>m. m\<lparr>timerC := True, timerAt := None\<rparr>)"

section \<open>Calls from the node\<close>

text \<open>
  A call of a registered function by reflection, which panics on an argument of another type; and one
  round of \<open>handle\<close> and of \<open>txn\<close> of the node, with the call.
\<close>

definition machine_call ::
  "(real \<Rightarrow> real) \<Rightarrow> (float64 \<Rightarrow> string) \<Rightarrow> (float64 \<Rightarrow> string) \<Rightarrow> (nat \<Rightarrow> time) \<Rightarrow> 'b machine \<Rightarrow> handler \<times> netmsg \<Rightarrow> 'b machine go" where
  "machine_call fl fv ff clk x call =
     (case call of
        (CallHandleBlock, Value (VBlock b)) \<Rightarrow> retG (tm_HandleBlock clk x b)
      | (CallHandleVote, Value (VVote v)) \<Rightarrow> retG (tm_HandleVote clk x v)
      | (CallHandleTmo, Value (VTMO t)) \<Rightarrow> retG (tm_HandleTmo x t)
      | (CallHandleTxn, Value (VTransaction tx)) \<Rightarrow> tm_handleTxn clk x tx
      | (CallHandleQuery, Value VQuery) \<Rightarrow> retG (tm_handleQuery fl fv ff clk x)
      | (CallHandleConsensusMessage, Value (VConsensusMessage m)) \<Rightarrow> retG (tm_HandleConsensusMessage clk x m)
      | (CallHandleCommand, Value (VCommand c)) \<Rightarrow> retG (tm_HandleCommand clk x c)
      | _ \<Rightarrow> panicG ExplicitPanic)"

definition machine_round ::
  "(real \<Rightarrow> real) \<Rightarrow> (float64 \<Rightarrow> string) \<Rightarrow> (float64 \<Rightarrow> string) \<Rightarrow> (nat \<Rightarrow> time) \<Rightarrow> 'b machine \<Rightarrow>
   (handler node \<times> (handler \<times> netmsg) option) go \<Rightarrow> 'b machine go" where
  "machine_round fl fv ff clk x next =
     bindG next (\<lambda>(n, call).
       case call of
         None \<Rightarrow> retG (x\<lparr>mcNode := n\<rparr>)
       | Some c \<Rightarrow> machine_call fl fv ff clk (x\<lparr>mcNode := n\<rparr>) c)"

definition machine_handle ::
  "(real \<Rightarrow> real) \<Rightarrow> (float64 \<Rightarrow> string) \<Rightarrow> (float64 \<Rightarrow> string) \<Rightarrow> (nat \<Rightarrow> time) \<Rightarrow> 'b machine \<Rightarrow> 'b machine go" where
  "machine_handle fl fv ff clk x = machine_round fl fv ff clk x (node_handle (mcNode x))"

definition machine_txn ::
  "(real \<Rightarrow> real) \<Rightarrow> (float64 \<Rightarrow> string) \<Rightarrow> (float64 \<Rightarrow> string) \<Rightarrow> (nat \<Rightarrow> time) \<Rightarrow> 'b machine \<Rightarrow> 'b machine go" where
  "machine_txn fl fv ff clk x = machine_round fl fv ff clk x (node_txn (mcNode x))"

end
