(* ===== verification/Monitor_Props.thy ===== *)
theory Monitor_Props
  imports Monitor
begin

text \<open>
  Runs of a machine, a replica with its node and its clocks: every step is a step of the replica or
  leaves it alone, what the registered handlers are given, and what the statistics and the view timer
  are worth.
\<close>

section \<open>Steps\<close>

text \<open>The readings an operation makes between the times \<open>t\<close> and \<open>t'\<close>.\<close>

definition reads :: "(nat \<Rightarrow> time) \<Rightarrow> time \<Rightarrow> time \<Rightarrow> bool" where
  "reads clk t t' \<longleftrightarrow> t \<le> clk 0 \<and> clk 0 \<le> clk 1 \<and> clk 1 \<le> clk 2 \<and> clk 2 \<le> clk 3 \<and> clk 3 \<le> t'"

text \<open>
  A message that comes off the network carries a certificate that has been decoded and a view that has
  not reached the end of its range.
\<close>

fun msg_ok :: "nat \<Rightarrow> netmsg \<Rightarrow> bool" where
  "msg_ok k (Value (VBlock b)) \<longleftrightarrow> ev_ok k (OnBlock b)"
| "msg_ok k (Value (VVote v)) \<longleftrightarrow> small_view (vView v)"
| "msg_ok k (Value (VTMO t)) \<longleftrightarrow> ev_ok k (OnRemoteTmo t)"
| "msg_ok k _ \<longleftrightarrow> True"

abbreviation next_of :: "'b machine \<Rightarrow> nat" where
  "next_of x \<equiv> saf_next (rpSafety (mcReplica x))"

record printing =
  prRound :: "real \<Rightarrow> real"
  prV :: "float64 \<Rightarrow> string"
  prF :: "float64 \<Rightarrow> string"
  prNano :: "int \<Rightarrow> real"

inductive tm_step ::
  "env \<Rightarrow> (nat \<Rightarrow> PartialOrderBatch option) \<Rightarrow> (PartialOrderBatch \<Rightarrow> bool) \<Rightarrow> printing \<Rightarrow> time \<Rightarrow> 'b machine \<Rightarrow> time \<Rightarrow> 'b machine \<Rightarrow> bool"
  for e ans commit_err P where
  tm_recv: "t \<le> t' \<Longrightarrow> node_recv (cfg e) (mcNode x) m = retG n \<Longrightarrow> tm_step e ans commit_err P t x t' (x\<lparr>mcNode := n\<rparr>)"
| tm_http: "t \<le> t' \<Longrightarrow> m = Value (VTransaction tx) \<or> m = Value VQuery \<Longrightarrow>
    tm_step e ans commit_err P t x t' (x\<lparr>mcNode := (mcNode x)\<lparr>TxChan := TxChan (mcNode x) @ [m]\<rparr>\<rparr>)"
| tm_handle: "reads clk t t' \<Longrightarrow> MessageChan (mcNode x) = m # ms \<Longrightarrow> msg_ok (next_of x) m \<Longrightarrow>
    machine_handle (prRound P) (prV P) (prF P) clk x = retG x' \<Longrightarrow> tm_step e ans commit_err P t x t' x'"
| tm_txn: "reads clk t t' \<Longrightarrow> TxChan (mcNode x) = m # ms \<Longrightarrow> msg_ok (next_of x) m \<Longrightarrow>
    machine_txn (prRound P) (prV P) (prF P) clk x = retG x' \<Longrightarrow> tm_step e ans commit_err P t x t' x'"
| tm_loop: "reads clk t t' \<Longrightarrow> tm_Start e ans clk x = retG x' \<Longrightarrow> tm_step e ans commit_err P t x t' x'"
| tm_listens: "reads clk t t' \<Longrightarrow> rpStarted (mcReplica x) \<Longrightarrow> \<not> listening (mcMonitor x) \<Longrightarrow>
    tm_step e ans commit_err P t x t' (tm_listen (cfg e) clk x)"
| tm_resets: "reads clk t t' \<Longrightarrow> listening (mcMonitor x) \<Longrightarrow> \<not> selecting (mcMonitor x) \<Longrightarrow>
    tm_step e ans commit_err P t x t' (tm_reset (cfg e) clk x)"
| tm_view: "reads clk t t' \<Longrightarrow> selecting (mcMonitor x) \<Longrightarrow> list_all small_view (newViewChan (saf_pm (rpSafety (mcReplica x)))) \<Longrightarrow>
    tm_step e ans commit_err P t x t' (tm_entering_view clk x)"
| tm_fires: "timerAt (mcMonitor x) = Some d \<Longrightarrow> d \<le> t' \<Longrightarrow> t \<le> t' \<Longrightarrow> tm_step e ans commit_err P t x t' (tm_fire x)"
| tm_timeout: "t \<le> t' \<Longrightarrow> selecting (mcMonitor x) \<Longrightarrow> timerC (mcMonitor x) \<Longrightarrow> small_view (saf_cur (rpSafety (mcReplica x)) + 1) \<Longrightarrow>
    tm_timer e x = retG x' \<Longrightarrow> tm_step e ans commit_err P t x t' x'"
| tm_committed: "t \<le> t' \<Longrightarrow> rpStarted (mcReplica x) \<Longrightarrow> rep_committed_block commit_err (mcReplica x) = retG r \<Longrightarrow>
    tm_step e ans commit_err P t x t' (x\<lparr>mcReplica := r\<rparr>)"
| tm_forked: "t \<le> t' \<Longrightarrow> rpStarted (mcReplica x) \<Longrightarrow>
    tm_step e ans commit_err P t x t' (x\<lparr>mcReplica := rep_forked_block (mcReplica x)\<rparr>)"
| tm_decode: "t \<le> t' \<Longrightarrow> small_view (qcView qc) \<Longrightarrow>
    tm_step e ans commit_err P t x t' (x\<lparr>mcReplica := rep_decode (mcReplica x) qc\<rparr>)"
| tm_spawned: "t \<le> t' \<Longrightarrow> tm_step e ans commit_err P t x t'
    (x\<lparr>mcReplica := (mcReplica x)\<lparr>rpSafety := saf_on (\<lambda>c. c) (\<lambda>c. sl_run_spawned c k) (rpSafety (mcReplica x))\<rparr>\<rparr>)"
| tm_execute: "t \<le> t' \<Longrightarrow> tm_step e ans commit_err P t x t' (x\<lparr>mcNode := node_CommandExecution (prRound P) (prNano P) (mcNode x) txs\<rparr>)"

inductive tm_reach ::
  "env \<Rightarrow> (nat \<Rightarrow> PartialOrderBatch option) \<Rightarrow> (PartialOrderBatch \<Rightarrow> bool) \<Rightarrow> printing \<Rightarrow> time \<Rightarrow> 'b machine \<Rightarrow> time \<Rightarrow> 'b machine \<Rightarrow> bool"
  for e ans commit_err P t x where
  tm_init: "tm_reach e ans commit_err P t x t x"
| tm_next: "tm_reach e ans commit_err P t x t1 x1 \<Longrightarrow> tm_step e ans commit_err P t1 x1 t2 x2 \<Longrightarrow> tm_reach e ans commit_err P t x t2 x2"

section \<open>The machine runs the replica\<close>

lemma tm_startSignal_replica [simp]: "mcReplica (tm_startSignal clk x) = mcReplica x"
  by (simp add: tm_startSignal_def)

lemma on_monitor_fields [simp]:
  "mcReplica (on_monitor f x) = mcReplica x" "mcNode (on_monitor f x) = mcNode x" "mcMonitor (on_monitor f x) = f (mcMonitor x)"
  by (simp_all add: on_monitor_def)

lemma tm_proposeBlock_replica:
  "tm_proposeBlock e ans clk x view = retG x' \<Longrightarrow> proposeBlock e ans (clk 2) (mcReplica x) view = retG (mcReplica x')"
  by (auto simp: tm_proposeBlock_def elim!: bindG_RetE)

lemma tm_processNewView_replica:
  "tm_processNewView e ans clk x view = retG x' \<Longrightarrow> processNewView e ans (clk 2) (mcReplica x) view = retG (mcReplica x')"
  by (auto simp: tm_processNewView_def processNewView_def elim!: bindG_RetE dest: tm_proposeBlock_replica split: if_split_asm)

lemma tm_event_round_replica:
  "tm_event_round e ans clk x ev = retG x' \<Longrightarrow> \<exists>now. rep_event_round e ans now (mcReplica x) ev = retG (mcReplica x')"
  by (cases ev) (auto elim!: bindG_RetE dest!: tm_processNewView_replica simp del: rep_event_round.simps simp: rep_event_round.simps(1))

lemma tm_Start_replica:
  "tm_Start e ans clk x = retG x' \<Longrightarrow> \<exists>now. rep_Start e ans now (mcReplica x) = retG (mcReplica x')"
  by (auto simp: tm_Start_def rep_Start_def split: list.split_asm if_split_asm dest!: tm_event_round_replica)

lemma tm_handleQuery_replica [simp]: "mcReplica (tm_handleQuery fl fv ff clk x) = mcReplica x"
  by (simp add: tm_handleQuery_def Let_def split: prod.split)

lemma machine_call_replica:
  assumes "machine_call fl fv ff clk x (h, m) = retG x'" and "msg_ok (next_of x) m"
  shows "mcReplica x' = mcReplica x \<or> rep_step e ans commit_err (mcReplica x) (mcReplica x')"
  using assms
  by (auto simp: machine_call_def tm_HandleBlock_def tm_HandleVote_def tm_HandleTmo_def tm_HandleConsensusMessage_def tm_HandleCommand_def
      tm_handleTxn_def split: handler.split_asm netmsg.split_asm go_value.split_asm if_split_asm elim!: bindG_RetE
      intro: rep_step.intros simp del: ev_ok.simps)

lemma machine_round_replica:
  assumes "machine_round fl fv ff clk x next = retG x'" and "\<And>n h m'. next = retG (n, Some (h, m')) \<Longrightarrow> m' = m" and "msg_ok (next_of x) m"
  shows "mcReplica x' = mcReplica x \<or> rep_step e ans commit_err (mcReplica x) (mcReplica x')"
proof -
  from assms(1) consider n where "x' = x\<lparr>mcNode := n\<rparr>"
    | n h m' where "next = retG (n, Some (h, m'))" "machine_call fl fv ff clk (x\<lparr>mcNode := n\<rparr>) (h, m') = retG x'"
    unfolding machine_round_def by (auto elim!: bindG_RetE split: option.split_asm prod.split_asm)
  then show ?thesis
  proof cases
    case (2 n h m')
    with assms(2) [OF 2(1)] assms(3) machine_call_replica [OF 2(2), of e ans commit_err] show ?thesis by simp
  qed simp
qed

lemma dispatch_head:
  "node_handle n = retG (n', Some (h, m')) \<Longrightarrow> MessageChan n = m # ms \<Longrightarrow> m' = m"
  "node_txn n = retG (n', Some (h, m')) \<Longrightarrow> TxChan n = m # ms \<Longrightarrow> m' = m"
  by (auto simp: node_handle_def node_txn_def node_dispatch_def elim!: bindG_RetE split: option.split_asm)

lemma tm_step_replica:
  "tm_step e ans commit_err P t x t' x' \<Longrightarrow> mcReplica x' = mcReplica x \<or> rep_step e ans commit_err (mcReplica x) (mcReplica x')"
proof (induction rule: tm_step.induct)
  case (tm_handle clk t t' x m ms x')
  then show ?case unfolding machine_handle_def by (intro machine_round_replica) (auto dest: dispatch_head)
next
  case (tm_txn clk t t' x m ms x')
  then show ?case unfolding machine_txn_def by (intro machine_round_replica) (auto dest: dispatch_head)
next
  case (tm_loop clk t t' x x')
  then show ?case by (auto dest!: tm_Start_replica intro: step_loop)
next
  case (tm_timeout t t' x x')
  then show ?case by (auto simp: tm_timer_def elim!: bindG_RetE intro: step_timer)
qed (auto simp: tm_listen_def tm_reset_def tm_entering_view_def tm_fire_def Let_def intro: rep_step.intros)

lemma tm_reach_replica:
  "tm_reach e ans commit_err P t x t' x' \<Longrightarrow> rep_reach e ans commit_err (mcReplica x) (mcReplica x')"
proof (induction rule: tm_reach.induct)
  case (tm_next t1 x1 t2 x2)
  then show ?case using tm_step_replica [OF tm_next.hyps(2)] by (auto intro: rep_next)
qed (rule rep_start)

section \<open>What the handlers are given\<close>

fun handler_of :: "go_value \<Rightarrow> handler option" where
  "handler_of (VBlock _) = Some CallHandleBlock"
| "handler_of (VVote _) = Some CallHandleVote"
| "handler_of (VTMO _) = Some CallHandleTmo"
| "handler_of (VTransaction _) = Some CallHandleTxn"
| "handler_of (VTransactionReply _) = None"
| "handler_of VQuery = Some CallHandleQuery"
| "handler_of (VConsensusMessage _) = Some CallHandleConsensusMessage"
| "handler_of (VCommand _) = Some CallHandleCommand"

fun no_reply :: "netmsg \<Rightarrow> bool" where
  "no_reply (Value (VTransactionReply _)) \<longleftrightarrow> False"
| "no_reply _ \<longleftrightarrow> True"

definition node_ok :: "handler node \<Rightarrow> bool" where
  "node_ok n \<longleftrightarrow> handles n = map_of registered \<and> list_all no_reply (MessageChan n) \<and> list_all no_reply (TxChan n)"

lemma registered_value: "map_of registered (value_type v) = handler_of v"
  by (cases v) (simp_all add: registered_def)

lemma registered_pointer: "map_of registered (CHR ''*'' # s) = None"
  by (simp add: registered_def)

lemma NewMachine_ok: "NewMachine e B i alg byz = retG x \<Longrightarrow> node_ok (mcNode x)"
  by (auto simp: NewMachine_def register_all_eq NewNode_def node_ok_def registered_def elim!: bindG_RetE)

lemma NewMachine_fields:
  "NewMachine e B i alg byz = retG x \<Longrightarrow> mcReplica x = NewReplica e B i alg byz \<and> mcMonitor x = NewMonitor"
  by (auto simp: NewMachine_def elim!: bindG_RetE)

text \<open>A machine that has just been made, and the same once a command has come in and been handled.\<close>

definition sample_machine :: "64 word set machine" where
  "sample_machine = \<lparr>mcReplica = sample_replica, mcMonitor = NewMonitor,
     mcNode = (NewNode ''4'' False)\<lparr>handles := map_of (rev registered)\<rparr>\<rparr>"

definition sample_received :: "64 word set machine" where
  "sample_received = sample_machine\<lparr>mcNode := (mcNode sample_machine)\<lparr>MessageChan := [Value (VCommand 7)]\<rparr>\<rparr>"

definition sample_started :: "64 word set machine" where
  "sample_started = tm_HandleCommand (\<lambda>_. 0) sample_machine 7"

definition sample_printing :: printing where
  "sample_printing = \<lparr>prRound = (\<lambda>x. x), prV = (\<lambda>_. ''?''), prF = (\<lambda>_. ''?''), prNano = (\<lambda>n. real_of_int n / 1000000000)\<rparr>"

abbreviation sample_steps :: "time \<Rightarrow> 64 word set machine \<Rightarrow> time \<Rightarrow> 64 word set machine \<Rightarrow> bool" where
  "sample_steps \<equiv> tm_reach (sample_env 4 True) (\<lambda>_. None) (\<lambda>_. False) sample_printing"

lemma sample_machine_new: "NewMachine (sample_env 4 True) sample_bits ''4'' ''hotstuff'' False = retG sample_machine"
  by (simp add: NewMachine_def register_all_eq sample_machine_def sample_replica_def NewNode_def)

lemma sample_received_reached: "sample_steps 0 sample_machine 0 sample_received"
  unfolding sample_received_def
  by (rule tm_next [OF tm_init tm_recv [where m = "Value (VCommand 7)"]]) (simp_all add: sample_machine_def node_recv_def NewNode_def)

lemma sample_started_reached: "sample_steps 0 sample_machine 0 sample_started"
proof (rule tm_next [OF sample_received_reached tm_handle [where clk = "\<lambda>_. 0" and m = "Value (VCommand 7)" and ms = "[]"]])
  have "handles (mcNode sample_received) ''protos.Command'' = Some CallHandleCommand"
    by (simp add: sample_received_def sample_machine_def registered_def)
  then show "machine_handle (prRound sample_printing) (prV sample_printing) (prF sample_printing) (\<lambda>_. 0) sample_received = retG sample_started"
    by (simp add: machine_handle_def machine_round_def node_handle_def node_dispatch_def machine_call_def sample_received_def
        sample_started_def tm_HandleCommand_def sample_machine_def NewNode_def tm_startSignal_def)
qed (simp_all add: reads_def sample_received_def)

lemma node_ok_update [simp]:
  "node_ok (n\<lparr>nTotalCommittedTx := a\<rparr>) = node_ok n" "node_ok (n\<lparr>nThroughputAnchor := b\<rparr>) = node_ok n"
  "node_ok (n\<lparr>nBlockNumber := c\<rparr>) = node_ok n" "node_ok (n\<lparr>nReplies := d\<rparr>) = node_ok n"
  by (simp_all add: node_ok_def)

lemma node_execute_ok [simp]: "node_ok (fold (node_execute fl nts) txs n) = node_ok n"
  by (induction txs arbitrary: n) (simp_all add: node_ok_def node_execute_def)

lemma node_recv_ok: "node_recv c n m = retG n' \<Longrightarrow> node_ok n \<Longrightarrow> node_ok n'"
  by (auto simp: node_recv_def node_ok_def split: if_split_asm netmsg.split_asm go_value.split_asm option.split_asm)

lemma tm_handleQuery_node:
  "mcNode (tm_handleQuery fl fv ff clk x) = (mcNode x)\<lparr>nTotalCommittedTx := 0, nThroughputAnchor := clk 2\<rparr>"
  by (simp add: tm_handleQuery_def node_QueryNode_def Let_def)

lemma machine_call_node:
  "machine_call fl fv ff clk x (h, m) = retG x' \<Longrightarrow> node_ok (mcNode x) \<Longrightarrow> node_ok (mcNode x')"
  by (auto simp: machine_call_def tm_HandleBlock_def tm_HandleVote_def tm_HandleTmo_def tm_HandleConsensusMessage_def tm_HandleCommand_def
      tm_handleTxn_def tm_startSignal_def node_StartSignal_def tm_handleQuery_node
      split: handler.split_asm netmsg.split_asm go_value.split_asm if_split_asm elim!: bindG_RetE)

lemma machine_round_node:
  assumes "machine_round fl fv ff clk x next = retG x'" and "\<And>n call. next = retG (n, call) \<Longrightarrow> node_ok n"
  shows "node_ok (mcNode x')"
proof -
  obtain n call where n: "next = retG (n, call)" using assms(1) unfolding machine_round_def by (auto elim!: bindG_RetE)
  show ?thesis
  proof (cases call)
    case None
    with assms(1) n assms(2) [OF n] show ?thesis by (auto simp: machine_round_def)
  next
    case (Some c)
    obtain h m where c: "c = (h, m)" by fastforce
    with assms(1) n Some have "machine_call fl fv ff clk (x\<lparr>mcNode := n\<rparr>) (h, m) = retG x'" by (simp add: machine_round_def)
    from machine_call_node [OF this] assms(2) [OF n] show ?thesis by simp
  qed
qed

lemma dispatch_node:
  "node_ok n \<Longrightarrow> node_handle n = retG (n', call) \<Longrightarrow> node_ok n'" "node_ok n \<Longrightarrow> node_txn n = retG (n', call) \<Longrightarrow> node_ok n'"
  by (auto simp: node_ok_def node_handle_def node_txn_def elim!: bindG_RetE split: list.split_asm)

lemma tm_event_round_node: "tm_event_round e ans clk x ev = retG x' \<Longrightarrow> mcNode x' = mcNode x"
  by (cases ev) (auto simp: tm_processNewView_def tm_proposeBlock_def elim!: bindG_RetE split: if_split_asm)

lemma tm_Start_node: "tm_Start e ans clk x = retG x' \<Longrightarrow> mcNode x' = mcNode x"
  by (auto simp: tm_Start_def split: list.split_asm if_split_asm dest: tm_event_round_node)

lemma tm_step_node: "tm_step e ans commit_err P t x t' x' \<Longrightarrow> node_ok (mcNode x) \<Longrightarrow> node_ok (mcNode x')"
proof (induction rule: tm_step.induct)
  case (tm_recv t t' x m n)
  then show ?case by (auto dest: node_recv_ok)
next
  case (tm_http t t' m tx x)
  then show ?case by (auto simp: node_ok_def)
next
  case (tm_handle clk t t' x m ms x')
  then show ?case unfolding machine_handle_def by (elim machine_round_node) (auto intro: dispatch_node)
next
  case (tm_txn clk t t' x m ms x')
  then show ?case unfolding machine_txn_def by (elim machine_round_node) (auto intro: dispatch_node)
next
  case (tm_loop clk t t' x x')
  then show ?case by (auto dest: tm_Start_node)
next
  case (tm_timeout t t' x x')
  then show ?case by (auto simp: tm_timer_def elim!: bindG_RetE)
qed (auto simp: tm_listen_def tm_reset_def tm_entering_view_def tm_fire_def node_CommandExecution_def Let_def)

lemma tm_reach_node: "tm_reach e ans commit_err P t x t' x' \<Longrightarrow> node_ok (mcNode x) \<Longrightarrow> node_ok (mcNode x')"
  by (induction rule: tm_reach.induct) (auto intro: tm_step_node)



section \<open>What the statistics add up to\<close>

text \<open>All that a monitor keeps but the start time and the answers to queries, which the handlers change.\<close>

definition core :: "Monitor \<Rightarrow> Monitor" where
  "core m = m\<lparr>startTime := 0, thrus := [], queryReplies := []\<rparr>"

lemma core_update [simp]:
  "core (m\<lparr>startTime := a\<rparr>) = core m" "core (m\<lparr>thrus := b\<rparr>) = core m" "core (m\<lparr>queryReplies := c\<rparr>) = core m"
  by (simp_all add: core_def)

lemma core_fields:
  assumes "core m' = core m"
  shows "lastViewTime m' = lastViewTime m" "voteStart m' = voteStart m" "totalCreateDuration m' = totalCreateDuration m"
    "totalProcessDuration m' = totalProcessDuration m" "totalRoundTime m' = totalRoundTime m" "totalVoteTime m' = totalVoteTime m"
    "timerAt m' = timerAt m" "timerC m' = timerC m" "listening m' = listening m" "selecting m' = selecting m"
  using assms by (cases m; cases m'; simp add: core_def)+

lemma tm_startSignal_core [simp]: "core (mcMonitor (tm_startSignal clk x)) = core (mcMonitor x)"
  by (simp add: tm_startSignal_def)

lemma tm_handleQuery_core [simp]: "core (mcMonitor (tm_handleQuery fl fv ff clk x)) = core (mcMonitor x)"
  by (simp add: tm_handleQuery_def Let_def split: prod.split)

lemma machine_call_core: "machine_call fl fv ff clk x (h, m) = retG x' \<Longrightarrow> core (mcMonitor x') = core (mcMonitor x)"
  by (auto simp: machine_call_def tm_HandleBlock_def tm_HandleVote_def tm_HandleTmo_def tm_HandleConsensusMessage_def tm_HandleCommand_def
      tm_handleTxn_def split: handler.split_asm netmsg.split_asm go_value.split_asm if_split_asm elim!: bindG_RetE)

lemma machine_round_core: "machine_round fl fv ff clk x next = retG x' \<Longrightarrow> core (mcMonitor x') = core (mcMonitor x)"
  by (auto simp: machine_round_def elim!: bindG_RetE split: option.split_asm dest!: machine_call_core)

lemma tm_step_core:
  assumes "tm_step e ans commit_err P t x t' x'"
  obtains (same) "core (mcMonitor x') = core (mcMonitor x)"
    | (loop) clk where "reads clk t t'" "tm_Start e ans clk x = retG x'"
    | (listen) clk where "reads clk t t'" "\<not> listening (mcMonitor x)" "x' = tm_listen (cfg e) clk x"
    | (reset) clk where "reads clk t t'" "listening (mcMonitor x)" "x' = tm_reset (cfg e) clk x"
    | (view) clk where "reads clk t t'" "selecting (mcMonitor x)" "x' = tm_entering_view clk x"
    | (fire) d where "timerAt (mcMonitor x) = Some d" "d \<le> t'" "x' = tm_fire x"
    | (timeout) "selecting (mcMonitor x)" "timerC (mcMonitor x)" "tm_timer e x = retG x'"
  using assms
  by (cases rule: tm_step.cases) (auto simp: machine_handle_def machine_txn_def dest!: machine_round_core)

lemma tm_step_time: "tm_step e ans commit_err P t x t' x' \<Longrightarrow> t \<le> t'"
  by (induction rule: tm_step.induct) (auto simp: reads_def)

definition busy :: "Monitor \<Rightarrow> Duration" where
  "busy m = totalCreateDuration m + totalProcessDuration m"

text \<open>What holds of the statistics at time \<open>t\<close> of a run that began at \<open>t0\<close>.\<close>

definition acct :: "time \<Rightarrow> time \<Rightarrow> Monitor \<Rightarrow> bool" where
  "acct t0 t m \<longleftrightarrow> t0 \<le> t \<and> 0 \<le> totalCreateDuration m \<and> 0 \<le> totalProcessDuration m \<and> busy m \<le> t - t0 \<and>
     (selecting m \<longrightarrow> listening m) \<and> 0 \<le> totalRoundTime m \<and>
     (if listening m then t0 + totalRoundTime m \<le> lastViewTime m \<and> lastViewTime m \<le> t else totalRoundTime m = 0)"

definition adds :: "time \<Rightarrow> Monitor \<Rightarrow> time \<Rightarrow> Monitor \<Rightarrow> bool" where
  "adds t m t' m' \<longleftrightarrow> busy m \<le> busy m' \<and> busy m' - busy m \<le> t' - t \<and>
     (listening m \<longrightarrow> listening m' \<and> totalRoundTime m' - totalRoundTime m = lastViewTime m' - lastViewTime m)"

lemma adds_refl: "t \<le> t' \<Longrightarrow> adds t m t' m"
  by (simp add: adds_def)

lemma adds_trans: "adds t m t1 m1 \<Longrightarrow> adds t1 m1 t2 m2 \<Longrightarrow> adds t m t2 m2"
  by (auto simp: adds_def)

lemma i64_add_Sub: "0 \<le> d \<Longrightarrow> u \<le> v \<Longrightarrow> d + (v - u) < 2 ^ 63 \<Longrightarrow> i64 (d + time_Sub v u) = d + (v - u)"
  by (simp add: time_Sub_exact is_i64_def i64_nonneg_id)

inductive loop_adds :: "Duration \<Rightarrow> Monitor \<Rightarrow> Monitor \<Rightarrow> bool" where
  adds_none: "loop_adds d m m"
| adds_create: "loop_adds d m (m\<lparr>totalCreateDuration := i64 (totalCreateDuration m + d), voteStart := v\<rparr>)"
| adds_process: "loop_adds d m (m\<lparr>totalProposeDuration := u, totalProcessDuration := i64 (totalProcessDuration m + d), voteStart := v\<rparr>)"
| adds_vote: "loop_adds d m (m\<lparr>totalVoteTime := v\<rparr>)"

lemma tm_event_round_adds:
  "tm_event_round e ans clk x ev = retG x' \<Longrightarrow> loop_adds (time_Sub (clk 1) (clk 0)) (mcMonitor x) (mcMonitor x')"
proof (cases ev)
  case (EvView v)
  assume "tm_event_round e ans clk x ev = retG x'"
  with EvView have "x' = x \<or> tm_proposeBlock e ans clk x v = retG x'"
    by (auto simp: tm_processNewView_def elim!: bindG_RetE split: if_split_asm)
  then show ?thesis by (auto simp: tm_proposeBlock_def elim!: bindG_RetE intro: loop_adds.intros)
qed (auto simp del: rep_event_round.simps elim!: bindG_RetE intro: loop_adds.intros)

lemma tm_Start_adds: "tm_Start e ans clk x = retG x' \<Longrightarrow> loop_adds (time_Sub (clk 1) (clk 0)) (mcMonitor x) (mcMonitor x')"
  unfolding tm_Start_def by (auto split: list.split_asm if_split_asm intro: adds_none dest!: tm_event_round_adds)

lemma tm_Start_acct:
  assumes "acct t0 t (mcMonitor x)" and "reads clk t t'" and "t' - t0 < 2 ^ 63" and "tm_Start e ans clk x = retG x'"
  shows "acct t0 t' (mcMonitor x') \<and> adds t (mcMonitor x) t' (mcMonitor x')"
proof -
  let ?m = "mcMonitor x"
  have le: "t \<le> clk 0" "clk 0 \<le> clk 1" "clk 1 \<le> t'" "t \<le> t'" using assms(2) by (auto simp: reads_def)
  have c: "i64 (totalCreateDuration ?m + time_Sub (clk 1) (clk 0)) = totalCreateDuration ?m + (clk 1 - clk 0)"
    and p: "i64 (totalProcessDuration ?m + time_Sub (clk 1) (clk 0)) = totalProcessDuration ?m + (clk 1 - clk 0)"
    using assms(1,3) le by (intro i64_add_Sub; auto simp: acct_def busy_def)+
  from tm_Start_adds [OF assms(4)] show ?thesis using assms(1) le c p
    by (cases rule: loop_adds.cases) (auto simp: acct_def adds_def busy_def)
qed

lemma tm_step_acct:
  assumes "tm_step e ans commit_err P t x t' x'" and "acct t0 t (mcMonitor x)" and "t' - t0 < 2 ^ 63"
  shows "acct t0 t' (mcMonitor x') \<and> adds t (mcMonitor x) t' (mcMonitor x')"
  using assms(1)
proof (cases rule: tm_step_core)
  case same
  with core_fields [OF same] tm_step_time [OF assms(1)] assms(2) show ?thesis by (auto simp: acct_def adds_def busy_def)
next
  case (loop clk)
  with tm_Start_acct assms(2,3) show ?thesis by blast
next
  case (view clk)
  let ?m = "mcMonitor x"
  have le: "t \<le> clk 1" "clk 1 \<le> t'" using view(1) by (auto simp: reads_def)
  have "i64 (totalRoundTime ?m + time_Sub (clk 1) (lastViewTime ?m)) = totalRoundTime ?m + (clk 1 - lastViewTime ?m)"
    using assms(2,3) le view(2) by (intro i64_add_Sub) (auto simp: acct_def)
  then show ?thesis using view assms(2,3) le by (auto simp: tm_entering_view_def Let_def acct_def adds_def busy_def)
next
  case (timeout)
  then show ?thesis using assms(2) tm_step_time [OF assms(1)]
    by (auto simp: tm_timer_def acct_def adds_def busy_def elim!: bindG_RetE)
qed (use assms(2) tm_step_time [OF assms(1)] in \<open>auto simp: tm_listen_def tm_reset_def tm_fire_def acct_def adds_def busy_def reads_def\<close>)

lemma tm_reach_acct:
  assumes "tm_reach e ans commit_err P t x t' x'" and "acct t0 t (mcMonitor x)" and "t' - t0 < 2 ^ 63"
  shows "acct t0 t' (mcMonitor x') \<and> adds t (mcMonitor x) t' (mcMonitor x')"
  using assms
proof (induction rule: tm_reach.induct)
  case (tm_next t1 x1 t2 x2)
  have "t1 - t0 < 2 ^ 63" using tm_step_time [OF tm_next.hyps(2)] tm_next.prems(2) by linarith
  with tm_next have 1: "acct t0 t1 (mcMonitor x1)" "adds t (mcMonitor x) t1 (mcMonitor x1)" by auto
  from tm_step_acct [OF tm_next.hyps(2) 1(1) tm_next.prems(2)] adds_trans [OF 1(2)] show ?case by blast
qed (simp add: adds_refl)

text \<open>
  C24: the durations that a replica adds up are true to the clock: between any two moments of a run, creating
  and processing blocks adds no more than the time that has passed, for the event loop does one
  thing at a time; and once the listener runs, the round times add up, without gap or overlap, to the
  time from one view entered to another.
\<close>
theorem time_accounts:
  assumes "NewMachine e B i alg byz = retG x0" and "tm_reach e ans commit_err P t0 x0 t1 x1"
    and "tm_reach e ans commit_err P t1 x1 t2 x2" and "t2 - t0 < 2 ^ 63"
  shows "0 \<le> busy (mcMonitor x1) \<and> busy (mcMonitor x1) \<le> busy (mcMonitor x2) \<and> busy (mcMonitor x2) - busy (mcMonitor x1) \<le> t2 - t1 \<and>
     (listening (mcMonitor x1) \<longrightarrow> lastViewTime (mcMonitor x2) \<le> t2 \<and>
        totalRoundTime (mcMonitor x2) - totalRoundTime (mcMonitor x1) = lastViewTime (mcMonitor x2) - lastViewTime (mcMonitor x1))"
proof -
  have "acct t0 t0 (mcMonitor x0)" using NewMachine_fields [OF assms(1)] by (simp add: acct_def busy_def NewMonitor_def)
  moreover have "t1 \<le> t2" using assms(3) by (induction rule: tm_reach.induct) (auto dest: tm_step_time)
  ultimately have 1: "acct t0 t1 (mcMonitor x1)" using tm_reach_acct [OF assms(2)] assms(4) by auto
  from 1 tm_reach_acct [OF assms(3) 1 assms(4)] show ?thesis by (auto simp: acct_def adds_def busy_def)
qed

text \<open>The sample with its listener running and its timer reset.\<close>

definition sample_listening :: "64 word set machine" where
  "sample_listening = tm_reset (cfg (sample_env 4 True)) (\<lambda>_. 5) (tm_listen (cfg (sample_env 4 True)) (\<lambda>_. 3) sample_started)"

lemma sample_listening_reached: "sample_steps 0 sample_machine 5 sample_listening"
proof -
  have s: "rpStarted (mcReplica sample_started)" "\<not> listening (mcMonitor sample_started)" "\<not> selecting (mcMonitor sample_started)"
    by (simp_all add: sample_started_def tm_HandleCommand_def tm_startSignal_def HandleCommand_def rep_enqueue_def startSignal_def
        sample_machine_def NewMonitor_def)
  have "sample_steps 0 sample_machine 3 (tm_listen (cfg (sample_env 4 True)) (\<lambda>_. 3) sample_started)"
    by (rule tm_next [OF sample_started_reached tm_listens]) (use s in \<open>simp_all add: reads_def\<close>)
  then show ?thesis unfolding sample_listening_def
    by (rule tm_next [OF _ tm_resets]) (use s in \<open>simp_all add: reads_def tm_listen_def\<close>)
qed

theorem time_accounts_witness:
  "sample_steps 0 sample_machine 5 sample_listening \<and> listening (mcMonitor sample_listening) \<and>
   totalRoundTime (mcMonitor (tm_fire sample_listening)) - totalRoundTime (mcMonitor sample_listening) =
   lastViewTime (mcMonitor (tm_fire sample_listening)) - lastViewTime (mcMonitor sample_listening)"
proof -
  have l: "listening (mcMonitor sample_listening)" "timerAt (mcMonitor sample_listening) = Some (5 + GetTimerForView (cfg (sample_env 4 True)))"
    by (simp_all add: sample_listening_def tm_reset_def tm_listen_def)
  let ?t = "5 + max 0 (GetTimerForView (cfg (sample_env 4 True)))"
  have "sample_steps 5 sample_listening ?t (tm_fire sample_listening)"
    by (rule tm_next [OF tm_init tm_fires [OF l(2)]]) simp_all
  moreover have "?t < 2 ^ 63" by (simp add: sample_env_def MakeDefaultConfig_def GetTimerForView_def i64_def)
  ultimately show ?thesis
    using time_accounts [OF sample_machine_new sample_listening_reached, of ?t "tm_fire sample_listening"] l sample_listening_reached by simp
qed

section \<open>The timer of the view\<close>

lemma proposeBlock_round: "proposeBlock e ans now r view = retG r' \<Longrightarrow> roundNo r' = roundNo r"
proof -
  have "rep_make e ans r view = retG (r1, b) \<Longrightarrow> roundNo r1 = roundNo r" for r1 b
    by (auto simp: rep_make_def elim!: bindG_RetE split: if_split_asm option.split_asm)
  then show "proposeBlock e ans now r view = retG r' \<Longrightarrow> roundNo r' = roundNo r"
    unfolding proposeBlock_def Let_def by (auto elim!: bindG_RetE)
qed

lemma rep_step_round: "rep_step e ans commit_err r r' \<Longrightarrow> roundNo r \<le> roundNo r'"
proof (induction rule: rep_step.induct)
  case (step_loop now r r')
  then have "roundNo r' = roundNo r" unfolding rep_Start_def
    by (cases rule: rep_event.exhaust [of "hd (rpEvents r)"])
      (auto split: list.split_asm if_split_asm simp: processNewView_def elim!: bindG_RetE dest!: proposeBlock_round)
  then show ?case by simp
next
  case (step_committed r r')
  then show ?case
    by (auto simp: rep_committed_block_def processCommittedBlock_def Let_def split: if_split_asm option.split_asm)
next
  case (step_txn r m r')
  then show ?case by (auto simp: handleTxn_def startSignal_def Let_def elim!: bindG_RetE split: if_split_asm)
qed (auto simp: rep_decode_def HandleBlock_def HandleVote_def HandleTmo_def HandleConsensusMessage_def HandleCommand_def
    rep_enqueue_def startSignal_def rep_entering_view_def rep_timer_def rep_forked_block_def processForkedBlock_def elim!: bindG_RetE)

lemma tm_step_round: "tm_step e ans commit_err P t x t' x' \<Longrightarrow> roundNo (mcReplica x) \<le> roundNo (mcReplica x')"
  using tm_step_replica [of e ans commit_err P t x t' x'] rep_step_round by auto

text \<open>The timer, and the tick in its channel, belong to the view that was entered last.\<close>

definition in_time :: "Config \<Rightarrow> time \<Rightarrow> Monitor \<Rightarrow> bool" where
  "in_time c t m \<longleftrightarrow> listening m \<and> lastViewTime m \<le> t \<and> (timerC m \<longrightarrow> lastViewTime m + GetTimerForView c \<le> t) \<and>
     (\<forall>d. timerAt m = Some d \<longrightarrow> lastViewTime m + GetTimerForView c \<le> d)"

lemma tm_step_in_time:
  assumes "tm_step e ans commit_err P t x t' x'" and "in_time (cfg e) t (mcMonitor x)" and "roundNo (mcReplica x') = roundNo (mcReplica x)"
  shows "in_time (cfg e) t' (mcMonitor x') \<and> lastViewTime (mcMonitor x') = lastViewTime (mcMonitor x)"
  using assms(1)
proof (cases rule: tm_step_core)
  case same
  with core_fields [OF same] tm_step_time [OF assms(1)] assms(2) show ?thesis by (auto simp: in_time_def)
next
  case (loop clk)
  from tm_Start_adds [OF loop(2)] show ?thesis using assms(2) tm_step_time [OF assms(1)]
    by (cases rule: loop_adds.cases) (auto simp: in_time_def)
next
  case (view clk)
  then have "x' = x" using assms(3)
    by (auto simp: tm_entering_view_def rep_entering_view_def rep_enqueue_def Let_def split: if_split_asm)
  with assms(2) tm_step_time [OF assms(1)] show ?thesis by (auto simp: in_time_def)
next
  case timeout
  then show ?thesis using assms(2) tm_step_time [OF assms(1)] by (auto simp: tm_timer_def in_time_def elim!: bindG_RetE)
qed (use assms(2) tm_step_time [OF assms(1)] in \<open>auto simp: tm_listen_def tm_reset_def tm_fire_def in_time_def reads_def\<close>)

lemma tm_reach_round: "tm_reach e ans commit_err P t x t' x' \<Longrightarrow> roundNo (mcReplica x) \<le> roundNo (mcReplica x')"
  by (induction rule: tm_reach.induct) (auto dest!: tm_step_round)

lemma tm_reach_in_time:
  "tm_reach e ans commit_err P t x t' x' \<Longrightarrow> in_time (cfg e) t (mcMonitor x) \<Longrightarrow> roundNo (mcReplica x') = roundNo (mcReplica x) \<Longrightarrow>
     in_time (cfg e) t' (mcMonitor x') \<and> lastViewTime (mcMonitor x') = lastViewTime (mcMonitor x)"
proof (induction rule: tm_reach.induct)
  case (tm_next t1 x1 t2 x2)
  have r: "roundNo (mcReplica x1) = roundNo (mcReplica x)" "roundNo (mcReplica x2) = roundNo (mcReplica x1)"
    using tm_reach_round [OF tm_next.hyps(1)] tm_step_round [OF tm_next.hyps(2)] tm_next.prems(2) by linarith+
  with tm_next.IH [OF tm_next.prems(1) r(1)] tm_step_in_time [OF tm_next.hyps(2) _ r(2)] show ?case by simp
qed simp



text \<open>
  Entering a view and resetting the timer leave a tick of the old view in the channel. If the timer has
  fired while a new view was waiting and the view is taken first, the new view is entered, the timer reset
  and the select statement reached again in no time, with the old tick there to time the new view out.
\<close>
theorem stale_tick:
  assumes "selecting (mcMonitor x)" and "listening (mcMonitor x)" and "timerC (mcMonitor x)"
    and "rpViewsTaken (mcReplica x) < length (newViewChan (saf_pm (rpSafety (mcReplica x))))"
    and "list_all small_view (newViewChan (saf_pm (rpSafety (mcReplica x))))"
  shows "\<exists>x'. tm_reach e ans commit_err P t x t x' \<and> roundNo (mcReplica x') = roundNo (mcReplica x) + 1 \<and>
     lastViewTime (mcMonitor x') = t \<and> selecting (mcMonitor x') \<and> timerC (mcMonitor x') \<and>
     rpSafety (mcReplica x') = rpSafety (mcReplica x)"
proof -
  let ?x1 = "tm_entering_view (\<lambda>_. t) x"
  let ?x2 = "tm_reset (cfg e) (\<lambda>_. t) ?x1"
  have "reads (\<lambda>_. t) t t" by (simp add: reads_def)
  then have "tm_step e ans commit_err P t x t ?x1" using assms by (intro tm_view)
  moreover have "tm_step e ans commit_err P t ?x1 t ?x2"
    using assms \<open>reads (\<lambda>_. t) t t\<close> by (intro tm_resets) (auto simp: tm_entering_view_def Let_def)
  ultimately have "tm_reach e ans commit_err P t x t ?x2" by (blast intro: tm_init tm_next)
  with assms show ?thesis
    by (intro exI [of _ ?x2]) (auto simp: tm_entering_view_def tm_reset_def rep_entering_view_def rep_enqueue_def Let_def)
qed

text \<open>The sample with a view to enter and a tick in the channel.\<close>

definition sample_waiting :: "64 word set machine" where
  "sample_waiting = tm_fire (sample_listening\<lparr>mcReplica := (mcReplica sample_listening)\<lparr>rpSafety := saf_advance (rpSafety (mcReplica sample_listening)) 1\<rparr>\<rparr>)"

lemma sample_waiting_views:
  "newViewChan (saf_pm (rpSafety (mcReplica sample_waiting))) = [2]" "rpViewsTaken (mcReplica sample_waiting) = 0"
  by (simp_all add: sample_waiting_def tm_fire_def sample_listening_def tm_reset_def tm_listen_def sample_started_def tm_HandleCommand_def
      HandleCommand_def rep_enqueue_def startSignal_def sample_machine_def sample_replica_def NewReplica_def rep_safety_def NewHotStuff_def
      saf_advance_def advance_def AdvanceView_def NewPacemaker_def i64_def Let_def)

theorem stale_tick_witness:
  "\<exists>x'. sample_steps 9 sample_waiting 9 x' \<and> lastViewTime (mcMonitor x') = 9 \<and> selecting (mcMonitor x') \<and> timerC (mcMonitor x')"
proof -
  have "selecting (mcMonitor sample_waiting)" "listening (mcMonitor sample_waiting)" "timerC (mcMonitor sample_waiting)"
    by (simp_all add: sample_waiting_def tm_fire_def sample_listening_def tm_reset_def tm_listen_def)
  from stale_tick [OF this, of "sample_env 4 True" "\<lambda>_. None" "\<lambda>_. False" sample_printing 9] sample_waiting_views show ?thesis
    by (auto simp: small_view_def is_i64_def)
qed

text \<open>
  A view from 2 on that is entered before any block has been proposed or processed, as after timeouts,
  adds the longest duration there is, of 292 years, to the vote time; entering another takes the sum
  around to -2 nanoseconds.
\<close>
theorem vote_time_of_unset_start:
  assumes "voteStart (mcMonitor x) = 0" and "2 ^ 63 \<le> clk 0"
    and "rpViewsTaken (mcReplica x) < length (newViewChan (saf_pm (rpSafety (mcReplica x))))"
    and "2 \<le> newViewChan (saf_pm (rpSafety (mcReplica x))) ! rpViewsTaken (mcReplica x)"
  shows "totalVoteTime (mcMonitor (tm_entering_view clk x)) = i64 (totalVoteTime (mcMonitor x) + maxDuration) \<and>
     (totalVoteTime (mcMonitor x) = maxDuration \<longrightarrow> totalVoteTime (mcMonitor (tm_entering_view clk x)) = - 2)"
  using assms by (simp add: tm_entering_view_def Let_def time_Sub_unset) (simp add: maxDuration_def i64_def)

theorem vote_time_of_unset_start_witness:
  "totalVoteTime (mcMonitor (tm_entering_view (\<lambda>_. 2 ^ 64) sample_waiting)) = maxDuration"
proof -
  have "voteStart (mcMonitor sample_waiting) = 0" "totalVoteTime (mcMonitor sample_waiting) = 0"
    by (simp_all add: sample_waiting_def tm_fire_def sample_listening_def tm_reset_def tm_listen_def sample_started_def
        tm_HandleCommand_def tm_startSignal_def sample_machine_def NewMonitor_def)
  with vote_time_of_unset_start [of sample_waiting "\<lambda>_. 2 ^ 64"] sample_waiting_views show ?thesis by (simp add: maxDuration_def i64_def)
qed

end
