(* ===== verification/Transport.thy ===== *)
theory Transport
  imports Prelude "HOL-Library.Sublist"
begin

text \<open>
  The transports (transport/transport.go): how an address selects one, and the transport within a
  process, with which a simulation runs. Its channels are queues with their capacity, and each of its
  goroutines moves one message at a time; the message a goroutine holds between its two channels is
  counted with the first. The other two transports are those of \<open>Network\<close>.
\<close>

section \<open>Addresses\<close>

definition contains :: "string \<Rightarrow> string \<Rightarrow> bool" where
  "contains s sub = list_ex (\<lambda>k. take (length sub) (drop k s) = sub) [0..<Suc (length s)]"

record 'm transport =
  tpScheme :: string
  tpHost :: string
  tpSend :: "'m list"
  tpRecv :: "'m list"
  tpClosed :: bool

text \<open>\<open>parse\<close> is \<open>url.Parse\<close>, with the scheme and the host of the URL.\<close>

definition NewTransport :: "(string \<Rightarrow> (string \<times> string) option) \<Rightarrow> string \<Rightarrow> string \<Rightarrow> 'm transport go" where
  "NewTransport parse Scheme addr =
     (let addr' = (if \<not> contains addr ''://'' then Scheme @ ''://'' @ addr else addr)
      in case parse addr' of
           None \<Rightarrow> panicG LogFatal
         | Some (scheme, host) \<Rightarrow>
             if scheme = ''chan'' \<or> scheme = ''tcp'' \<or> scheme = ''udp''
             then retG \<lparr>tpScheme = scheme, tpHost = host, tpSend = [], tpRecv = [], tpClosed = False\<rparr>
             else panicG LogFatal)"

section \<open>The transport within a process\<close>

text \<open>
  All transports of the process, by number; the channel of each host; the content of the channels; and
  the goroutines: \<open>(t, c)\<close> takes from transport \<open>t\<close> to channel \<open>c\<close> (started by \<open>Dial\<close>), or from
  channel \<open>c\<close> to transport \<open>t\<close> (started by \<open>Listen\<close>).
\<close>

record 'm process =
  prTransports :: "nat \<Rightarrow> 'm transport"
  prChans :: "string \<rightharpoonup> nat"
  prQueues :: "nat \<Rightarrow> 'm list"
  prNext :: nat
  prDialers :: "(nat \<times> nat) set"
  prListeners :: "(nat \<times> nat) set"

definition pr_update :: "'m process \<Rightarrow> nat \<Rightarrow> ('m transport \<Rightarrow> 'm transport) \<Rightarrow> 'm process" where
  "pr_update p t f = p\<lparr>prTransports := (prTransports p)(t := f (prTransports p t))\<rparr>"

text \<open>\<open>Send\<close> and \<open>Recv\<close> block on a full and on an empty channel, which is no step here.\<close>

definition tp_Send :: "'m process \<Rightarrow> nat \<Rightarrow> 'm \<Rightarrow> 'm process go option" where
  "tp_Send p t m =
     (if tpClosed (prTransports p t) then Some (panicG ClosedChannel)
      else if length (tpSend (prTransports p t)) < 10240
      then Some (retG (pr_update p t (\<lambda>x. x\<lparr>tpSend := tpSend x @ [m]\<rparr>)))
      else None)"

definition tp_Recv :: "'m process \<Rightarrow> nat \<Rightarrow> ('m \<times> 'm process) option" where
  "tp_Recv p t =
     (case tpRecv (prTransports p t) of
        [] \<Rightarrow> None
      | m # rest \<Rightarrow> Some (m, pr_update p t (\<lambda>x. x\<lparr>tpRecv := rest\<rparr>)))"

definition tp_Close :: "'m process \<Rightarrow> nat \<Rightarrow> 'm process go" where
  "tp_Close p t =
     (if tpClosed (prTransports p t) then panicG ClosedChannel
      else retG (pr_update p t (\<lambda>x. x\<lparr>tpClosed := True\<rparr>)))"

definition tp_Dial :: "'m process \<Rightarrow> nat \<Rightarrow> go_error + 'm process" where
  "tp_Dial p t =
     (case prChans p (tpHost (prTransports p t)) of
        None \<Rightarrow> Inl ServerNotReady
      | Some c \<Rightarrow> Inr (p\<lparr>prDialers := insert (t, c) (prDialers p)\<rparr>))"

definition tp_Listen :: "'m process \<Rightarrow> nat \<Rightarrow> 'm process" where
  "tp_Listen p t =
     p\<lparr>prChans := (prChans p)(tpHost (prTransports p t) \<mapsto> prNext p), prQueues := (prQueues p)(prNext p := []),
       prNext := Suc (prNext p), prListeners := insert (prNext p, t) (prListeners p)\<rparr>"

text \<open>One turn of the goroutine of \<open>Dial\<close> and of \<open>Listen\<close>; \<open>None\<close> when it has to wait.\<close>

definition tp_forward :: "'m process \<Rightarrow> nat \<Rightarrow> nat \<Rightarrow> 'm process option" where
  "tp_forward p t c =
     (case tpSend (prTransports p t) of
        [] \<Rightarrow> None
      | m # rest \<Rightarrow>
          if length (prQueues p c) < 1024
          then Some ((pr_update p t (\<lambda>x. x\<lparr>tpSend := rest\<rparr>))\<lparr>prQueues := (prQueues p)(c := prQueues p c @ [m])\<rparr>)
          else None)"

definition tp_deliver :: "'m process \<Rightarrow> nat \<Rightarrow> nat \<Rightarrow> 'm process option" where
  "tp_deliver p c t =
     (case prQueues p c of
        [] \<Rightarrow> None
      | m # rest \<Rightarrow>
          if length (tpRecv (prTransports p t)) < 10240
          then Some ((pr_update p t (\<lambda>x. x\<lparr>tpRecv := tpRecv x @ [m]\<rparr>))\<lparr>prQueues := (prQueues p)(c := rest)\<rparr>)
          else None)"

section \<open>First in, first out\<close>

text \<open>
  Runs of a process with a sender \<open>d\<close> and a receiver \<open>l\<close> on channel \<open>c\<close>: \<open>pipe_run d c l p sent got p'\<close>
  leads from \<open>p\<close> to \<open>p'\<close>, with the messages sent on \<open>d\<close> and those received from \<open>l\<close>.
\<close>

inductive pipe_run :: "nat \<Rightarrow> nat \<Rightarrow> nat \<Rightarrow> 'm process \<Rightarrow> 'm list \<Rightarrow> 'm list \<Rightarrow> 'm process \<Rightarrow> bool" for d c l p where
  pipe_start: "pipe_run d c l p [] [] p"
| pipe_send: "pipe_run d c l p sent got p1 \<Longrightarrow> tp_Send p1 d m = Some (retG p2) \<Longrightarrow> pipe_run d c l p (sent @ [m]) got p2"
| pipe_forward: "pipe_run d c l p sent got p1 \<Longrightarrow> tp_forward p1 d c = Some p2 \<Longrightarrow> pipe_run d c l p sent got p2"
| pipe_deliver: "pipe_run d c l p sent got p1 \<Longrightarrow> tp_deliver p1 c l = Some p2 \<Longrightarrow> pipe_run d c l p sent got p2"
| pipe_recv: "pipe_run d c l p sent got p1 \<Longrightarrow> tp_Recv p1 l = Some (m, p2) \<Longrightarrow> pipe_run d c l p sent (got @ [m]) p2"

text \<open>What is in flight between the two, oldest first.\<close>

definition in_flight :: "'m process \<Rightarrow> nat \<Rightarrow> nat \<Rightarrow> nat \<Rightarrow> 'm list" where
  "in_flight p d c l = tpRecv (prTransports p l) @ prQueues p c @ tpSend (prTransports p d)"

definition pipe_bounded :: "'m process \<Rightarrow> nat \<Rightarrow> nat \<Rightarrow> nat \<Rightarrow> bool" where
  "pipe_bounded p d c l \<longleftrightarrow> length (tpRecv (prTransports p l)) \<le> 10240 \<and> length (prQueues p c) \<le> 1024 \<and>
     length (tpSend (prTransports p d)) \<le> 10240"

lemma pipe_run_invariant:
  assumes "pipe_run d c l p sent got p'" and "d \<noteq> l" and "in_flight p d c l = []"
  shows "sent = got @ in_flight p' d c l \<and> pipe_bounded p' d c l"
  using assms(1)
proof (induction rule: pipe_run.induct)
  case pipe_start
  with assms(3) show ?case by (simp add: in_flight_def pipe_bounded_def)
next
  case (pipe_send sent got p1 m p2)
  with assms(2) show ?case
    by (auto simp: tp_Send_def in_flight_def pipe_bounded_def pr_update_def split: if_split_asm)
next
  case (pipe_forward sent got p1 p2)
  with assms(2) show ?case
    by (auto simp: tp_forward_def in_flight_def pipe_bounded_def pr_update_def split: if_split_asm list.split_asm)
next
  case (pipe_deliver sent got p1 p2)
  with assms(2) show ?case
    by (auto simp: tp_deliver_def in_flight_def pipe_bounded_def pr_update_def split: if_split_asm list.split_asm)
next
  case (pipe_recv sent got p1 m p2)
  with assms(2) show ?case
    by (auto simp: tp_Recv_def in_flight_def pipe_bounded_def pr_update_def split: list.split_asm)
qed

lemma in_flight_progress:
  assumes "in_flight p d c l \<noteq> []"
  shows "tp_Recv p l \<noteq> None \<or> tp_deliver p c l \<noteq> None \<or> tp_forward p d c \<noteq> None"
  using assms by (auto simp: in_flight_def tp_Recv_def tp_deliver_def tp_forward_def split: list.split if_split)


text \<open>Two transports to the same host, of which the second listens and the first has dialled.\<close>

definition sample_process :: "nat process" where
  "sample_process =
     \<lparr>prTransports = (\<lambda>_. \<lparr>tpScheme = ''chan'', tpHost = ''h'', tpSend = [], tpRecv = [], tpClosed = False\<rparr>),
      prChans = Map.empty, prQueues = (\<lambda>_. []), prNext = 0, prDialers = {}, prListeners = {}\<rparr>"


end
