(* ===== verification/Network.thy ===== *)
theory Network
  imports Transport Config "HOL-Library.Word"
begin

text \<open>
  The TCP and the UDP transport (transport/transport.go). The gob encoding is the library's: for TCP, which
  keeps one encoder and one decoder per connection, \<open>enc\<close> and \<open>dec\<close> are functions of their states, and for
  UDP, which makes new ones for every message, of the message and the bytes alone. What the transports
  rely on is \<open>gob_stream\<close> and \<open>gob_packet\<close>. The network is explicit: the bytes of a connection arrive in
  pieces of any size, and datagrams arrive or not.
\<close>

type_synonym byte = "8 word"

section \<open>UDP\<close>

text \<open>
  The goroutine of \<open>Dial\<close> for one message: its buffer, to which the message is encoded and which is sent
  and reset. An encoder that fails may have written something; its error is dropped.
\<close>

definition udp_send_turn :: "('m \<Rightarrow> byte list) \<Rightarrow> byte list \<Rightarrow> 'm \<Rightarrow> byte list \<times> byte list" where
  "udp_send_turn enc w m = (let w' = w @ enc m in (w', []))"

definition udp_dial :: "go_error option \<Rightarrow> go_error option \<Rightarrow> go_error option go" where
  "udp_dial resolve connect = (if resolve \<noteq> None then panicG LogFatal else retG connect)"

record 'm udp_listener =
  udPacket :: "byte list"
  udRecv :: "'m option list"
  udClosed :: bool
  udErrors :: nat

definition udp_Listen :: "go_error option \<Rightarrow> go_error option \<Rightarrow> 'm udp_listener go" where
  "udp_Listen resolve listen =
     (if resolve \<noteq> None then panicG LogFatal
      else if listen \<noteq> None then panicG LogFatal
      else retG \<lparr>udPacket = replicate 1500 0, udRecv = [], udClosed = False, udErrors = 0\<rparr>)"

text \<open>\<open>Read\<close> copies what fits of a datagram to the front of the buffer, and leaves the rest of the buffer.\<close>

definition read_datagram :: "byte list \<Rightarrow> byte list \<Rightarrow> byte list" where
  "read_datagram packet d = take (length packet) d @ drop (length d) packet"

text \<open>
  One turn of the goroutine of \<open>Listen\<close> with a datagram or an error of the connection; \<open>None\<close> when it
  has returned or waits for room in the channel. The decoder's error is dropped too, and a value that
  could not be decoded is \<open>nil\<close>.
\<close>

definition udp_recv_turn :: "(byte list \<Rightarrow> 'm option) \<Rightarrow> 'm udp_listener \<Rightarrow> go_error + byte list \<Rightarrow> 'm udp_listener option" where
  "udp_recv_turn dec u arrival =
     (if udClosed u then None
      else case arrival of
        Inl err \<Rightarrow> Some (u\<lparr>udErrors := Suc (udErrors u)\<rparr>)
      | Inr d \<Rightarrow>
          if length (udRecv u) < 10240
          then let packet = read_datagram (udPacket u) d
               in Some (u\<lparr>udPacket := packet, udRecv := udRecv u @ [dec packet]\<rparr>)
          else None)"

text \<open>
  What the library promises of an encoder and a decoder for one message: the decoder finds the message at
  the front of its input, whatever follows, and fails on a part of it and on no input at all.
\<close>

definition gob_packet :: "('m \<Rightarrow> byte list) \<Rightarrow> (byte list \<Rightarrow> 'm option) \<Rightarrow> bool" where
  "gob_packet enc dec \<longleftrightarrow> (\<forall>m rest. dec (enc m @ rest) = Some m) \<and> (\<forall>m k. k < length (enc m) \<longrightarrow> dec (take k (enc m)) = None)"

lemma read_datagram_length: "length (read_datagram packet d) = length packet"
  by (simp add: read_datagram_def)

lemma read_datagram_message:
  assumes "gob_packet enc dec"
  shows "dec (read_datagram packet (enc m)) = (if length (enc m) \<le> length packet then Some m else None)"
  using assms by (auto simp: gob_packet_def read_datagram_def)

text \<open>The datagrams of the messages \<open>ms\<close>, in the order in which they are read.\<close>

fun udp_exchange :: "('m \<Rightarrow> byte list) \<Rightarrow> (byte list \<Rightarrow> 'm option) \<Rightarrow> byte list \<Rightarrow> 'm udp_listener \<Rightarrow> 'm list \<Rightarrow> 'm udp_listener option" where
  "udp_exchange enc dec w u [] = Some u"
| "udp_exchange enc dec w u (m # ms) =
     (case udp_send_turn enc w m of (d, w') \<Rightarrow>
        (case udp_recv_turn dec u (Inr d) of
           None \<Rightarrow> None
         | Some u' \<Rightarrow> udp_exchange enc dec w' u' ms))"


text \<open>A concrete encoding of bytes: a byte is preceded by a one.\<close>

definition tag_enc :: "byte \<Rightarrow> byte list" where
  "tag_enc b = [1, b]"

definition tag_dec :: "byte list \<Rightarrow> byte option" where
  "tag_dec bs = (case bs of x # b # rest \<Rightarrow> if x = 1 then Some b else None | _ \<Rightarrow> None)"

lemma tag_packet: "gob_packet tag_enc tag_dec"
  by (auto simp: gob_packet_def tag_enc_def tag_dec_def less_Suc_eq)

definition fresh_listener :: "byte udp_listener" where
  "fresh_listener = \<lparr>udPacket = replicate 1500 0, udRecv = [], udClosed = False, udErrors = 0\<rparr>"


text \<open>
  A datagram without content delivers the previous message again, because the number of bytes that
  \<open>Read\<close> reports is not used.
\<close>
theorem udp_repeats_on_empty_datagram:
  assumes "gob_packet enc dec" and "\<not> udClosed u" and "length (udPacket u) = 1500" and "length (udRecv u) < 10239"
    and "length (enc m) \<le> 1500" and "udp_recv_turn dec u (Inr (enc m)) = Some u1"
  shows "\<exists>u2. udp_recv_turn dec u1 (Inr []) = Some u2 \<and> udRecv u2 = udRecv u @ [Some m, Some m]"
proof -
  have u1: "u1 = u\<lparr>udPacket := read_datagram (udPacket u) (enc m), udRecv := udRecv u @ [Some m]\<rparr>"
    using assms read_datagram_message [OF assms(1), of "udPacket u" m] by (simp add: udp_recv_turn_def Let_def)
  have "read_datagram p [] = p" for p by (simp add: read_datagram_def)
  with assms read_datagram_message [OF assms(1), of "udPacket u" m] show ?thesis
    by (simp add: udp_recv_turn_def u1 Let_def)
qed

theorem udp_repeats_on_empty_datagram_witness:
  "\<exists>u1 u2. udp_recv_turn tag_dec fresh_listener (Inr (tag_enc 7)) = Some u1 \<and> udp_recv_turn tag_dec u1 (Inr []) = Some u2 \<and>
     udRecv u2 = [Some 7, Some 7]"
proof -
  obtain u1 where u1: "udp_recv_turn tag_dec fresh_listener (Inr (tag_enc 7)) = Some u1"
    by (simp add: udp_recv_turn_def fresh_listener_def Let_def)
  from udp_repeats_on_empty_datagram [OF tag_packet _ _ _ _ u1] u1 show ?thesis
    by (auto simp: fresh_listener_def tag_enc_def)
qed

section \<open>TCP\<close>

text \<open>
  A connection from the goroutine of \<open>Dial\<close> to that of \<open>Listen\<close> for it: the messages to be sent, the bytes
  under way and those that have arrived, and the messages received. Both ends log their errors and go on.
\<close>

record ('m, 'e, 'd) tcp_conn =
  tcSend :: "'m list"
  tcSendClosed :: bool
  tcEnc :: 'e
  tcOpen :: bool
  tcWire :: "byte list"
  tcInput :: "byte list"
  tcDec :: 'd
  tcRecv :: "'m list"
  tcClosed :: bool
  tcErrors :: nat

definition tcp_Dial :: "'e \<Rightarrow> 'd \<Rightarrow> 'm list \<Rightarrow> go_error option \<Rightarrow> go_error + ('m, 'e, 'd) tcp_conn" where
  "tcp_Dial e d sent connect =
     (case connect of
        Some err \<Rightarrow> Inl err
      | None \<Rightarrow> Inr \<lparr>tcSend = sent, tcSendClosed = False, tcEnc = e, tcOpen = True, tcWire = [], tcInput = [], tcDec = d,
                   tcRecv = [], tcClosed = False, tcErrors = 0\<rparr>)"

text \<open>\<open>Listen\<close> fails when the port is taken; a failing \<open>Accept\<close> is logged and tried again.\<close>

fun tcp_Accept :: "(go_error + 'c) list \<Rightarrow> 'c list \<times> nat" where
  "tcp_Accept [] = ([], 0)"
| "tcp_Accept (Inl err # rest) = (case tcp_Accept rest of (cs, n) \<Rightarrow> (cs, Suc n))"
| "tcp_Accept (Inr c # rest) = (case tcp_Accept rest of (cs, n) \<Rightarrow> (c # cs, n))"

definition tcp_Listen :: "go_error option \<Rightarrow> (go_error + 'c) list \<Rightarrow> ('c list \<times> nat) go" where
  "tcp_Listen listen accepts = (if listen \<noteq> None then panicG LogFatal else retG (tcp_Accept accepts))"

text \<open>\<open>enc\<close> gives the encoder's new state, the bytes it writes and whether it has failed.\<close>

definition tcp_send_turn ::
  "('e \<Rightarrow> 'm \<Rightarrow> 'e \<times> byte list \<times> bool) \<Rightarrow> ('m, 'e, 'd) tcp_conn \<Rightarrow> ('m, 'e, 'd) tcp_conn option" where
  "tcp_send_turn enc c =
     (if \<not> tcOpen c then None
      else case tcSend c of
        [] \<Rightarrow> if tcSendClosed c then Some (c\<lparr>tcOpen := False\<rparr>) else None
      | m # rest \<Rightarrow>
          (case enc (tcEnc c) m of (e', bs, failed) \<Rightarrow>
             let c' = c\<lparr>tcSend := rest, tcEnc := e', tcWire := tcWire c @ bs\<rparr>
             in Some (if failed then c'\<lparr>tcErrors := Suc (tcErrors c')\<rparr> else c')))"

text \<open>\<open>k\<close> bytes arrive.\<close>

definition tcp_arrive :: "nat \<Rightarrow> ('m, 'e, 'd) tcp_conn \<Rightarrow> ('m, 'e, 'd) tcp_conn" where
  "tcp_arrive k c = c\<lparr>tcInput := tcInput c @ take k (tcWire c), tcWire := drop k (tcWire c)\<rparr>"

text \<open>
  One turn of the reading goroutine: \<open>None\<close> when it has returned or waits, for bytes or for room. \<open>dec\<close>
  gives a message, the decoder's new state and the bytes left over, if its input has a whole message; at
  the end of a connection that has been closed, \<open>Decode\<close> fails at once.
\<close>

definition tcp_recv_turn ::
  "('d \<Rightarrow> byte list \<Rightarrow> ('d \<times> 'm \<times> byte list) option) \<Rightarrow> ('m, 'e, 'd) tcp_conn \<Rightarrow> ('m, 'e, 'd) tcp_conn option" where
  "tcp_recv_turn dec c =
     (if tcClosed c then None
      else case dec (tcDec c) (tcInput c) of
        Some (d', m, rest) \<Rightarrow>
          if length (tcRecv c) < 10240 then Some (c\<lparr>tcDec := d', tcInput := rest, tcRecv := tcRecv c @ [m]\<rparr>) else None
      | None \<Rightarrow>
          if \<not> tcOpen c \<and> tcWire c = [] then Some (c\<lparr>tcErrors := Suc (tcErrors c)\<rparr>) else None)"

definition gob_stream ::
  "('e \<Rightarrow> 'm \<Rightarrow> 'e \<times> byte list \<times> bool) \<Rightarrow> ('d \<Rightarrow> byte list \<Rightarrow> ('d \<times> 'm \<times> byte list) option) \<Rightarrow> ('e \<Rightarrow> 'd \<Rightarrow> bool) \<Rightarrow> bool" where
  "gob_stream enc dec sync \<longleftrightarrow> (\<forall>e d m e' bs. sync e d \<and> enc e m = (e', bs, False) \<longrightarrow>
     (\<exists>d'. sync e' d' \<and> (\<forall>rest. dec d (bs @ rest) = Some (d', m, rest))) \<and> (\<forall>k < length bs. dec d (take k bs) = None)) \<and>
     (\<forall>d. dec d [] = None)"

text \<open>
  Runs of a connection: \<open>Send\<close> at one end, \<open>Recv\<close> at the other, and the turns of the goroutines and the
  arrival of bytes between them in any order.
\<close>

inductive tcp_run ::
  "('e \<Rightarrow> 'm \<Rightarrow> 'e \<times> byte list \<times> bool) \<Rightarrow> ('d \<Rightarrow> byte list \<Rightarrow> ('d \<times> 'm \<times> byte list) option) \<Rightarrow>
    ('m, 'e, 'd) tcp_conn \<Rightarrow> 'm list \<Rightarrow> 'm list \<Rightarrow> ('m, 'e, 'd) tcp_conn \<Rightarrow> bool" for enc dec c where
  tcp_start: "tcp_run enc dec c [] [] c"
| tcp_send: "tcp_run enc dec c sent got c1 \<Longrightarrow> \<not> tcSendClosed c1 \<Longrightarrow> length (tcSend c1) < 10240 \<Longrightarrow>
    tcp_run enc dec c (sent @ [m]) got (c1\<lparr>tcSend := tcSend c1 @ [m]\<rparr>)"
| tcp_write: "tcp_run enc dec c sent got c1 \<Longrightarrow> tcp_send_turn enc c1 = Some c2 \<Longrightarrow> tcp_run enc dec c sent got c2"
| tcp_bytes: "tcp_run enc dec c sent got c1 \<Longrightarrow> tcp_run enc dec c sent got (tcp_arrive k c1)"
| tcp_read: "tcp_run enc dec c sent got c1 \<Longrightarrow> tcp_recv_turn dec c1 = Some c2 \<Longrightarrow> tcp_run enc dec c sent got c2"
| tcp_take: "tcp_run enc dec c sent got c1 \<Longrightarrow> tcRecv c1 = m # rest \<Longrightarrow>
    tcp_run enc dec c sent (got @ [m]) (c1\<lparr>tcRecv := rest\<rparr>)"
| tcp_close: "tcp_run enc dec c sent got c1 \<Longrightarrow> tcp_run enc dec c sent got (c1\<lparr>tcSendClosed := True\<rparr>)"

fun enc_all :: "('e \<Rightarrow> 'm \<Rightarrow> 'e \<times> byte list \<times> bool) \<Rightarrow> 'e \<Rightarrow> 'm list \<Rightarrow> 'e \<times> byte list" where
  "enc_all enc e [] = (e, [])"
| "enc_all enc e (m # ms) =
     (case enc e m of (e', bs, _) \<Rightarrow> (case enc_all enc e' ms of (e'', bs') \<Rightarrow> (e'', bs @ bs')))"

lemma enc_all_snoc:
  "enc_all enc e ms = (e', bs) \<Longrightarrow> enc e' m = (e'', bs', failed) \<Longrightarrow> enc_all enc e (ms @ [m]) = (e'', bs @ bs')"
  by (induction ms arbitrary: e bs) (auto split: prod.split_asm)

text \<open>The messages \<open>ms\<close> are under way, from the decoder's state \<open>d\<close> on.\<close>

definition under_way ::
  "('e \<Rightarrow> 'm \<Rightarrow> 'e \<times> byte list \<times> bool) \<Rightarrow> ('e \<Rightarrow> 'd \<Rightarrow> bool) \<Rightarrow> ('m, 'e, 'd) tcp_conn \<Rightarrow> 'm list \<Rightarrow> bool" where
  "under_way enc sync c ms \<longleftrightarrow> (\<exists>e. sync e (tcDec c) \<and> enc_all enc e ms = (tcEnc c, tcInput c @ tcWire c))"

lemma under_way_read:
  assumes "gob_stream enc dec sync" and "under_way enc sync c ms" and "dec (tcDec c) (tcInput c) = Some (d', m, rest)"
    and "\<And>e. \<forall>m \<in> set ms. \<not> snd (snd (enc e m))"
  shows "\<exists>ms'. ms = m # ms' \<and> under_way enc sync (c\<lparr>tcDec := d', tcInput := rest, tcRecv := r\<rparr>) ms'"
proof (cases ms)
  case Nil
  with assms(1-3) show ?thesis by (auto simp: under_way_def gob_stream_def)
next
  case (Cons p ms')
  obtain e where e: "sync e (tcDec c)" "enc_all enc e ms = (tcEnc c, tcInput c @ tcWire c)"
    using assms(2) by (auto simp: under_way_def)
  obtain e' bs bs' where enc: "enc e p = (e', bs, False)" "enc_all enc e' ms' = (tcEnc c, bs')" "tcInput c @ tcWire c = bs @ bs'"
    using e(2) assms(4) [of e] by (auto simp: Cons split: prod.split_asm)
  from assms(1) e(1) enc(1) obtain d'' where d: "sync e' d''" "\<And>rest. dec (tcDec c) (bs @ rest) = Some (d'', p, rest)"
      "\<And>k. k < length bs \<Longrightarrow> dec (tcDec c) (take k bs) = None"
    unfolding gob_stream_def by metis
  have "\<not> length (tcInput c) < length bs"
  proof
    assume l: "length (tcInput c) < length bs"
    then have "tcInput c = take (length (tcInput c)) bs" using arg_cong [OF enc(3), of "take (length (tcInput c))"] by simp
    with d(3) [OF l] assms(3) show False by simp
  qed
  then have x: "tcInput c = bs @ drop (length bs) (tcInput c)" "bs' = drop (length bs) (tcInput c) @ tcWire c"
    using arg_cong [OF enc(3), of "take (length bs)"] arg_cong [OF enc(3), of "drop (length bs)"]
      append_take_drop_id [of "length bs" "tcInput c"] by (simp_all add: not_less)
  then have "d' = d''" "m = p" "rest = drop (length bs) (tcInput c)" using d(2) [of "drop (length bs) (tcInput c)"] assms(3) by auto
  with d(1) enc(2) x(2) show ?thesis by (auto simp: Cons under_way_def)
qed

lemma tcp_run_invariant:
  assumes "gob_stream enc dec sync" and "tcp_Dial e d [] None = Inr c" and "sync e d"
    and "tcp_run enc dec c sent got c'" and "\<And>e. \<forall>m \<in> set sent. \<not> snd (snd (enc e m))"
  shows "\<exists>ms. sent = got @ tcRecv c' @ ms @ tcSend c' \<and> under_way enc sync c' ms"
  using assms(4,5)
proof (induction rule: tcp_run.induct)
  case tcp_start
  with assms(2,3) show ?case by (auto simp: tcp_Dial_def under_way_def)
next
  case (tcp_send sent got c1 m)
  then show ?case by (fastforce simp: under_way_def)
next
  case (tcp_write sent got c1 c2)
  then obtain ms where ms: "sent = got @ tcRecv c1 @ ms @ tcSend c1" "under_way enc sync c1 ms" by blast
  then obtain e0 where e0: "sync e0 (tcDec c1)" "enc_all enc e0 ms = (tcEnc c1, tcInput c1 @ tcWire c1)"
    by (auto simp: under_way_def)
  show ?case
  proof (cases "tcSend c1")
    case Nil
    with tcp_write.hyps ms show ?thesis by (auto simp: tcp_send_turn_def under_way_def split: if_split_asm)
  next
    case (Cons m rest)
    obtain e' bs failed where enc: "enc (tcEnc c1) m = (e', bs, failed)" by (metis prod_cases3)
    have "under_way enc sync c2 (ms @ [m]) \<and> tcSend c2 = rest \<and> tcRecv c2 = tcRecv c1"
      using tcp_write.hyps(2) Cons enc enc_all_snoc [OF e0(2) enc] e0(1)
      by (auto simp: tcp_send_turn_def under_way_def Let_def split: if_split_asm)
    with ms(1) Cons show ?thesis by (intro exI [of _ "ms @ [m]"]) simp
  qed
next
  case (tcp_bytes sent got c1 k)
  then show ?case by (auto simp: tcp_arrive_def under_way_def)
next
  case (tcp_read sent got c1 c2)
  then obtain ms where ms: "sent = got @ tcRecv c1 @ ms @ tcSend c1" "under_way enc sync c1 ms" by blast
  show ?case
  proof (cases "dec (tcDec c1) (tcInput c1)")
    case None
    with tcp_read.hyps ms show ?thesis by (auto simp: tcp_recv_turn_def under_way_def split: if_split_asm)
  next
    case (Some x)
    obtain d' m rest where [simp]: "x = (d', m, rest)" by (metis prod_cases3)
    have c2: "c2 = c1\<lparr>tcDec := d', tcInput := rest, tcRecv := tcRecv c1 @ [m]\<rparr>"
      using tcp_read.hyps(2) Some by (auto simp: tcp_recv_turn_def split: if_split_asm)
    have "\<And>e. \<forall>m \<in> set ms. \<not> snd (snd (enc e m))" using tcp_read.prems ms(1) by auto
    from under_way_read [OF assms(1) ms(2) Some [simplified] this, of "tcRecv c1 @ [m]"] ms(1) show ?thesis by (auto simp: c2)
  qed
next
  case (tcp_take sent got c1 m rest)
  then show ?case by (auto simp: under_way_def)
next
  case (tcp_close sent got c1)
  then show ?case by (auto simp: under_way_def)
qed

text \<open>
  C32: over a TCP connection, messages that can be encoded are received in the order in which they were
  sent, none twice and none changed, however their bytes are cut into pieces on the way; when nothing is
  left to be written or to arrive and the decoder has no whole message left, all have been received.
\<close>
theorem tcp_in_order:
  assumes "gob_stream enc dec sync" and "tcp_Dial e d [] None = Inr c" and "sync e d"
    and "tcp_run enc dec c sent got c'" and "\<And>e. \<forall>m \<in> set sent. \<not> snd (snd (enc e m))"
  shows "prefix (got @ tcRecv c') sent \<and>
     (tcSend c' = [] \<and> tcWire c' = [] \<and> dec (tcDec c') (tcInput c') = None \<longrightarrow> got @ tcRecv c' = sent)"
proof -
  obtain ms where ms: "sent = got @ tcRecv c' @ ms @ tcSend c'" "under_way enc sync c' ms"
    using tcp_run_invariant [OF assms] by blast
  have "ms = []" if none: "tcWire c' = []" "dec (tcDec c') (tcInput c') = None"
  proof (cases ms)
    case (Cons m ms')
    obtain e0 where e0: "sync e0 (tcDec c')" "enc_all enc e0 (m # ms') = (tcEnc c', tcInput c')"
      using ms(2) none(1) by (auto simp: under_way_def Cons)
    have "\<not> snd (snd (enc e0 m))" using ms(1) assms(5) by (auto simp: Cons)
    with e0(2) obtain e' bs bs' where "enc e0 m = (e', bs, False)" "bs @ bs' = tcInput c'"
      by (auto split: prod.split_asm)
    with assms(1) e0(1) none(2) show ?thesis unfolding gob_stream_def by (metis option.distinct(1))
  qed simp
  with ms(1) show ?thesis by auto
qed

text \<open>An encoder that numbers its messages, and a decoder that expects the numbers.\<close>

definition count_enc :: "byte \<Rightarrow> byte \<Rightarrow> byte \<times> byte list \<times> bool" where
  "count_enc n b = (n + 1, [n, b], False)"

definition count_dec :: "byte \<Rightarrow> byte list \<Rightarrow> (byte \<times> byte \<times> byte list) option" where
  "count_dec n bs = (case bs of x # b # rest \<Rightarrow> if x = n then Some (n + 1, b, rest) else None | _ \<Rightarrow> None)"

lemma count_stream: "gob_stream count_enc count_dec (=)"
  by (auto simp: gob_stream_def count_enc_def count_dec_def less_Suc_eq)

theorem tcp_in_order_witness:
  "\<exists>c c'. tcp_Dial 0 (0 :: byte) [] None = Inr c \<and> tcp_run count_enc count_dec c [7, 9] [] c' \<and> tcRecv c' = [7, 9] \<and> tcWire c' = []"
proof -
  obtain c where c: "tcp_Dial (0 :: byte) (0 :: byte) [] None = Inr c" "tcSend c = ([] :: byte list)" "\<not> tcSendClosed c" "tcOpen c"
      "tcEnc c = 0" "tcDec c = 0" "tcWire c = []" "tcInput c = []" "tcRecv c = []" "\<not> tcClosed c"
    by (simp add: tcp_Dial_def)
  define c1 where "c1 = c\<lparr>tcSend := [7, 9]\<rparr>"
  define c2 where "c2 = c\<lparr>tcEnc := 2, tcWire := [0, 7, 1, 9]\<rparr>"
  define c3 where "c3 = c\<lparr>tcEnc := 2, tcInput := [], tcWire := [], tcDec := 2, tcRecv := [7, 9]\<rparr>"
  have r1: "tcp_run count_enc count_dec c [7, 9] [] c1"
  proof -
    have "tcp_run count_enc count_dec c ([] @ [7]) [] (c\<lparr>tcSend := tcSend c @ [7]\<rparr>)"
      by (rule tcp_send [OF tcp_start]) (simp_all add: c)
    from tcp_send [OF this, of 9] c show ?thesis by (simp add: c1_def)
  qed
  obtain d where d: "tcp_send_turn count_enc c1 = Some d" "tcp_send_turn count_enc d = Some c2"
    using c by (simp add: c1_def c2_def tcp_send_turn_def count_enc_def)
  have r2: "tcp_run count_enc count_dec c [7, 9] [] (tcp_arrive 1 (tcp_arrive 3 c2))"
    by (intro tcp_bytes tcp_write [OF tcp_write [OF r1 d(1)] d(2)])
  obtain f where f: "tcp_recv_turn count_dec (tcp_arrive 1 (tcp_arrive 3 c2)) = Some f" "tcp_recv_turn count_dec f = Some c3"
    using c by (simp add: c2_def c3_def tcp_recv_turn_def tcp_arrive_def count_dec_def)
  have r3: "tcp_run count_enc count_dec c [7, 9] [] c3" by (rule tcp_read [OF tcp_read [OF r2 f(1)] f(2)])
  have "prefix ([] @ tcRecv c3) [7, 9]" using tcp_in_order [OF count_stream c(1) refl r3] by (simp add: count_enc_def)
  with c(1) r3 show ?thesis by (intro exI [of _ c] exI [of _ c3]) (simp add: c3_def)
qed

text \<open>\<open>n\<close> turns of the reading goroutine.\<close>

fun tcp_recv_turns ::
  "('d \<Rightarrow> byte list \<Rightarrow> ('d \<times> 'm \<times> byte list) option) \<Rightarrow> nat \<Rightarrow> ('m, 'e, 'd) tcp_conn \<Rightarrow> ('m, 'e, 'd) tcp_conn option" where
  "tcp_recv_turns dec 0 c = Some c"
| "tcp_recv_turns dec (Suc n) c = (case tcp_recv_turn dec c of None \<Rightarrow> None | Some c' \<Rightarrow> tcp_recv_turns dec n c')"

text \<open>
  When the peer has closed a connection and its bytes have been read, the reading goroutine neither
  waits nor returns: every further turn fails to decode, logs an error and tries again, until the
  listening transport itself is closed.
\<close>
theorem tcp_reader_spins:
  assumes "\<not> tcClosed c" and "\<not> tcOpen c" and "tcWire c = []" and "dec (tcDec c) (tcInput c) = None"
  shows "tcp_recv_turns dec n c = Some (c\<lparr>tcErrors := tcErrors c + n\<rparr>)"
  using assms
proof (induction n arbitrary: c)
  case (Suc n)
  from Suc.IH [of "c\<lparr>tcErrors := Suc (tcErrors c)\<rparr>"] Suc.prems show ?case by (simp add: tcp_recv_turn_def)
qed simp

theorem tcp_reader_spins_witness:
  "\<exists>c c1 c2. tcp_Dial 0 (0 :: byte) [] None = Inr c \<and> tcp_send_turn count_enc (c\<lparr>tcSendClosed := True\<rparr>) = Some c1 \<and>
     tcp_recv_turns count_dec 1000 c1 = Some c2 \<and> tcErrors c2 = 1000 \<and> \<not> tcClosed c2"
proof -
  obtain c c1 where c: "tcp_Dial (0 :: byte) (0 :: byte) [] None = Inr c" "tcp_send_turn count_enc (c\<lparr>tcSendClosed := True\<rparr>) = Some c1"
      "\<not> tcOpen c1" "\<not> tcClosed c1" "tcWire c1 = []" "tcInput c1 = []" "tcErrors c1 = 0"
    by (simp add: tcp_Dial_def tcp_send_turn_def)
  have "count_dec (tcDec c1) (tcInput c1) = None" by (simp add: c(6) count_dec_def)
  from tcp_reader_spins [where dec = count_dec and n = 1000, OF c(4,3,5) this] c show ?thesis by auto
qed

section \<open>The simulation\<close>

text \<open>\<open>Simulation\<close> sets the scheme that addresses without one get; \<open>addresses\<close> are those of a loaded configuration.\<close>

definition Simulation :: "string \<Rightarrow> string" where
  "Simulation Scheme = ''chan''"

lemma contains_prefix: "contains (''tcp://'' @ s) ''://''"
  unfolding contains_def list_ex_iff by (rule bexI [of _ 3]) (simp_all del: upt_Suc)

lemma update_entry: "x \<in> set (AList.update k v al) \<Longrightarrow> x = (k, v) \<or> x \<in> set al"
  by (induction al) (auto split: if_split_asm)

lemma load_lines_tcp:
  "(i, a) \<in> set (Addrs (load_lines c k ips)) \<Longrightarrow> distinct (map fst (Addrs c)) \<Longrightarrow> (i, a) \<notin> set (Addrs c) \<Longrightarrow> \<exists>s. a = ''tcp://'' @ s"
proof (induction ips arbitrary: c k)
  case (Cons ip ips)
  show ?case
  proof (cases "(i, a) \<in> set (AList.update (NewNodeID (int k)) (''tcp://'' @ ip @ '':'' @ Itoa (3734 + int k)) (Addrs c))")
    case True
    with Cons.prems(3) have "a = ''tcp://'' @ ip @ '':'' @ Itoa (3734 + int k)" by (auto dest: update_entry)
    then show ?thesis by blast
  next
    case False
    with Cons.IH [of "c\<lparr>Addrs := AList.update (NewNodeID (int k)) (''tcp://'' @ ip @ '':'' @ Itoa (3734 + int k)) (Addrs c),
        HTTPAddrs := AList.update (NewNodeID (int k)) (''http://'' @ ip @ '':'' @ Itoa (8069 + int k)) (HTTPAddrs c)\<rparr>" "Suc k"] Cons.prems
    show ?thesis by (simp add: Let_def distinct_update)
  qed
qed simp

text \<open>
  A simulation does not use the transport within a process. The addresses that \<open>Load\<close> makes from the
  lines of ips.txt carry the scheme \<open>tcp\<close>, so the transport made for one of them is the same whether
  \<open>Simulation\<close> has set the scheme or not, and it is not the channel when the address is parsed as written.
\<close>
theorem simulation_uses_tcp:
  assumes "distinct (map fst (Addrs c))" and "(i, a) \<in> set (Addrs (Load c ips))" and "(i, a) \<notin> set (Addrs c)"
    and "\<And>s scheme host. parse (''tcp://'' @ s) = Some (scheme, host) \<Longrightarrow> scheme = ''tcp''"
  shows "NewTransport parse (Simulation Scheme) a = NewTransport parse Scheme a \<and>
     (\<forall>t. NewTransport parse (Simulation Scheme) a = retG t \<longrightarrow> tpScheme t = ''tcp'')"
proof -
  obtain s where a: "a = ''tcp://'' @ s" using load_lines_tcp [of i a c 1 ips] assms(1-3) by (auto simp: Load_def Let_def)
  have "contains a ''://''" unfolding a by (rule contains_prefix)
  with assms(4) [of s] show ?thesis by (auto simp: NewTransport_def Let_def a split: option.split)
qed

definition split_url :: "string \<Rightarrow> (string \<times> string) option" where
  "split_url a = (if take 6 a = ''tcp://'' then Some (''tcp'', drop 6 a) else None)"

theorem simulation_uses_tcp_witness:
  "\<exists>i a. (i, a) \<in> set (Addrs (Load MakeDefaultConfig [''10.0.0.1''])) \<and>
     (\<forall>t :: nat transport. NewTransport split_url (Simulation ''tcp'') a = retG t \<longrightarrow> tpScheme t = ''tcp'') \<and>
     NewTransport split_url (Simulation ''tcp'') a \<noteq> (panicG LogFatal :: nat transport go)"
proof -
  let ?c = "Load MakeDefaultConfig [''10.0.0.1'']"
  obtain i a where a: "Addrs ?c = [(i, a)]" "a = ''tcp://10.0.0.1:'' @ Itoa 3735"
    by (simp add: Load_def MakeDefaultConfig_def Let_def)
  have m: "(i, a) \<in> set (Addrs ?c)" by (simp add: a(1))
  have "NewTransport split_url (Simulation ''tcp'') a \<noteq> (panicG LogFatal :: nat transport go)"
    using contains_prefix [of "''10.0.0.1:'' @ Itoa 3735"] by (simp add: NewTransport_def a(2) split_url_def)
  with simulation_uses_tcp [OF _ m, of split_url "''tcp''"] m show ?thesis
    by (auto simp: MakeDefaultConfig_def split_url_def)
qed

end
