(* ===== verification/Log.thy ===== *)
theory Log
  imports Prelude "HOL-Library.Sublist"
begin

text \<open>
  The logger (log/log.go). What its writers have received is \<open>lgWritten\<close>, oldest first: the writers, the
  prefix and the text of each line; the date, the time and the position that the library puts between them
  are not modelled. The texts that \<open>fmt\<close> makes of the arguments come from \<open>sprint\<close> and \<open>sprintf\<close>.
\<close>

section \<open>Severities\<close>

type_synonym severity = int

definition DEBUG :: severity where "DEBUG = 0"
definition INFO :: severity where "INFO = 1"
definition WARNING :: severity where "WARNING = 2"
definition ERROR :: severity where "ERROR = 3"

definition severity_names :: "string list" where
  "severity_names = [''DEBUG'', ''INFO'', ''WARNING'', ''ERROR'']"

text \<open>\<open>strings.ToUpper\<close> on the letters of ASCII.\<close>

definition upper_char :: "char \<Rightarrow> char" where
  "upper_char c = (if 97 \<le> (of_char c :: nat) \<and> (of_char c :: nat) \<le> 122 then char_of ((of_char c :: nat) - 32) else c)"

definition ToUpper :: "string \<Rightarrow> string" where
  "ToUpper s = map upper_char s"

definition severity_Get :: "severity \<Rightarrow> severity" where
  "severity_Get s = s"

fun find_name :: "string \<Rightarrow> severity \<Rightarrow> string list \<Rightarrow> severity \<Rightarrow> severity" where
  "find_name v i [] threshold = threshold"
| "find_name v i (name # rest) threshold = find_name v (i + 1) rest (if name = v then i else threshold)"

definition severity_Set :: "string \<Rightarrow> severity" where
  "severity_Set v = find_name (ToUpper v) 0 severity_names INFO"

definition severity_String :: "severity \<Rightarrow> string go" where
  "severity_String s =
     (if 0 \<le> s \<and> nat s < length severity_names then retG (severity_names ! nat s) else panicG IndexOutOfRange)"

lemma upper_char_simps [simp]: "upper_char c = c" if "of_char c < (97 :: nat)"
  using that by (simp add: upper_char_def)

lemma ToUpper_names: "n \<in> set severity_names \<Longrightarrow> ToUpper n = n"
  by (auto simp: severity_names_def ToUpper_def)

text \<open>
  Setting the level and printing it is a round trip. The printed name of each of the four levels sets
  that level again, and whatever text a level is set from, printing it does not fail and gives the text
  in upper case when that names a level and INFO when it does not.
\<close>
theorem severity_round_trip:
  "severity_String (severity_Set v) = retG (if ToUpper v \<in> set severity_names then ToUpper v else ''INFO'') \<and>
   (severity_String s = retG n \<longrightarrow> severity_Set n = s)"
proof
  show "severity_String (severity_Set v) = retG (if ToUpper v \<in> set severity_names then ToUpper v else ''INFO'')"
    by (simp add: severity_Set_def severity_names_def severity_String_def INFO_def numeral_2_eq_2 numeral_3_eq_3)
  show "severity_String s = retG n \<longrightarrow> severity_Set n = s"
  proof
    assume "severity_String s = retG n"
    then have s: "0 \<le> s" "nat s < 4" "n = severity_names ! nat s"
      by (simp_all add: severity_String_def severity_names_def split: if_split_asm)
    then have "ToUpper n = n" by (intro ToUpper_names) (simp add: severity_names_def nth_mem del: list.set)
    moreover from s(1,2) have "s = 0 \<or> s = 1 \<or> s = 2 \<or> s = 3" by linarith
    ultimately show "severity_Set n = s"
      using s(3) by (auto simp: severity_Set_def severity_names_def)
  qed
qed

theorem severity_round_trip_witness:
  "severity_String WARNING = retG ''WARNING'' \<and> severity_Set ''WARNING'' = WARNING \<and>
     severity_String (severity_Set ''verbose'') = retG ''INFO''"
proof -
  have w: "severity_String WARNING = retG ''WARNING''" by (simp add: severity_String_def WARNING_def severity_names_def)
  have "ToUpper ''verbose'' \<notin> set severity_names" by code_simp
  with w severity_round_trip [of "''verbose''" WARNING "''WARNING''"] show ?thesis by simp
qed

section \<open>The logger\<close>

datatype writer = Stdout | Stderr | LogFile string

record stdlogger =
  slWriters :: "writer list"
  slPrefix :: string

text \<open>The free buffers are a list linked by \<open>next\<close>; a buffer is what has been written to it.\<close>

record logger =
  lgBuffers :: "string list"
  lgDebug :: stdlogger
  lgInfo :: stdlogger
  lgWarning :: stdlogger
  lgErr :: stdlogger
  lgSeverity :: severity
  lgDir :: string
  lgWritten :: "(writer list \<times> string \<times> string) list"

definition log_init :: "severity \<Rightarrow> string \<Rightarrow> logger" where
  "log_init level dir =
     \<lparr>lgBuffers = [], lgDebug = \<lparr>slWriters = [Stdout], slPrefix = ''[DEBUG] ''\<rparr>, lgInfo = \<lparr>slWriters = [Stdout], slPrefix = ''[INFO] ''\<rparr>,
      lgWarning = \<lparr>slWriters = [Stderr], slPrefix = ''[WARNING] ''\<rparr>, lgErr = \<lparr>slWriters = [Stderr], slPrefix = ''[ERROR] ''\<rparr>,
      lgSeverity = level, lgDir = dir, lgWritten = []\<rparr>"

text \<open>\<open>create\<close> is the outcome of creating the file, \<open>path\<close> its name in the directory of the logger.\<close>

definition log_Setup :: "(string \<Rightarrow> go_error option) \<Rightarrow> (string \<Rightarrow> string) \<Rightarrow> logger \<Rightarrow> logger go" where
  "log_Setup create path l =
     (let f = path (lgDir l)
      in if create f \<noteq> None then panicG LogFatal
         else retG (l\<lparr>lgDebug := \<lparr>slWriters = [LogFile f], slPrefix = ''[DEBUG] ''\<rparr>,
                      lgInfo := \<lparr>slWriters = [LogFile f], slPrefix = ''[INFO] ''\<rparr>,
                      lgWarning := \<lparr>slWriters = [LogFile f, Stderr], slPrefix = ''[WARNING] ''\<rparr>,
                      lgErr := \<lparr>slWriters = [LogFile f, Stderr], slPrefix = ''[ERROR] ''\<rparr>\<rparr>))"

definition getBuffer :: "logger \<Rightarrow> logger \<times> string" where
  "getBuffer l =
     (case lgBuffers l of
        [] \<Rightarrow> (l, [])
      | b # next \<Rightarrow> (l\<lparr>lgBuffers := next\<rparr>, []))"

text \<open>Both fill a buffer and leave it, so that the result here is the logger and the buffer at the end.\<close>

definition log_print :: "('v list \<Rightarrow> string) \<Rightarrow> logger \<Rightarrow> 'v list \<Rightarrow> (logger \<times> string) go" where
  "log_print sprint l args =
     (case getBuffer l of (l', buf) \<Rightarrow>
        let buf' = buf @ sprint args
        in if buf' = [] then panicG IndexOutOfRange
           else retG (l', if last buf' \<noteq> CHR 0x0A then buf' @ [CHR 0x0A] else buf'))"

definition log_printf :: "(string \<Rightarrow> 'v list \<Rightarrow> string) \<Rightarrow> logger \<Rightarrow> string \<Rightarrow> 'v list \<Rightarrow> logger \<times> string" where
  "log_printf sprintf l format args = (case getBuffer l of (l', buf) \<Rightarrow> (l', buf @ sprintf format args))"

definition Output :: "logger \<Rightarrow> stdlogger \<Rightarrow> string \<Rightarrow> logger" where
  "Output l out text = l\<lparr>lgWritten := lgWritten l @ [(slWriters out, slPrefix out, text)]\<rparr>"

definition log_Debug :: "('v list \<Rightarrow> string) \<Rightarrow> logger \<Rightarrow> 'v list \<Rightarrow> logger" where
  "log_Debug sprint l v = (if lgSeverity l = DEBUG then Output l (lgDebug l) (sprint v) else l)"

definition log_Debugf :: "(string \<Rightarrow> 'v list \<Rightarrow> string) \<Rightarrow> logger \<Rightarrow> string \<Rightarrow> 'v list \<Rightarrow> logger" where
  "log_Debugf sprintf l format v = (if lgSeverity l = DEBUG then Output l (lgDebug l) (sprintf format v) else l)"

definition log_Info :: "('v list \<Rightarrow> string) \<Rightarrow> logger \<Rightarrow> 'v list \<Rightarrow> logger" where
  "log_Info sprint l v = (if lgSeverity l \<le> INFO then Output l (lgInfo l) (sprint v) else l)"

definition log_Infof :: "(string \<Rightarrow> 'v list \<Rightarrow> string) \<Rightarrow> logger \<Rightarrow> string \<Rightarrow> 'v list \<Rightarrow> logger" where
  "log_Infof sprintf l format v = (if lgSeverity l \<le> INFO then Output l (lgInfo l) (sprintf format v) else l)"

definition log_Warning :: "('v list \<Rightarrow> string) \<Rightarrow> logger \<Rightarrow> 'v list \<Rightarrow> logger" where
  "log_Warning sprint l v = (if lgSeverity l \<le> WARNING then Output l (lgWarning l) (sprint v) else l)"

definition log_Warningf :: "(string \<Rightarrow> 'v list \<Rightarrow> string) \<Rightarrow> logger \<Rightarrow> string \<Rightarrow> 'v list \<Rightarrow> logger" where
  "log_Warningf sprintf l format v = (if lgSeverity l \<le> WARNING then Output l (lgWarning l) (sprintf format v) else l)"

definition log_Error :: "('v list \<Rightarrow> string) \<Rightarrow> logger \<Rightarrow> 'v list \<Rightarrow> logger" where
  "log_Error sprint l v = Output l (lgErr l) (sprint v)"

definition log_Errorf :: "(string \<Rightarrow> 'v list \<Rightarrow> string) \<Rightarrow> logger \<Rightarrow> string \<Rightarrow> 'v list \<Rightarrow> logger" where
  "log_Errorf sprintf l format v = Output l (lgErr l) (sprintf format v)"

text \<open>
  The two that end the program: the line is written twice, by the logger for errors and by the standard
  logger of the library, which has no prefix and writes to the standard error.
\<close>

definition std_logger :: stdlogger where
  "std_logger = \<lparr>slWriters = [Stderr], slPrefix = []\<rparr>"

definition log_Fatal :: "('v list \<Rightarrow> string) \<Rightarrow> logger \<Rightarrow> 'v list \<Rightarrow> logger \<times> unit go" where
  "log_Fatal sprint l v = (Output (Output l (lgErr l) (sprint v)) std_logger (sprint v), panicG LogFatal)"

definition log_Fatalf :: "(string \<Rightarrow> 'v list \<Rightarrow> string) \<Rightarrow> logger \<Rightarrow> string \<Rightarrow> 'v list \<Rightarrow> logger \<times> unit go" where
  "log_Fatalf sprintf l format v = (Output (Output l (lgErr l) (sprintf format v)) std_logger (sprintf format v), panicG LogFatal)"

section \<open>What is written\<close>

text \<open>A call of the package, with its level.\<close>

datatype 'v log_request = Plain severity "'v list" | Formatted severity string "'v list"

fun log_level :: "'v log_request \<Rightarrow> severity" where
  "log_level (Plain s v) = s"
| "log_level (Formatted s format v) = s"

fun log_call :: "('v list \<Rightarrow> string) \<Rightarrow> (string \<Rightarrow> 'v list \<Rightarrow> string) \<Rightarrow> logger \<Rightarrow> 'v log_request \<Rightarrow> logger" where
  "log_call sprint sprintf l (Plain s v) =
     (if s = DEBUG then log_Debug sprint l v
      else if s = INFO then log_Info sprint l v
      else if s = WARNING then log_Warning sprint l v
      else log_Error sprint l v)"
| "log_call sprint sprintf l (Formatted s format v) =
     (if s = DEBUG then log_Debugf sprintf l format v
      else if s = INFO then log_Infof sprintf l format v
      else if s = WARNING then log_Warningf sprintf l format v
      else log_Errorf sprintf l format v)"

definition log_calls :: "('v list \<Rightarrow> string) \<Rightarrow> (string \<Rightarrow> 'v list \<Rightarrow> string) \<Rightarrow> logger \<Rightarrow> 'v log_request list \<Rightarrow> logger" where
  "log_calls sprint sprintf l cs = foldl (log_call sprint sprintf) l cs"

text \<open>The line that a call is to write.\<close>

definition log_line :: "('v list \<Rightarrow> string) \<Rightarrow> (string \<Rightarrow> 'v list \<Rightarrow> string) \<Rightarrow> logger \<Rightarrow> 'v log_request \<Rightarrow> writer list \<times> string \<times> string" where
  "log_line sprint sprintf l c =
     (let out = [lgDebug l, lgInfo l, lgWarning l, lgErr l] ! nat (log_level c)
      in (slWriters out, slPrefix out, case c of Plain s v \<Rightarrow> sprint v | Formatted s format v \<Rightarrow> sprintf format v))"

lemma log_call_cases:
  assumes "0 \<le> lgSeverity l" and "lgSeverity l \<le> 3" and "log_level c \<in> {DEBUG, INFO, WARNING, ERROR}"
  shows "log_call sprint sprintf l c =
    (if lgSeverity l \<le> log_level c then l\<lparr>lgWritten := lgWritten l @ [log_line sprint sprintf l c]\<rparr> else l)"
  using assms
  by (cases c)
    (auto simp: DEBUG_def INFO_def WARNING_def ERROR_def log_line_def Output_def Let_def numeral_2_eq_2 numeral_3_eq_3
      log_Debug_def log_Info_def log_Warning_def log_Error_def log_Debugf_def log_Infof_def log_Warningf_def log_Errorf_def)

text \<open>
  C35: with a level that \<open>Set\<close> can give, any sequence of calls writes exactly the lines of those at or above
  the level, in order, each with its own prefix to its own writers; so a higher level writes a subsequence.
\<close>
theorem log_writes_above_level:
  assumes "0 \<le> lgSeverity l" and "lgSeverity l \<le> 3" and "\<forall>c \<in> set cs. log_level c \<in> {DEBUG, INFO, WARNING, ERROR}"
  shows "lgWritten (log_calls sprint sprintf l cs) =
     lgWritten l @ map (log_line sprint sprintf l) (filter (\<lambda>c. lgSeverity l \<le> log_level c) cs)"
proof -
  have line: "log_line sprint sprintf (l\<lparr>lgWritten := w\<rparr>) = log_line sprint sprintf l" for l w
    by (simp add: fun_eq_iff log_line_def)
  have "log_calls sprint sprintf (l\<lparr>lgWritten := w\<rparr>) cs =
    l\<lparr>lgWritten := w @ map (log_line sprint sprintf l) (filter (\<lambda>c. lgSeverity l \<le> log_level c) cs)\<rparr>" for w
    using assms(3)
  proof (induction cs arbitrary: w)
    case (Cons c cs)
    have "log_call sprint sprintf (l\<lparr>lgWritten := w\<rparr>) c =
        l\<lparr>lgWritten := w @ (if lgSeverity l \<le> log_level c then [log_line sprint sprintf l c] else [])\<rparr>"
      using log_call_cases [of "l\<lparr>lgWritten := w\<rparr>" c sprint sprintf] assms(1,2) Cons.prems by (simp add: line)
    with Cons show ?case by (simp add: log_calls_def)
  qed (simp add: log_calls_def)
  from this [of "lgWritten l"] show ?thesis by simp
qed

theorem log_writes_above_level_witness:
  "lgWritten (log_calls concat (\<lambda>f v. f) (log_init (severity_Set ''warning'') [])
     [Plain DEBUG [''a''], Plain ERROR [''b''], Formatted INFO ''c'' [], Formatted WARNING ''d'' []]) =
   [([Stderr], ''[ERROR] '', ''b''), ([Stderr], ''[WARNING] '', ''d'')]"
proof -
  have s: "severity_Set ''warning'' = 2" by code_simp
  let ?cs = "[Plain DEBUG [''a''], Plain ERROR [''b''], Formatted INFO ''c'' [], Formatted WARNING ''d'' []]"
  from log_writes_above_level [of "log_init (severity_Set ''warning'') []" ?cs concat "\<lambda>f v. f"] show ?thesis
    by (simp add: s log_init_def log_line_def DEBUG_def INFO_def WARNING_def ERROR_def numeral_3_eq_3 numeral_2_eq_2)
qed

text \<open>
  The methods \<open>print\<close> and \<open>printf\<close> of the logger write to no writer and never give a buffer back, and
  \<open>print\<close> panics when there is nothing to print.
\<close>
theorem print_writes_nothing:
  "(log_print sprint l args = retG (l', buf) \<longrightarrow> lgWritten l' = lgWritten l \<and> lgBuffers l' = tl (lgBuffers l)) \<and>
   (log_printf sprintf l format args = (l', buf) \<longrightarrow> lgWritten l' = lgWritten l \<and> lgBuffers l' = tl (lgBuffers l)) \<and>
   (sprint args = [] \<longrightarrow> log_print sprint l args = panicG IndexOutOfRange)"
  by (auto simp: log_print_def log_printf_def getBuffer_def Let_def split: list.split_asm if_split_asm list.split)

end
