(* ===== verification/Config_File.thy ===== *)
theory Config_File
  imports Config
begin

text \<open>
  The configuration's files (config/config.go): \<open>Load\<close> and \<open>Save\<close> with the files they open, and the
  functions of the package on its global configuration. JSON is the library's: \<open>decode\<close> gives the
  configuration that a text makes of one, and whether its two address maps are still nil, and \<open>encode\<close>
  the text of a configuration, of the type \<open>'t\<close>; \<open>json_config\<close> says what \<open>Load\<close> and \<open>Save\<close> rely on. The unexported fields
  (the hasher, the signer and the number of nodes) are not in the text.
\<close>

record 't config_files =
  cfFile :: "'t option"
  cfIps :: "string list option"

record 't package =
  pkConfiguration :: Config
  pkFiles :: "'t config_files"

definition config_init :: "'t config_files \<Rightarrow> 't package" where
  "config_init files = \<lparr>pkConfiguration = MakeDefaultConfig, pkFiles = files\<rparr>"

definition GetConfig :: "'t package \<Rightarrow> Config" where
  "GetConfig p = pkConfiguration p"

text \<open>In nanoseconds.\<close>

definition GetTimer :: "'t package \<Rightarrow> int" where
  "GetTimer p = i64 (Timeout (pkConfiguration p) * 1000000)"

definition config_String :: "(Config \<Rightarrow> string option) \<Rightarrow> Config \<Rightarrow> string" where
  "config_String encode c = (case encode c of None \<Rightarrow> [] | Some text \<Rightarrow> text)"

text \<open>A missing ips.txt is printed, and no line is read.\<close>

definition Load_files :: "('t \<Rightarrow> Config \<Rightarrow> (Config \<times> bool \<times> bool) option) \<Rightarrow> 't config_files \<Rightarrow> Config \<Rightarrow> Config go" where
  "Load_files decode files c =
     (case cfFile files of
        None \<Rightarrow> panicG LogFatal
      | Some text \<Rightarrow>
          (case decode text c of
             None \<Rightarrow> panicG LogFatal
           | Some (c', nilAddrs, nilHTTP) \<Rightarrow>
               let ips = (case cfIps files of None \<Rightarrow> [] | Some ips \<Rightarrow> ips)
               in if ips \<noteq> [] \<and> (nilAddrs \<or> nilHTTP) then panicG NilMapWrite else retG (Load c' ips)))"

text \<open>A configuration that cannot be encoded leaves the file as it is created, empty.\<close>

definition Save ::
  "(Config \<Rightarrow> 't option) \<Rightarrow> 't \<Rightarrow> go_error option \<Rightarrow> 't config_files \<Rightarrow> Config \<Rightarrow> 't config_files \<times> go_error option" where
  "Save encode blank create files c =
     (case create of
        Some err \<Rightarrow> (files, Some err)
      | None \<Rightarrow>
          (case encode c of
             None \<Rightarrow> (files\<lparr>cfFile := Some blank\<rparr>, Some (External ''json''))
           | Some text \<Rightarrow> (files\<lparr>cfFile := Some text\<rparr>, None)))"

definition json_config :: "(Config \<Rightarrow> 't option) \<Rightarrow> ('t \<Rightarrow> Config \<Rightarrow> (Config \<times> bool \<times> bool) option) \<Rightarrow> bool" where
  "json_config encode decode \<longleftrightarrow> (\<forall>c text. Addrs c \<noteq> [] \<and> HTTPAddrs c \<noteq> [] \<and> encode c = Some text \<longrightarrow>
     (\<forall>c0. Addrs c0 = [] \<and> HTTPAddrs c0 = [] \<longrightarrow>
        decode text c0 = Some (c\<lparr>cfgHasher := cfgHasher c0, cfgSigner := cfgSigner c0, cfg_n := cfg_n c0\<rparr>, False, False)))"

section \<open>Loading twice\<close>

lemma load_lines_fields:
  "cfgHasher (load_lines c k ips) = cfgHasher c \<and> cfgSigner (load_lines c k ips) = cfgSigner c"
  by (induction ips arbitrary: c k) (simp_all add: Let_def)

text \<open>What the lines of ips.txt make of the two tables; \<open>load_lines\<close> ends with it and keeps it.\<close>

fun lines_loaded :: "Config \<Rightarrow> nat \<Rightarrow> string list \<Rightarrow> bool" where
  "lines_loaded c k [] \<longleftrightarrow> True"
| "lines_loaded c k (ip # ips) \<longleftrightarrow>
     map_of (Addrs c) (NewNodeID (int k)) = Some (''tcp://'' @ ip @ '':'' @ Itoa (3734 + int k)) \<and>
     map_of (HTTPAddrs c) (NewNodeID (int k)) = Some (''http://'' @ ip @ '':'' @ Itoa (8069 + int k)) \<and>
     lines_loaded c (Suc k) ips"

lemma load_lines_again: "lines_loaded c k ips \<Longrightarrow> load_lines c k ips = c"
  by (induction ips arbitrary: k) (simp_all add: Let_def update_triv)

lemma load_lines_earlier:
  assumes "j < k" and "k + length ips \<le> 2 ^ 63"
  shows "map_of (Addrs (load_lines c k ips)) (NewNodeID (int j)) = map_of (Addrs c) (NewNodeID (int j)) \<and>
    map_of (HTTPAddrs (load_lines c k ips)) (NewNodeID (int j)) = map_of (HTTPAddrs c) (NewNodeID (int j))"
  using assms
proof (induction ips arbitrary: c k)
  case (Cons ip ips)
  have "NewNodeID (int j) \<noteq> NewNodeID (int k)" using Cons.prems by (subst NewNodeID_inj) auto
  with Cons show ?case by (simp add: Let_def update_conv')
qed simp

lemma load_lines_loaded:
  assumes "k + length ips \<le> 2 ^ 63"
  shows "lines_loaded (load_lines c k ips) k ips"
  using assms
proof (induction ips arbitrary: c k)
  case (Cons ip ips)
  then show ?case using load_lines_earlier [of k "Suc k" ips] by (simp add: Let_def update_conv')
qed simp

lemma lines_loaded_cong:
  "Addrs c' = Addrs c \<Longrightarrow> HTTPAddrs c' = HTTPAddrs c \<Longrightarrow> lines_loaded c' k ips = lines_loaded c k ips"
  by (induction ips arbitrary: k) simp_all

text \<open>
  C34: the round trip of a configuration. A configuration that was loaded in a fresh process, from a file of
  its own and at least one line of ips.txt, and is then saved, is loaded again as it was by the next fresh
  process with the same ips.txt: the unexported fields that the file does not have are set again by the
  defaults and by the count of the addresses.
\<close>
theorem config_round_trip:
  assumes "json_config encode decode" and "decode text MakeDefaultConfig = Some (c0, False, False)"
    and "cfgHasher c0 = cfgHasher MakeDefaultConfig" and "cfgSigner c0 = cfgSigner MakeDefaultConfig"
    and "files = \<lparr>cfFile = Some text, cfIps = Some ips\<rparr>" and "ips \<noteq> []" and "length ips < 2 ^ 63"
    and "Load_files decode files MakeDefaultConfig = retG c" and "Save encode blank None files c = (files', None)"
  shows "Load_files decode files' MakeDefaultConfig = retG c"
proof -
  let ?l = "load_lines c0 1 ips"
  have c: "c = ?l\<lparr>cfg_n := length (Addrs ?l)\<rparr>" using assms(2,5,8) by (simp add: Load_files_def Load_def Let_def)
  have ll: "lines_loaded ?l 1 ips" using assms(7) by (intro load_lines_loaded) simp
  with assms(6) have ne: "Addrs ?l \<noteq> []" "HTTPAddrs ?l \<noteq> []" by (cases ips; auto)+
  obtain text' where t: "encode c = Some text'" "files' = files\<lparr>cfFile := Some text'\<rparr>"
    using assms(9) by (auto simp: Save_def split: option.split_asm)
  let ?c = "c\<lparr>cfgHasher := cfgHasher MakeDefaultConfig, cfgSigner := cfgSigner MakeDefaultConfig, cfg_n := cfg_n MakeDefaultConfig\<rparr>"
  have d: "decode text' MakeDefaultConfig = Some (?c, False, False)"
  proof -
    have "Addrs c \<noteq> [] \<and> HTTPAddrs c \<noteq> [] \<and> encode c = Some text'" using t(1) ne by (simp add: c)
    moreover have "Addrs MakeDefaultConfig = [] \<and> HTTPAddrs MakeDefaultConfig = []" by (simp add: MakeDefaultConfig_def)
    ultimately show ?thesis using assms(1) unfolding json_config_def by blast
  qed
  have "Addrs ?c = Addrs ?l" "HTTPAddrs ?c = HTTPAddrs ?l" by (simp_all add: c)
  then have "lines_loaded ?c 1 ips" using ll by (simp only: lines_loaded_cong [of ?c ?l])
  then have "load_lines ?c 1 ips = ?c" by (rule load_lines_again)
  moreover have "cfgHasher c = cfgHasher MakeDefaultConfig" "cfgSigner c = cfgSigner MakeDefaultConfig"
    using load_lines_fields [of c0 1 ips] assms(3,4) by (simp_all add: c)
  ultimately show ?thesis using d t(2) assms(5) by (simp add: Load_files_def Load_def Let_def c)
qed

text \<open>A file that holds the exported fields themselves.\<close>

definition plain_encode :: "Config \<Rightarrow> Config option" where
  "plain_encode c = Some (c\<lparr>cfgHasher := [], cfgSigner := [], cfg_n := 0\<rparr>)"

definition plain_decode :: "Config \<Rightarrow> Config \<Rightarrow> (Config \<times> bool \<times> bool) option" where
  "plain_decode t c = Some (t\<lparr>cfgHasher := cfgHasher c, cfgSigner := cfgSigner c, cfg_n := cfg_n c\<rparr>, False, False)"

theorem config_round_trip_witness:
  "\<exists>c files'. Load_files plain_decode \<lparr>cfFile = Some (MakeDefaultConfig\<lparr>Timeout := 100\<rparr>), cfIps = Some [''10.0.0.1'']\<rparr> MakeDefaultConfig = retG c \<and>
     Save plain_encode MakeDefaultConfig None \<lparr>cfFile = Some (MakeDefaultConfig\<lparr>Timeout := 100\<rparr>), cfIps = Some [''10.0.0.1'']\<rparr> c = (files', None) \<and>
     Load_files plain_decode files' MakeDefaultConfig = retG c \<and> Timeout c = 100 \<and> config_N c = 1"
proof -
  let ?t = "MakeDefaultConfig\<lparr>Timeout := 100\<rparr>"
  let ?f = "\<lparr>cfFile = Some ?t, cfIps = Some [''10.0.0.1'']\<rparr>"
  have law: "json_config plain_encode plain_decode" by (simp add: json_config_def plain_encode_def plain_decode_def)
  obtain c where c: "Load_files plain_decode ?f MakeDefaultConfig = retG c" "Timeout c = 100" "config_N c = 1"
    by (simp add: Load_files_def plain_decode_def Load_def Let_def MakeDefaultConfig_def config_N_def)
  obtain f where f: "Save plain_encode MakeDefaultConfig None ?f c = (f, None)" by (simp add: Save_def plain_encode_def)
  have "Load_files plain_decode f MakeDefaultConfig = retG c"
    by (rule config_round_trip [OF law _ _ _ refl _ _ c(1) f, of "fst (the (plain_decode ?t MakeDefaultConfig))"])
      (simp_all add: plain_decode_def)
  with c f show ?thesis by blast
qed

end
