(* ===== verification/Message.thy ===== *)
theory Message
  imports Node Log Config_File
begin

text \<open>
  The messages between clients and replicas (message/message.go), with the texts the code prints for them,
  the connection to a master node (utils/utils.go), and the node as the logger of the Phalanx library
  (node/node.go).
\<close>

section \<open>Requests and replies\<close>

type_synonym properties = "(string \<times> string) list"

record TransactionReply =
  trCommand :: Command
  trValue :: Value
  trProperties :: properties
  trDelay :: Duration
  trErr :: "go_error option"

record Read =
  rdCommandID :: int
  rdKey :: Key

record ReadReply =
  rrCommandID :: int
  rrValue :: Value

record QueryReply =
  qrInfo :: string

record Register =
  rgClient :: bool
  rgID :: NodeID
  rgAddr :: string

text \<open>The types that gob is told of.\<close>

definition registered_types :: "string list" where
  "registered_types = [''message.Transaction'', ''message.TransactionReply'', ''message.Query'', ''message.QueryReply'',
     ''message.Read'', ''message.ReadReply'', ''message.Register'', ''config.Config'']"

definition zero_command :: Command where
  "zero_command = \<lparr>cKey = 0, cValue = None, cClientID = [], cCommandID = 0\<rparr>"

definition NewReply :: "Duration \<Rightarrow> TransactionReply" where
  "NewReply delay = \<lparr>trCommand = zero_command, trValue = None, trProperties = [], trDelay = delay, trErr = None\<rparr>"

text \<open>
  The channel of a request has room for \<open>cap\<close> replies; \<open>None\<close> when the send has to wait, as it has to
  for ever on a channel that is nil.
\<close>

definition Transaction_Reply :: "nat \<Rightarrow> 'r list option \<Rightarrow> 'r \<Rightarrow> 'r list option" where
  "Transaction_Reply cap C reply = (case C of None \<Rightarrow> None | Some rs \<Rightarrow> if length rs < cap then Some (rs @ [reply]) else None)"

definition Query_Reply :: "nat \<Rightarrow> 'r list option \<Rightarrow> 'r \<Rightarrow> 'r list option" where
  "Query_Reply cap C reply = (case C of None \<Rightarrow> None | Some rs \<Rightarrow> if length rs < cap then Some (rs @ [reply]) else None)"

text \<open>A map is printed with its keys in order, as \<open>props\<close> has them.\<close>

fun props_text :: "properties \<Rightarrow> string" where
  "props_text [] = []"
| "props_text [(k, v)] = k @ '':'' @ v"
| "props_text ((k, v) # rest) = k @ '':'' @ v @ '' '' @ props_text rest"

definition Transaction_String :: "Command \<Rightarrow> NodeID \<Rightarrow> string" where
  "Transaction_String cmd nid = ''Transaction {cmd='' @ Command_String cmd @ '' nid='' @ nid @ ''}''"

definition TransactionReply_String :: "TransactionReply \<Rightarrow> string" where
  "TransactionReply_String r = ''TransactionReply {cmd='' @ Command_String (trCommand r) @ '' value='' @
     (case trValue r of None \<Rightarrow> [] | Some v \<Rightarrow> hex_bytes v) @ '' prop=map['' @ props_text (trProperties r) @ '']}''"

definition Read_String :: "Read \<Rightarrow> string" where
  "Read_String r = ''Read {cid='' @ Itoa (rdCommandID r) @ '', key='' @ Itoa (rdKey r) @ ''}''"

section \<open>The master node\<close>

text \<open>
  \<open>ConnectToMaster\<close> registers and takes the configuration that the master answers with: \<open>dial\<close> is the
  error of the connection, \<open>answer\<close> what the master makes of the registration and the configuration is
  decoded to. An encoder that fails is not noticed.
\<close>

definition ConnectToMaster ::
  "go_error option \<Rightarrow> (Register \<Rightarrow> Config \<Rightarrow> go_error + Config) \<Rightarrow> bool \<Rightarrow> NodeID \<Rightarrow> Config \<Rightarrow> Config go" where
  "ConnectToMaster dial answer client i c =
     (if dial \<noteq> None then panicG LogFatal
      else case answer \<lparr>rgClient = client, rgID = i, rgAddr = []\<rparr> c of
        Inl err \<Rightarrow> panicG LogFatal
      | Inr c' \<Rightarrow> retG c')"

section \<open>The node\<close>

definition node_ID :: "'h node \<Rightarrow> NodeID" where
  "node_ID n = nID n"

definition node_IsByz :: "'h node \<Rightarrow> bool" where
  "node_IsByz n = nByz n"

text \<open>What \<open>Run\<close> starts: the three loops when there is a handler, and the HTTP server in any case.\<close>

datatype node_loop = HandleLoop | RecvLoop | TxnLoop | HttpServer

definition node_Run :: "'h node \<Rightarrow> node_loop list" where
  "node_Run n = (if handles n \<noteq> Map.empty then [HandleLoop, RecvLoop, TxnLoop] else []) @ [HttpServer]"

text \<open>Its methods as the logger that the Phalanx library is given.\<close>

definition node_Debug :: "('v list \<Rightarrow> string) \<Rightarrow> logger \<Rightarrow> 'v list \<Rightarrow> logger" where
  "node_Debug sprint l v = log_Debug sprint l v"

definition node_Debugf :: "(string \<Rightarrow> 'v list \<Rightarrow> string) \<Rightarrow> logger \<Rightarrow> string \<Rightarrow> 'v list \<Rightarrow> logger" where
  "node_Debugf sprintf l format v = log_Debugf sprintf l format v"

definition node_Info :: "('v list \<Rightarrow> string) \<Rightarrow> logger \<Rightarrow> 'v list \<Rightarrow> logger" where
  "node_Info sprint l v = log_Info sprint l v"

definition node_Infof :: "(string \<Rightarrow> 'v list \<Rightarrow> string) \<Rightarrow> logger \<Rightarrow> string \<Rightarrow> 'v list \<Rightarrow> logger" where
  "node_Infof sprintf l format v = log_Infof sprintf l format v"

definition node_Error :: "('v list \<Rightarrow> string) \<Rightarrow> logger \<Rightarrow> 'v list \<Rightarrow> logger" where
  "node_Error sprint l v = log_Error sprint l v"

definition node_Errorf :: "(string \<Rightarrow> 'v list \<Rightarrow> string) \<Rightarrow> logger \<Rightarrow> string \<Rightarrow> 'v list \<Rightarrow> logger" where
  "node_Errorf sprintf l format v = log_Errorf sprintf l format v"

section \<open>What the texts and the types tell\<close>

text \<open>
  The three consensus messages that replicas exchange are not among the types registered here: gob is told
  of them by the packages that define them. Of the values that a node dispatches by type, the message package
  registers those of clients.
\<close>

lemma registered_values:
  "value_type v \<in> set registered_types \<longleftrightarrow> (\<exists>tx. v = VTransaction tx) \<or> (\<exists>c. v = VTransactionReply c) \<or> v = VQuery"
  by (cases v) (simp_all add: registered_types_def)

text \<open>A request is answered once: with room for one reply, the first is taken and a second has to wait.\<close>

lemma one_reply:
  "Transaction_Reply 1 (Some []) a = Some [a]" "Transaction_Reply 1 (Some [a]) b = None" "Query_Reply 1 None b = None"
  by (simp_all add: Transaction_Reply_def Query_Reply_def)

end
