(* ===== verification/Hash.thy ===== *)
theory Hash
  imports Node
begin

text \<open>
  Hashes as values (crypto/hash.go): their comparison, their text in hexadecimal and their conversions, and
  the random identifier of utils/utils.go. A hash is the string of its bytes.
\<close>

definition Hash_Equal :: "string \<Rightarrow> string \<Rightarrow> bool" where
  "Hash_Equal h inp \<longleftrightarrow> h = inp"

definition Hash_Hex :: "string \<Rightarrow> string" where
  "Hash_Hex h = hex_bytes h"

text \<open>The copy of \<open>b\<close> into a slice of the same length.\<close>

definition BytesToHash :: "string \<Rightarrow> string" where
  "BytesToHash b = (let h = replicate (length b) (CHR 0x00) in take (length h) b @ drop (length b) h)"

definition HashesToBytes :: "string list \<Rightarrow> string list" where
  "HashesToBytes hashes = fold (\<lambda>(i, h) b. b[i := h]) (enumerate 0 hashes) (replicate (length hashes) [])"

text \<open>\<open>drawn\<close> is what \<open>rand.Read\<close> fills the identifier with.\<close>

definition IdentifierFixture :: "string \<Rightarrow> Identifier" where
  "IdentifierFixture drawn = of_nat (be_value (take 32 drawn))"

section \<open>Hexadecimal\<close>

definition hex_value :: "char \<Rightarrow> nat option" where
  "hex_value c = (if 48 \<le> (of_char c :: nat) \<and> (of_char c :: nat) \<le> 57 then Some (of_char c - 48)
     else if 97 \<le> (of_char c :: nat) \<and> (of_char c :: nat) \<le> 102 then Some (of_char c - 87) else None)"

fun hex_parse :: "string \<Rightarrow> string option" where
  "hex_parse [] = Some []"
| "hex_parse [_] = None"
| "hex_parse (a # b # rest) =
     (case (hex_value a, hex_value b, hex_parse rest) of
        (Some x, Some y, Some bs) \<Rightarrow> Some (char_of (16 * x + y) # bs)
      | _ \<Rightarrow> None)"

lemma hex_value_char: "n < 16 \<Longrightarrow> hex_value (hex_char n) = Some n"
proof -
  have "list_all (\<lambda>n. hex_value (hex_char n) = Some n) [0..<16]" by code_simp
  then show "n < 16 \<Longrightarrow> hex_value (hex_char n) = Some n" by (simp add: list_all_iff)
qed

lemma hex_round: "hex_parse (hex_bytes h) = Some h"
proof (induction h)
  case (Cons c h)
  have "(of_char c :: nat) < 256" by (rule nat_of_char_less_256)
  then have d: "(of_char c :: nat) div 16 < 16" "(of_char c :: nat) mod 16 < 16"
    by (simp_all add: less_mult_imp_div_less)
  then have "hex_value (hex_char (of_char c div 16)) = Some (of_char c div 16)"
      "hex_value (hex_char (of_char c mod 16)) = Some (of_char c mod 16)"
    using hex_value_char [OF d(1)] hex_value_char [OF d(2)] by simp_all
  moreover have "hex_bytes (c # h) = hex_char (of_char c div 16) # hex_char (of_char c mod 16) # hex_bytes h"
    by (simp add: hex_bytes_def)
  ultimately show ?case using Cons by simp
qed (simp add: hex_bytes_def)

lemma fold_write:
  "length done + length todo = length b \<Longrightarrow> take (length done) b = done \<Longrightarrow>
     fold (\<lambda>(i, h) b. b[i := h]) (enumerate (length done) todo) b = done @ todo"
proof (induction todo arbitrary: "done" b)
  case (Cons h todo)
  have "take (length (done @ [h])) (b[length done := h]) = done @ [h]"
    using Cons.prems by (simp add: take_Suc_conv_app_nth)
  with Cons.IH [of "done @ [h]" "b[length done := h]"] Cons.prems(1) show ?case by simp
qed simp

text \<open>
  The text of a hash in hexadecimal has twice its length and determines it, so that comparing two
  hashes, comparing their texts and comparing their copies is the same; converting a slice of hashes keeps
  each of them in its place.
\<close>
theorem hash_round_trip:
  "hex_parse (Hash_Hex h) = Some h \<and> length (Hash_Hex h) = 2 * length h \<and>
   (Hash_Hex h = Hash_Hex h' \<longleftrightarrow> Hash_Equal h h') \<and> BytesToHash h = h \<and> HashesToBytes hs = hs"
proof -
  have len: "length (hex_bytes h) = 2 * length h" for h by (induction h) (simp_all add: hex_bytes_def)
  have eq: "hex_bytes h = hex_bytes h' \<longleftrightarrow> h = h'" by (metis hex_round option.inject)
  have copy: "BytesToHash h = h" by (simp add: BytesToHash_def Let_def)
  have "HashesToBytes hs = hs" using fold_write [of "[]" hs "replicate (length hs) []"] by (simp add: HashesToBytes_def)
  with hex_round [of h] len [of h] eq copy show ?thesis unfolding Hash_Hex_def Hash_Equal_def by blast
qed

end
