(* ===== verification/Encoding.thy ===== *)
theory Encoding
  imports Prelude
begin

text \<open>
  The encoders (types/encoding): the interface \<open>Encoder\<close> and its two implementations, over the JSON of the
  standard library and the RLP of go-ethereum. The libraries are parameters: \<open>marshal\<close> gives the bytes of a
  value, \<open>unmarshal\<close> what decoding bytes makes of the value that the pointer held, with the error.
\<close>

type_synonym 'v marshal = "'v \<Rightarrow> go_error + string"
type_synonym 'v unmarshal = "string \<Rightarrow> 'v \<Rightarrow> 'v \<times> go_error option"

section \<open>The interface\<close>

locale encoder =
  fixes Encode :: "'v marshal"
    and Decode :: "'v unmarshal"
    and MustEncode :: "'v \<Rightarrow> string go"
    and MustDecode :: "string \<Rightarrow> 'v \<Rightarrow> 'v go"
  assumes must_encode: "MustEncode v = retG b \<longleftrightarrow> Encode v = Inr b"
    and must_encode_fails: "Encode v = Inl err \<Longrightarrow> MustEncode v = panicG ExplicitPanic"
    and must_decode: "MustDecode b v = retG w \<longleftrightarrow> Decode b v = (w, None)"
    and must_decode_fails: "Decode b v = (w, Some err) \<Longrightarrow> MustDecode b v = panicG ExplicitPanic"
begin

lemma must_round_trip:
  assumes "Encode v = Inr b" and "Decode b v0 = (v, None)"
  shows "bindG (MustEncode v) (\<lambda>b. MustDecode b v0) = retG v"
  using assms must_encode [of v b] must_decode [of b v0 v] by simp

lemma must_panics:
  "MustEncode v = panicG p \<Longrightarrow> p = ExplicitPanic \<and> (\<exists>err. Encode v = Inl err)"
  using must_encode [of v] must_encode_fails [of v] by (cases "Encode v") auto

end

section \<open>JSON\<close>

definition json_Encode :: "'v marshal \<Rightarrow> 'v marshal" where
  "json_Encode marshal v = marshal v"

definition json_Decode :: "'v unmarshal \<Rightarrow> 'v unmarshal" where
  "json_Decode unmarshal b v = unmarshal b v"

definition json_MustEncode :: "'v marshal \<Rightarrow> 'v \<Rightarrow> string go" where
  "json_MustEncode marshal v = (case json_Encode marshal v of Inl err \<Rightarrow> panicG ExplicitPanic | Inr b \<Rightarrow> retG b)"

definition json_MustDecode :: "'v unmarshal \<Rightarrow> string \<Rightarrow> 'v \<Rightarrow> 'v go" where
  "json_MustDecode unmarshal b v =
     (case json_Decode unmarshal b v of (w, err) \<Rightarrow> if err \<noteq> None then panicG ExplicitPanic else retG w)"

interpretation json: encoder "json_Encode marshal" "json_Decode unmarshal" "json_MustEncode marshal" "json_MustDecode unmarshal"
  by unfold_locales (auto simp: json_MustEncode_def json_MustDecode_def split: sum.split prod.split)

section \<open>RLP\<close>

definition rlp_Encode :: "'v marshal \<Rightarrow> 'v marshal" where
  "rlp_Encode encodeToBytes v = encodeToBytes v"

definition rlp_Decode :: "'v unmarshal \<Rightarrow> 'v unmarshal" where
  "rlp_Decode decodeBytes b v = decodeBytes b v"

definition rlp_MustEncode :: "'v marshal \<Rightarrow> 'v \<Rightarrow> string go" where
  "rlp_MustEncode encodeToBytes v = (case rlp_Encode encodeToBytes v of Inl err \<Rightarrow> panicG ExplicitPanic | Inr b \<Rightarrow> retG b)"

definition rlp_MustDecode :: "'v unmarshal \<Rightarrow> string \<Rightarrow> 'v \<Rightarrow> 'v go" where
  "rlp_MustDecode decodeBytes b v =
     (case rlp_Decode decodeBytes b v of (w, err) \<Rightarrow> if err \<noteq> None then panicG ExplicitPanic else retG w)"

interpretation rlp: encoder "rlp_Encode encodeToBytes" "rlp_Decode decodeBytes" "rlp_MustEncode encodeToBytes" "rlp_MustDecode decodeBytes"
  by unfold_locales (auto simp: rlp_MustEncode_def rlp_MustDecode_def split: sum.split prod.split)

end
