(* ===== verification/Benchmark.thy ===== *)
theory Benchmark
  imports Clock Client
begin

text \<open>
  The benchmark: its rate limiter (benchmark/rate.go), its statistics (benchmark/stat.go) and its
  main loop (benchmark/benchmark.go), and the history file it writes (benchmark/history.go). Times and durations are whole numbers of nanoseconds; the time
  at which something happens is an argument.
\<close>

section \<open>The rate limiter\<close>

record Limiter =
  lLast :: "int option"
  lSleep :: int
  lInterval :: int
  lSlack :: int

definition NewLimiter :: "int \<Rightarrow> Limiter go" where
  "NewLimiter rate =
     (if rate = 0 then panicG DivideByZero
      else retG \<lparr>lLast = None, lSleep = 0, lInterval = 1000000000 sdiv rate, lSlack = - 10000000000 sdiv rate\<rparr>)"

text \<open>A call of \<open>Wait\<close> at time \<open>now\<close>, with how long it sleeps.\<close>

definition limiter_Wait :: "Limiter \<Rightarrow> int \<Rightarrow> Limiter \<times> int" where
  "limiter_Wait l now =
     (case lLast l of
        None \<Rightarrow> (l\<lparr>lLast := Some now\<rparr>, 0)
      | Some prev \<Rightarrow>
          let sleep1 = lSleep l + (lInterval l - (now - prev));
              sleep2 = (if sleep1 < lSlack l then lSlack l else sleep1)
          in if sleep2 > 0 then (l\<lparr>lLast := Some (now + sleep2), lSleep := 0\<rparr>, sleep2)
             else (l\<lparr>lLast := Some now, lSleep := sleep2\<rparr>, 0))"

text \<open>The times at which calls made at the given times return.\<close>

fun wait_returns :: "Limiter \<Rightarrow> int list \<Rightarrow> int list" where
  "wait_returns l [] = []"
| "wait_returns l (now # nows) = (case limiter_Wait l now of (l', d) \<Rightarrow> (now + d) # wait_returns l' nows)"

definition limiter_ok :: "Limiter \<Rightarrow> bool" where
  "limiter_ok l \<longleftrightarrow> lSlack l \<le> lSleep l \<and> lSleep l \<le> 0 \<and> 0 \<le> lInterval l"

lemma limiter_Wait_step:
  assumes "limiter_ok l" and "limiter_Wait l now = (l', d)"
  shows "limiter_ok l' \<and> lSlack l' = lSlack l \<and> lInterval l' = lInterval l \<and> lLast l' = Some (now + d) \<and>
    (\<forall>prev. lLast l = Some prev \<longrightarrow> prev + lSleep l + lInterval l \<le> now + d + lSleep l') \<and> (lLast l = None \<longrightarrow> d = 0 \<and> lSleep l' = lSleep l)"
  using assms by (auto simp: limiter_Wait_def limiter_ok_def Let_def split: option.split_asm if_split_asm)

lemma length_wait_returns [simp]: "length (wait_returns l nows) = length nows"
  by (induction l nows rule: wait_returns.induct) (simp_all split: prod.split)

lemma wait_returns_after:
  assumes "limiter_ok l" and "lLast l = Some prev" and "k < length nows"
  shows "prev + lSleep l + int (Suc k) * lInterval l \<le> wait_returns l nows ! k"
  using assms
proof (induction k arbitrary: l nows prev)
  case 0
  then obtain now rest where nows: "nows = now # rest" by (cases nows) auto
  obtain l' d where w: "limiter_Wait l now = (l', d)" by fastforce
  from limiter_Wait_step [OF "0.prems"(1) w] "0.prems" nows w show ?case by (auto simp: limiter_ok_def)
next
  case (Suc k)
  then obtain now rest where nows: "nows = now # rest" by (cases nows) auto
  obtain l' d where w: "limiter_Wait l now = (l', d)" by fastforce
  note step = limiter_Wait_step [OF Suc.prems(1) w]
  have "now + d + lSleep l' + int (Suc k) * lInterval l' \<le> wait_returns l' rest ! k"
    using step Suc.prems nows by (intro Suc.IH) auto
  with step Suc.prems(2) nows w show ?case by (auto simp: algebra_simps)
qed

lemma NewLimiter_ok:
  assumes "0 < rate" and "NewLimiter rate = retG l"
  shows "limiter_ok l \<and> lLast l = None \<and> lSleep l = 0 \<and> lInterval l = 1000000000 div rate \<and> lSlack l = - (10000000000 div rate)"
  using assms by (auto simp: NewLimiter_def limiter_ok_def signed_divide_int_def pos_imp_zdiv_nonneg_iff)

text \<open>A limiter in use: the earlier of two returns, and the state it leaves.\<close>

lemma wait_returns_between:
  assumes "limiter_ok l" and "i < j" and "j < length nows"
  shows "wait_returns l nows ! i + lSlack l + int (j - i) * lInterval l \<le> wait_returns l nows ! j"
  using assms
proof (induction i arbitrary: l nows j)
  case 0
  then obtain now rest where nows: "nows = now # rest" by (cases nows) auto
  obtain l' d where w: "limiter_Wait l now = (l', d)" by fastforce
  note step = limiter_Wait_step [OF "0.prems"(1) w]
  obtain k where k: "j = Suc k" using "0.prems" by (cases j) auto
  have "now + d + lSleep l' + int (Suc k) * lInterval l' \<le> wait_returns l' rest ! k"
    using step "0.prems" nows k by (intro wait_returns_after) auto
  with step nows w k show ?case by (auto simp: limiter_ok_def)
next
  case (Suc i)
  then obtain now rest where nows: "nows = now # rest" by (cases nows) auto
  obtain l' d where w: "limiter_Wait l now = (l', d)" by fastforce
  note step = limiter_Wait_step [OF Suc.prems(1) w]
  obtain k where k: "j = Suc k" using Suc.prems by (cases j) auto
  have "wait_returns l' rest ! i + lSlack l' + int (k - i) * lInterval l' \<le> wait_returns l' rest ! k"
    using step Suc.prems nows k by (intro Suc.IH) auto
  with step nows w k show ?case by auto
qed



section \<open>Statistics\<close>

record Stat =
  stData :: "real list"
  stSize :: nat
  stMean :: real
  stMin :: real
  stMax :: real
  stMedian :: real
  stP95 :: real
  stP99 :: real
  stP999 :: real

definition stat_index :: "(real \<Rightarrow> real) \<Rightarrow> real \<Rightarrow> nat \<Rightarrow> int" where
  "stat_index fl q size1 = \<lfloor>fl (fl q * fl (real size1))\<rfloor>"

definition latency_ms :: "(real \<Rightarrow> real) \<Rightarrow> int \<Rightarrow> real" where
  "latency_ms fl l = fl (fl (real_of_int l) / 1000000)"

definition Statistic :: "(real \<Rightarrow> real) \<Rightarrow> int list \<Rightarrow> Stat go" where
  "Statistic fl latency =
     (let ms = sort (map (latency_ms fl) latency);
          total = fold (\<lambda>m acc. fl (acc + m)) ms 0;
          n = length ms
      in bindG (index_slice ms 0) (\<lambda>mn.
         bindG (index_slice ms (int n - 1)) (\<lambda>mx.
         bindG (index_slice ms (stat_index fl 0.5 n)) (\<lambda>md.
         bindG (index_slice ms (stat_index fl 0.95 n)) (\<lambda>p95.
         bindG (index_slice ms (stat_index fl 0.99 n)) (\<lambda>p99.
         bindG (index_slice ms (stat_index fl 0.999 n)) (\<lambda>p999.
           retG \<lparr>stData = ms, stSize = n, stMean = fl (total / fl (real n)), stMin = mn, stMax = mx, stMedian = md,
                 stP95 = p95, stP99 = p99, stP999 = p999\<rparr>)))))))"

lemma stat_index_mono:
  assumes "fl_ok fl" and "q \<le> q'" and "0 \<le> q"
  shows "0 \<le> stat_index fl q n" and "stat_index fl q n \<le> stat_index fl q' n"
proof -
  have m: "mono fl" "fl 0 = 0" using assms(1) by (simp_all add: fl_ok_def)
  have n: "0 \<le> fl (real n)" "0 \<le> fl q" "fl q \<le> fl q'"
    using monoD [OF m(1), of 0 "real n"] monoD [OF m(1), of 0 q] monoD [OF m(1), of q q'] m(2) assms by simp_all
  then have "fl q * fl (real n) \<le> fl q' * fl (real n)" by (intro mult_right_mono)
  then show "stat_index fl q n \<le> stat_index fl q' n" unfolding stat_index_def by (intro floor_mono monoD [OF m(1)])
  have "0 \<le> fl (fl q * fl (real n))" using monoD [OF m(1), of 0 "fl q * fl (real n)"] n m(2) by simp
  then show "0 \<le> stat_index fl q n" by (simp add: stat_index_def)
qed

lemma stat_index_less:
  assumes "fl_ok fl" and "0 < n" and "n < 2 ^ 53"
  shows "stat_index fl 0.999 n < int n"
proof -
  define u :: real where "u = 1 / 2 ^ 53"
  have u: "0 \<le> u" "u \<le> 1 / 10000" "u = 1 / 2 ^ 53" by (simp_all add: u_def)
  have "real n < 2 ^ 53" using assms(3) by (metis of_nat_less_iff of_nat_numeral of_nat_power)
  then have n: "1 \<le> real n" "real n \<le> 2 ^ 53" using assms(2) by simp_all
  have q: "fl 0.999 \<le> 0.999 * (1 + u)" "0 \<le> fl 0.999" using fl_bound [OF assms(1), of "0.999"] unfolding u(3) by simp_all
  have r: "fl (real n) \<le> real n * (1 + u)" "0 \<le> fl (real n)" using fl_bound [OF assms(1), of "real n"] n unfolding u(3) by simp_all
  let ?p = "0.999 * (1 + u) * (real n * (1 + u))"
  have c: "0.999 * (1 + u) * (1 + u) \<le> 0.9995" "0.9995 * (1 + u) < 1" "0.999 \<le> 0.999 * (1 + u) * (1 + u)"
    using u mult_mono [of u "1 / 10000" u "1 / 10000"] by (auto simp: algebra_simps)
  have p: "?p = 0.999 * (1 + u) * (1 + u) * real n" by simp
  have p1: "?p \<le> 0.9995 * real n" "0.999 * real n \<le> ?p"
    unfolding p using c n by (auto intro!: mult_right_mono)
  have "fl 0.999 * fl (real n) \<le> ?p" using q r u(1) by (intro mult_mono) simp_all
  then have "fl (fl 0.999 * fl (real n)) \<le> fl ?p" using assms(1) unfolding fl_ok_def by (blast dest: monoD)
  also have "fl ?p \<le> ?p * (1 + u)"
    unfolding u(3) by (rule fl_bound(1) [OF assms(1), of ?p, unfolded u(3)]) (use p1 n u in \<open>auto simp: u(3)\<close>)
  also have "\<dots> \<le> (0.9995 * real n) * (1 + u)" by (rule mult_right_mono [OF p1(1)]) (use u(1) in simp)
  also have "\<dots> < real n" using c n by (simp add: algebra_simps)
  finally show ?thesis by (simp add: stat_index_def floor_less_iff)
qed

text \<open>
  The statistics of at least one and fewer than \<open>2^53\<close> latencies are computed without a panic,
  and their percentiles are in order between the smallest and the largest latency; without a latency
  there are none, and the computation panics.
\<close>
theorem statistic_in_order:
  assumes "fl_ok fl" and "length latency < 2 ^ 53"
  shows "(latency \<noteq> [] \<longrightarrow> (\<exists>st. Statistic fl latency = retG st \<and> stSize st = length latency \<and>
       set (stData st) = latency_ms fl ` set latency \<and> stMin st = Min (set (stData st)) \<and> stMax st = Max (set (stData st)) \<and>
       stMin st \<le> stMedian st \<and> stMedian st \<le> stP95 st \<and> stP95 st \<le> stP99 st \<and> stP99 st \<le> stP999 st \<and> stP999 st \<le> stMax st)) \<and>
     Statistic fl [] = panicG IndexOutOfRange"
proof (intro conjI impI)
  show "Statistic fl [] = panicG IndexOutOfRange" by (simp add: Statistic_def index_slice_def)
  assume ne: "latency \<noteq> []"
  define ms where "ms = sort (map (latency_ms fl) latency)"
  define pc where "pc q = ms ! nat (stat_index fl q (length ms))" for q
  have ms: "sorted ms" "length ms = length latency" "0 < length ms" "set ms = latency_ms fl ` set latency"
    using ne by (simp_all add: ms_def)
  have idx: "0 \<le> stat_index fl q (length ms)" "stat_index fl q (length ms) < int (length ms)" if "0 \<le> q" "q \<le> 0.999" for q
    using stat_index_mono [OF assms(1) that(2,1), of "length ms"] stat_index_less [OF assms(1) ms(3)] assms(2) ms(2) by simp_all
  have slice: "index_slice ms (stat_index fl q (length ms)) = retG (pc q)" if "0 \<le> q" "q \<le> 0.999" for q
    using idx [OF that] by (simp add: index_slice_def pc_def)
  have mono: "pc q \<le> pc q'" if "0 \<le> q" "q \<le> q'" "q' \<le> 0.999" for q q'
    unfolding pc_def using idx [of q'] stat_index_mono(2) [OF assms(1) that(2,1), of "length ms"] that
    by (intro sorted_nth_mono [OF ms(1)]) auto
  have mem: "ms ! 0 \<in> set ms" "ms ! (length ms - 1) \<in> set ms" using ms(3) by (intro nth_mem; simp)+
  have "ms ! 0 \<le> x \<and> x \<le> ms ! (length ms - 1)" if "x \<in> set ms" for x
    using that ms(1) by (auto simp: in_set_conv_nth intro!: sorted_nth_mono)
  with mem have ends: "ms ! 0 = Min (set ms)" "ms ! (length ms - 1) = Max (set ms)"
    by (auto intro!: Min_eqI [symmetric] Max_eqI [symmetric])
  have last: "nat (int (length ms) - 1) = length ms - 1" by linarith
  have "Statistic fl latency = retG \<lparr>stData = ms, stSize = length ms,
      stMean = fl (fold (\<lambda>m acc. fl (acc + m)) ms 0 / fl (real (length ms))), stMin = ms ! 0, stMax = ms ! (length ms - 1),
      stMedian = pc 0.5, stP95 = pc 0.95, stP99 = pc 0.99, stP999 = pc 0.999\<rparr>"
    unfolding Statistic_def ms_def [symmetric] Let_def using ms(3) by (simp add: slice) (simp add: index_slice_def last)
  moreover have "ms ! 0 \<le> pc 0.5" "pc 0.999 \<le> ms ! (length ms - 1)"
    using idx [of "0.5"] idx [of "0.999"] unfolding pc_def by (auto intro!: sorted_nth_mono [OF ms(1)])
  ultimately show "\<exists>st. Statistic fl latency = retG st \<and> stSize st = length latency \<and>
       set (stData st) = latency_ms fl ` set latency \<and> stMin st = Min (set (stData st)) \<and> stMax st = Max (set (stData st)) \<and>
       stMin st \<le> stMedian st \<and> stMedian st \<le> stP95 st \<and> stP95 st \<le> stP99 st \<and> stP99 st \<le> stP999 st \<and> stP999 st \<le> stMax st"
    using mono [of "0.5" "0.95"] mono [of "0.95" "0.99"] mono [of "0.99" "0.999"] ms(2,4) ends by auto
qed

theorem statistic_in_order_witness:
  "\<exists>st. Statistic (\<lambda>x. x) [3000000, 1000000, 2000000] = retG st \<and> stSize st = 3 \<and> stMedian st \<le> stP999 st"
  using statistic_in_order [OF fl_ok_exact, of "[3000000, 1000000, 2000000]"] by force

section \<open>The main loop\<close>

record Bconfig =
  bcT :: int
  bcN :: int
  bcThrottle :: int
  bcConcurrency :: int
  bcDistribution :: string

record Benchmark =
  bmConfig :: Bconfig
  bmRate :: "Limiter option"
  bmCount :: nat
  bmLatency :: "int list"
  bmWait :: int
  bmWrites :: "int list"

definition NewBenchmark :: "Bconfig \<Rightarrow> Benchmark go" where
  "NewBenchmark bc =
     (let b = \<lparr>bmConfig = bc, bmRate = None, bmCount = 0, bmLatency = [], bmWait = 0, bmWrites = []\<rparr>
      in if bcThrottle bc > 0 then bindG (NewLimiter (bcThrottle bc)) (\<lambda>l. retG (b\<lparr>bmRate := Some l\<rparr>)) else retG b)"

text \<open>The key of the next operation; \<open>now\<close> is the time of the call.\<close>

definition bench_next :: "Config \<Rightarrow> Benchmark \<Rightarrow> int \<Rightarrow> (Benchmark \<times> int) go" where
  "bench_next c b now =
     (if bcDistribution (bmConfig b) = ''uniform'' then
        let key = i64 (int (bmCount b));
            b1 = b\<lparr>bmCount := u64 (int (bmCount b) + int (u64 (int (config_N c) - ByzNo c)))\<rparr>
        in if bcThrottle (bmConfig b) > 0
           then (case bmRate b1 of
                   None \<Rightarrow> panicG NilDereference
                 | Some l \<Rightarrow> retG (b1\<lparr>bmRate := Some (fst (limiter_Wait l now))\<rparr>, key))
           else retG (b1, key)
      else panicG LogFatal)"

text \<open>The keys that the loop of \<open>Run\<close> sends to the workers, one for each of the given times.\<close>

fun bench_generate :: "Config \<Rightarrow> Benchmark \<Rightarrow> int list \<Rightarrow> (Benchmark \<times> int list) go" where
  "bench_generate c b [] = retG (b, [])"
| "bench_generate c b (now # nows) =
     bindG (bench_next c (b\<lparr>bmWait := bmWait b + 1\<rparr>) now) (\<lambda>(b1, k).
     bindG (bench_generate c b1 nows) (\<lambda>(b2, ks). retG (b2, k # ks)))"

text \<open>A worker writes a value under the key; it gives no latency back.\<close>

definition bench_worker :: "Benchmark \<Rightarrow> int \<Rightarrow> Benchmark \<times> int list" where
  "bench_worker b k = (b\<lparr>bmWrites := bmWrites b @ [k]\<rparr>, [])"

fun bench_workers :: "Benchmark \<Rightarrow> int list \<Rightarrow> Benchmark \<times> int list" where
  "bench_workers b [] = (b, [])"
| "bench_workers b (k # ks) =
     (case bench_worker b k of (b1, ls) \<Rightarrow> case bench_workers b1 ks of (b2, ls') \<Rightarrow> (b2, ls @ ls'))"

definition bench_collect :: "Benchmark \<Rightarrow> int \<Rightarrow> Benchmark" where
  "bench_collect b t = b\<lparr>bmLatency := bmLatency b @ [t], bmWait := bmWait b - 1\<rparr>"

text \<open>
  \<open>Run\<close>, for as long as the timer lets it or for a number of operations. Without workers the first
  key is never taken; a wait for operations that are not collected does not end. \<open>nows\<close> has the time of
  each turn of the loop.
\<close>

definition bench_Run :: "(real \<Rightarrow> real) \<Rightarrow> Config \<Rightarrow> Benchmark \<Rightarrow> int list \<Rightarrow> (Benchmark \<times> Stat) go" where
  "bench_Run fl c b nows =
     (let timed = bcT (bmConfig b) > 0
      in if bcConcurrency (bmConfig b) < 0 then panicG MakeSliceRange
         else bindG (bench_generate c (b\<lparr>bmLatency := []\<rparr>) (if timed then nows else take (nat (bcN (bmConfig b))) nows)) (\<lambda>(b1, ks).
           if ks \<noteq> [] \<and> bcConcurrency (bmConfig b) = 0 then None
           else case bench_workers b1 ks of
             (b2, latencies) \<Rightarrow>
               let b3 = fold (\<lambda>t b. bench_collect b t) latencies b2
               in if \<not> timed \<and> bmWait b3 \<noteq> 0 then None
                  else bindG (Statistic fl (bmLatency b3)) (\<lambda>st. retG (b3, st))))"

lemma bench_next_fields: "bench_next c b now = retG (b1, k) \<Longrightarrow> bmLatency b1 = bmLatency b \<and> bmWait b1 = bmWait b"
  by (auto simp: bench_next_def Let_def split: if_split_asm option.split_asm)

lemma bench_generate_fields:
  "bench_generate c b nows = retG (b1, ks) \<Longrightarrow>
     bmLatency b1 = bmLatency b \<and> bmWait b1 = bmWait b + int (length nows) \<and> length ks = length nows"
proof (induction nows arbitrary: b ks)
  case (Cons now nows)
  then show ?case by (fastforce elim!: bindG_RetE dest!: bench_next_fields)
qed simp

lemma bench_workers_fields:
  "bench_workers b ks = (b1, ls) \<Longrightarrow> ls = [] \<and> bmLatency b1 = bmLatency b \<and> bmWait b1 = bmWait b"
  by (induction ks arbitrary: b b1 ls) (fastforce simp: bench_worker_def split: prod.split_asm)+



section \<open>The history file\<close>

text \<open>
  \<open>WriteFile\<close> of the history, as the lines it writes: one for each operation, in the order in which
  sorting by start has left them, and one with the mean latency in milliseconds and the number of
  operations at the first of them to end after each full second. \<open>ops\<close> is the result of the sorting,
  which is not stable.
\<close>

datatype history_line = OpLine operation real real | PerSecond real nat

definition by_time :: "History \<Rightarrow> operation list \<Rightarrow> bool" where
  "by_time h ops \<longleftrightarrow> mset ops = mset (hOperations h) \<and> sorted_wrt (\<lambda>a b. opStart a \<le> opStart b) ops"

definition file_seconds :: "(real \<Rightarrow> real) \<Rightarrow> int \<Rightarrow> real" where
  "file_seconds fl t = fl (float_int fl t / 1000000000)"

fun write_lines :: "(real \<Rightarrow> real) \<Rightarrow> real \<Rightarrow> nat \<Rightarrow> real \<Rightarrow> operation list \<Rightarrow> history_line list" where
  "write_lines fl latency throughput s [] = []"
| "write_lines fl latency throughput s (o1 # ops) =
     (let start = file_seconds fl (opStart o1);
          end1 = file_seconds fl (opEnd o1);
          latency1 = fl (latency + fl (end1 - start));
          throughput1 = Suc throughput
      in OpLine o1 start end1 #
         (if end1 > s
          then PerSecond (fl (fl (latency1 / float_int fl (int throughput1)) * 1000)) throughput1 # write_lines fl 0 0 (fl (s + 1)) ops
          else write_lines fl latency1 throughput1 s ops))"

definition history_WriteFile :: "(real \<Rightarrow> real) \<Rightarrow> History \<Rightarrow> operation list \<Rightarrow> History \<times> history_line list" where
  "history_WriteFile fl h ops = (h\<lparr>hOperations := ops\<rparr>, write_lines fl 0 0 1 ops)"

fun is_op :: "history_line \<Rightarrow> bool" where
  "is_op (OpLine _ _ _) \<longleftrightarrow> True"
| "is_op (PerSecond _ _) \<longleftrightarrow> False"

fun line_op :: "history_line \<Rightarrow> operation option" where
  "line_op (OpLine o1 _ _) = Some o1"
| "line_op (PerSecond _ _) = None"

fun line_count :: "history_line \<Rightarrow> nat" where
  "line_count (OpLine _ _ _) = 0"
| "line_count (PerSecond _ n) = n"

abbreviation counted :: "history_line list \<Rightarrow> nat" where
  "counted ls \<equiv> sum_list (map line_count ls)"

text \<open>The lines after the last that sums up a second.\<close>

definition uncounted :: "history_line list \<Rightarrow> nat" where
  "uncounted ls = length (takeWhile is_op (rev ls))"

lemma uncounted_all: "list_all is_op ls \<Longrightarrow> uncounted ls = length ls"
proof -
  assume "list_all is_op ls"
  then have "takeWhile is_op (rev ls) = rev ls" by (simp add: list_all_iff)
  then show ?thesis by (simp only: uncounted_def length_rev)
qed

lemma uncounted_Cons:
  "uncounted (OpLine o1 a b # ls) = uncounted ls + (if list_all is_op ls then 1 else 0)" "uncounted (PerSecond m n # ls) = uncounted ls"
  using uncounted_all [of ls] by (auto simp: uncounted_def list_all_iff takeWhile_append)

lemma write_lines_ops: "List.map_filter line_op (write_lines fl latency throughput s ops) = ops"
  by (induction fl latency throughput s ops rule: write_lines.induct) (simp_all add: Let_def)

lemma write_lines_counted:
  "counted (write_lines fl latency throughput s ops) + uncounted (write_lines fl latency throughput s ops) +
     (if list_all is_op (write_lines fl latency throughput s ops) then throughput else 0) = throughput + length ops"
proof (induction fl latency throughput s ops rule: write_lines.induct)
  case (2 fl latency throughput s o1 ops)
  let ?start = "file_seconds fl (opStart o1)" and ?finish = "file_seconds fl (opEnd o1)"
  show ?case
  proof (cases "?finish > s")
    case True
    with "2.IH"(1) [of ?start ?finish "fl (latency + fl (?finish - ?start))" "Suc throughput"] show ?thesis
      by (simp add: Let_def uncounted_Cons)
  next
    case False
    with "2.IH"(2) [of ?start ?finish "fl (latency + fl (?finish - ?start))" "Suc throughput"] show ?thesis
      by (simp add: Let_def uncounted_Cons split: if_split_asm)
  qed
qed (simp add: uncounted_def)

text \<open>
  The file has every operation of the history once, in the order of their starts, and each operation is
  counted in exactly one of the lines that sum up a second, but for those after the last such line, which no
  line counts.
\<close>
theorem history_file_counts:
  assumes "by_time h ops"
  shows "mset (List.map_filter line_op (snd (history_WriteFile fl h ops))) = mset (hOperations h) \<and>
     sorted_wrt (\<lambda>a b. opStart a \<le> opStart b) (List.map_filter line_op (snd (history_WriteFile fl h ops))) \<and>
     counted (snd (history_WriteFile fl h ops)) + uncounted (snd (history_WriteFile fl h ops)) = length (hOperations h)"
proof -
  have "length ops = length (hOperations h)" using assms by (auto simp: by_time_def dest: mset_eq_length)
  with assms write_lines_counted [of fl 0 0 1 ops] show ?thesis by (simp add: history_WriteFile_def write_lines_ops by_time_def)
qed

theorem history_file_counts_witness:
  "\<exists>h ops. by_time h ops \<and> length ops = 1 \<and> counted (snd (history_WriteFile (\<lambda>x. x) h ops)) = 0 \<and>
     counted (snd (history_WriteFile (\<lambda>x. x) h ops)) + uncounted (snd (history_WriteFile (\<lambda>x. x) h ops)) = 1"
proof -
  let ?o = "\<lparr>opInput = None, opOutput = None, opStart = 1, opEnd = 4\<rparr>"
  have b: "by_time (AddOperation NewHistory 1 ?o) [?o]" by (simp add: by_time_def AddOperation_def NewHistory_def)
  moreover have "counted (snd (history_WriteFile (\<lambda>x. x) (AddOperation NewHistory 1 ?o) [?o])) = 0"
    by (simp add: history_WriteFile_def file_seconds_def float_int_def)
  ultimately show ?thesis using history_file_counts [OF b, of "\<lambda>x. x"]
    by (intro exI [of _ "AddOperation NewHistory 1 ?o"] exI [of _ "[?o]"]) (simp add: AddOperation_def NewHistory_def)
qed

end
