(* ===== verification/Program.thy ===== *)
theory Program
  imports Benchmark Config_File Log
begin

text \<open>
  The programs around the library: the initialization that both share (init.go), the client program, which
  runs the benchmark against the replicas (client/client.go), and the profiles that a server records of itself
  (server/debug.go). What the operating system answers is an argument.
\<close>

section \<open>Initialization\<close>

text \<open>The flags have been parsed into the level and the directory of the logger \<open>l\<close>.\<close>

definition bamboo_Init ::
  "(string \<Rightarrow> go_error option) \<Rightarrow> (string \<Rightarrow> string) \<Rightarrow> ('t \<Rightarrow> Config \<Rightarrow> (Config \<times> bool \<times> bool) option) \<Rightarrow>
    't config_files \<Rightarrow> logger \<Rightarrow> Config \<Rightarrow> (logger \<times> Config) go" where
  "bamboo_Init create path decode files l c =
     bindG (log_Setup create path l) (\<lambda>l'.
     bindG (Load_files decode files c) (\<lambda>c'.
       retG (l', c')))"

section \<open>The client program\<close>

record Database =
  dbClient :: HTTPClient

definition Database_Init :: "Database \<Rightarrow> Database \<times> go_error option" where
  "Database_Init d = (d, None)"

definition Database_Stop :: "Database \<Rightarrow> Database \<times> go_error option" where
  "Database_Stop d = (d, None)"

definition Database_Write :: "http \<Rightarrow> ((NodeID \<times> string) list \<Rightarrow> (NodeID \<times> string) list) \<Rightarrow>
  Database \<Rightarrow> int \<Rightarrow> Value \<Rightarrow> Database \<times> go_error option" where
  "Database_Write H finished d k v =
     (case client_Put H finished (dbClient d) k v of (c', err) \<Rightarrow> (d\<lparr>dbClient := c'\<rparr>, err))"

text \<open>
  \<open>main\<close>: \<open>bc\<close> is the benchmark section of the configuration that has been loaded, \<open>nows\<close> are the times at
  which the benchmark reads the clock.
\<close>

definition client_main ::
  "(string \<Rightarrow> go_error option) \<Rightarrow> (string \<Rightarrow> string) \<Rightarrow> ('t \<Rightarrow> Config \<Rightarrow> (Config \<times> bool \<times> bool) option) \<Rightarrow>
    't config_files \<Rightarrow> logger \<Rightarrow> Bconfig \<Rightarrow> (real \<Rightarrow> real) \<Rightarrow> int list \<Rightarrow> (Database \<times> Benchmark \<times> Stat) go" where
  "client_main create path decode files l bc fl nows =
     bindG (bamboo_Init create path decode files l MakeDefaultConfig) (\<lambda>(l', c).
       case NewHTTPClient c of (cl, c') \<Rightarrow>
         bindG (NewBenchmark bc) (\<lambda>b.
         bindG (bench_Run fl c' b nows) (\<lambda>(b', st).
           retG (\<lparr>dbClient = cl\<rparr>, b', st))))"

section \<open>The benchmark's defaults and reports\<close>

definition DefaultBConfig :: Bconfig where
  "DefaultBConfig = \<lparr>bcT = 60, bcN = 0, bcThrottle = 0, bcConcurrency = 1, bcDistribution = []\<rparr>"

text \<open>The defaults name no distribution, and the first key that is asked for ends the program.\<close>

lemma default_has_no_keys: "bmConfig b = DefaultBConfig \<Longrightarrow> bench_next c b now = panicG LogFatal"
  by (simp add: bench_next_def DefaultBConfig_def)

text \<open>A file with a line for each latency, and the summary; \<open>println\<close> and \<open>decimals\<close> are the formats of \<open>fmt\<close>.\<close>

definition Stat_WriteFile :: "(real \<Rightarrow> string) \<Rightarrow> go_error option \<Rightarrow> go_error option \<Rightarrow> Stat \<Rightarrow> go_error + string list" where
  "Stat_WriteFile println create flush s =
     (case create of
        Some err \<Rightarrow> Inl err
      | None \<Rightarrow> (case flush of Some err \<Rightarrow> Inl err | None \<Rightarrow> Inr (map println (stData s))))"

definition Stat_String :: "(real \<Rightarrow> string) \<Rightarrow> Stat \<Rightarrow> string" where
  "Stat_String decimals s = concat (map (\<lambda>l. l @ [CHR 0x0A])
     [''size = '' @ Itoa (int (stSize s)), ''mean = '' @ decimals (stMean s), ''min = '' @ decimals (stMin s),
      ''max = '' @ decimals (stMax s), ''median = '' @ decimals (stMedian s), ''p95 = '' @ decimals (stP95 s),
      ''p99 = '' @ decimals (stP99 s), ''p999 = '' @ decimals (stP999 s)])"

section \<open>Profiles\<close>

datatype stat_answer = PathThere | PathMissing | StatFails go_error

definition pathExists :: "stat_answer \<Rightarrow> bool \<times> go_error option" where
  "pathExists st =
     (case st of
        PathThere \<Rightarrow> (True, None)
      | PathMissing \<Rightarrow> (False, None)
      | StatFails err \<Rightarrow> (False, Some err))"

text \<open>
  The goroutine that records: the files it has asked for, oldest first, the CPU profile being recorded and
  the name for the next heap profile. Errors in creating and writing them are dropped.
\<close>

record profiler =
  pfFiles :: "string list"
  pfCpu :: string
  pfMem :: string

text \<open>The names of a round, from the two times at which the clock is read.\<close>

definition profile_names :: "(time \<Rightarrow> string) \<Rightarrow> time \<times> time \<Rightarrow> string \<times> string" where
  "profile_names format t = (''./debug/cpu_'' @ format (fst t), ''./debug/mem_'' @ format (snd t))"

text \<open>\<open>None\<close>: the directory cannot be had, and the goroutine returns.\<close>

definition recordPProf :: "(time \<Rightarrow> string) \<Rightarrow> stat_answer \<Rightarrow> go_error option \<Rightarrow> time \<times> time \<Rightarrow> profiler option" where
  "recordPProf format st mkdir t =
     (case pathExists st of (exist, err) \<Rightarrow>
        if err \<noteq> None then None
        else if \<not> exist \<and> mkdir \<noteq> None then None
        else case profile_names format t of (cpu, mem) \<Rightarrow> Some \<lparr>pfFiles = [cpu], pfCpu = cpu, pfMem = mem\<rparr>)"

definition profile_tick :: "(time \<Rightarrow> string) \<Rightarrow> profiler \<Rightarrow> time \<times> time \<Rightarrow> profiler" where
  "profile_tick format p t =
     (case profile_names format t of (cpu, mem) \<Rightarrow> \<lparr>pfFiles = pfFiles p @ [pfMem p, cpu], pfCpu = cpu, pfMem = mem\<rparr>)"

text \<open>The goroutines that \<open>setupDebug\<close> starts.\<close>

datatype goroutine = ListenAndServe string | RecordPProf Duration

definition setupDebug :: "Config \<Rightarrow> goroutine list" where
  "setupDebug c = (if cfgPprof c then [ListenAndServe (''0.0.0.0'' @ '':'' @ ''10001''), RecordPProf (5 * 1000000000)] else [])"

lemma profile_ticks:
  "pfFiles (fold (\<lambda>t p. profile_tick format p t) ts p) =
     pfFiles p @ concat (map2 (\<lambda>m c. [m, c]) (pfMem p # map (snd \<circ> profile_names format) ts) (map (fst \<circ> profile_names format) ts))"
proof (induction ts arbitrary: p)
  case (Cons t ts)
  show ?case using Cons [of "profile_tick format p t"] by (cases ts) (simp_all add: profile_tick_def split_beta)
qed simp

text \<open>
  A server's profiles alternate, a CPU profile and then the heap at its end, and the name of a heap profile
  tells the time at which its interval began, not the time at which it was written.
\<close>
theorem profiles_alternate:
  assumes "recordPProf format st mkdir t0 = Some p"
  shows "pfFiles (fold (\<lambda>t p. profile_tick format p t) ts p) =
    fst (profile_names format t0) #
      concat (map2 (\<lambda>m c. [m, c]) (map (snd \<circ> profile_names format) (t0 # ts)) (map (fst \<circ> profile_names format) ts))"
proof -
  have "pfFiles p = [fst (profile_names format t0)]" "pfMem p = snd (profile_names format t0)"
    using assms by (auto simp: recordPProf_def split: prod.split_asm if_split_asm)
  then show ?thesis by (simp add: profile_ticks)
qed

theorem profiles_alternate_witness:
  "\<exists>p. recordPProf (\<lambda>t. if t = 0 then ''a'' else ''b'') PathMissing None (0, 0) = Some p \<and>
     pfFiles (profile_tick (\<lambda>t. if t = 0 then ''a'' else ''b'') p (5, 5)) = [''./debug/cpu_a'', ''./debug/mem_a'', ''./debug/cpu_b'']"
proof -
  let ?f = "\<lambda>t. if t = (0 :: int) then ''a'' else ''b''"
  obtain p where p: "recordPProf ?f PathMissing None (0, 0) = Some p"
    by (simp add: recordPProf_def pathExists_def profile_names_def)
  from profiles_alternate [OF p, of "[(5, 5)]"] p show ?thesis by (auto simp: profile_names_def)
qed

section \<open>The keys of the benchmark\<close>

text \<open>The keys that a write under \<open>key\<close> puts to the nodes of the client, and the key of the \<open>j\<close>-th operation.\<close>

definition write_keys :: "HTTPClient \<Rightarrow> int \<Rightarrow> int set" where
  "write_keys cl key = (\<lambda>(i, _). i64 (key + Node i)) ` set (clHTTP cl)"

definition operation_key :: "Config \<Rightarrow> nat \<Rightarrow> int" where
  "operation_key c j = int j * (int (config_N c) - ByzNo c)"

lemma image_shift: "0 \<le> lo \<Longrightarrow> (\<lambda>k. key + int k) ` {nat lo + 1..n} = {key + lo + 1..key + int n}"
proof (intro equalityI subsetI)
  fix x assume "0 \<le> lo" "x \<in> {key + lo + 1..key + int n}"
  then have "x = key + int (nat (x - key))" "nat (x - key) \<in> {nat lo + 1..n}" by auto
  then show "x \<in> (\<lambda>k. key + int k) ` {nat lo + 1..n}" by blast
qed auto

lemma client_nodes:
  assumes "NewHTTPClient c = (cl, c')" and "fst ` set (HTTPAddrs c) = (\<lambda>k. NewNodeID (int k)) ` {1..n}" and "int n < 2 ^ 62"
    and "0 \<le> ByzNo c" and "ByzNo c < int n" and "0 \<le> key" and "key < 2 ^ 62"
    and "lo = (if Strategy c = ''silence'' then ByzNo c else 0)"
  shows "write_keys cl key = {key + lo + 1..key + int n}"
proof -
  have inj: "NewNodeID (int a) = NewNodeID (int b) \<longleftrightarrow> a = b" if "a \<le> n" "b \<le> n" for a b
    using NewNodeID_inj [of "int a" "int b"] that assms(3) by auto
  have "fst ` set (clHTTP cl) = {i \<in> fst ` set (HTTPAddrs c). Strategy c = ''silence'' \<longrightarrow>
      i \<notin> (\<lambda>k. NewNodeID (int k)) ` {1..<Suc (nat (ByzNo c))}}"
    using assms(1) by (force simp: NewHTTPClient_def Let_def image_iff split: if_split_asm)
  also have "\<dots> = (\<lambda>k. NewNodeID (int k)) ` {nat lo + 1..n}"
    unfolding assms(2,8) using assms(4,5) by (auto simp: image_iff inj)
  finally have nodes: "fst ` set (clHTTP cl) = (\<lambda>k. NewNodeID (int k)) ` {nat lo + 1..n}" .
  have "write_keys cl key = (\<lambda>i. i64 (key + Node i)) ` (fst ` set (clHTTP cl))"
    by (force simp: write_keys_def)
  also have "\<dots> = (\<lambda>k. key + int k) ` {nat lo + 1..n}"
    unfolding nodes image_image
  proof (rule image_cong [OF refl])
    fix k assume "k \<in> {nat lo + 1..n}"
    then have "int k < 2 ^ 62" using assms(3) by auto
    with assms(6,7) show "i64 (key + Node (NewNodeID (int k))) = key + int k"
      by (subst Node_NewNodeID) (auto intro!: i64_id simp: is_i64_def)
  qed
  also have "\<dots> = {key + lo + 1..key + int n}" by (rule image_shift) (simp add: assms(4,8))
  finally show ?thesis .
qed

lemma generated_keys:
  assumes "bench_generate c b nows = retG (b', ks)" and "0 \<le> ByzNo c" and "ByzNo c \<le> int (config_N c)"
    and "int (bmCount b) + int (length nows) * int (config_N c) < 2 ^ 62" and "j < length ks"
  shows "ks ! j = int (bmCount b) + operation_key c j"
  using assms(1,4,5)
proof (induction nows arbitrary: b ks j)
  case (Cons now nows)
  obtain b1 k ks1 where g: "bench_next c (b\<lparr>bmWait := bmWait b + 1\<rparr>) now = retG (b1, k)" "ks = k # ks1"
      "bench_generate c b1 nows = retG (b', ks1)"
    using Cons.prems(1) by (auto elim!: bindG_RetE)
  let ?d = "int (config_N c) - ByzNo c"
  have small: "int (bmCount b) + int (config_N c) < 2 ^ 62"
  proof -
    have "int (config_N c) \<le> int (length (now # nows)) * int (config_N c)" by (simp add: algebra_simps)
    with Cons.prems(2) show ?thesis by linarith
  qed
  then have u: "u64 ?d = nat ?d" "u64 (int (bmCount b) + int (nat ?d)) = bmCount b + nat ?d"
    using assms(2,3) by (subst u64_nonneg; auto)+
  have i: "i64 (int (bmCount b)) = int (bmCount b)" using small by (intro i64_id) (simp add: is_i64_def)
  have k: "k = int (bmCount b)" "bmCount b1 = bmCount b + nat ?d"
    using g(1) u i by (auto simp: bench_next_def Let_def limiter_Wait_def split: if_split_asm option.split_asm)
  show ?case
  proof (cases j)
    case 0
    then show ?thesis by (simp add: g(2) k(1) operation_key_def)
  next
    case (Suc i)
    have "int (bmCount b1) \<le> int (bmCount b) + int (config_N c)" using k(2) assms(2,3) by simp
    then have "int (bmCount b1) + int (length nows) * int (config_N c) < 2 ^ 62"
      using Cons.prems(2) by (simp add: algebra_simps)
    from Cons.IH [OF g(3) this, of i] Cons.prems(3) Suc have "ks1 ! i = int (bmCount b1) + operation_key c i" by (simp add: g(2))
    with Suc k(2) assms(2,3) show ?thesis by (simp add: g(2) operation_key_def algebra_simps)
  qed
qed simp

text \<open>
  The keys that the client program writes. The client adds the number of a node to a key for every node
  it writes to, and the benchmark advances its keys by the number of nodes that are not Byzantine. No two
  operations of a run write the same key when there is no Byzantine node or the Byzantine nodes are silent
  and the client leaves them out; under any other strategy, every operation writes to keys of the one
  before it.
\<close>
theorem benchmark_keys:
  assumes "bench_generate c b nows = retG (b', ks)" and "bmCount b = 0" and "NewHTTPClient c = (cl, c')"
    and "fst ` set (HTTPAddrs c) = (\<lambda>k. NewNodeID (int k)) ` {1..config_N c}"
    and "0 \<le> ByzNo c" and "ByzNo c < int (config_N c)" and "(int (length nows) + 1) * int (config_N c) < 2 ^ 62"
  shows "(ByzNo c = 0 \<or> Strategy c = ''silence'' \<longrightarrow>
       (\<forall>j j'. j < j' \<and> j' < length ks \<longrightarrow> write_keys cl (ks ! j) \<inter> write_keys cl (ks ! j') = {})) \<and>
     (ByzNo c \<noteq> 0 \<and> Strategy c \<noteq> ''silence'' \<longrightarrow>
       (\<forall>j. Suc j < length ks \<longrightarrow> write_keys cl (ks ! j) \<inter> write_keys cl (ks ! Suc j) \<noteq> {}))"
proof -
  let ?n = "int (config_N c)" and ?d = "int (config_N c) - ByzNo c"
  have len: "length ks = length nows" using bench_generate_fields [OF assms(1)] by simp
  have n: "?n < 2 ^ 62" "0 + int (length nows) * ?n < 2 ^ 62"
  proof -
    have "(int (length nows) + 1) * ?n = int (length nows) * ?n + ?n" "0 \<le> int (length nows) * ?n" by (simp_all add: algebra_simps)
    with assms(7) show "?n < 2 ^ 62" "0 + int (length nows) * ?n < 2 ^ 62" by linarith+
  qed
  have key: "ks ! j = int j * ?d" if "j < length ks" for j
    using generated_keys [OF assms(1,5) _ _ that] assms(2,6) n(2) by (simp add: operation_key_def)
  have keys: "write_keys cl (ks ! j) = {int j * ?d + (if Strategy c = ''silence'' then ByzNo c else 0) + 1..int j * ?d + ?n}"
    if "j < length ks" for j
  proof -
    have "int j * ?d \<le> int (length nows) * ?n" using that len assms(5,6) by (intro mult_mono) auto
    then have "0 \<le> int j * ?d" "int j * ?d < 2 ^ 62" using n(2) assms(6) by auto
    from client_nodes [OF assms(3,4) n(1) assms(5,6) this refl] show ?thesis by (simp add: key [OF that])
  qed
  have step: "int j * ?d + ?d \<le> int j' * ?d" if "j < j'" for j j'
  proof -
    have "int (Suc j) * ?d \<le> int j' * ?d" using that assms(6) by (intro mult_right_mono) auto
    then show ?thesis by (simp add: algebra_simps)
  qed
  show ?thesis
  proof (intro conjI impI allI)
    fix j j' assume a: "ByzNo c = 0 \<or> Strategy c = ''silence''" "j < j' \<and> j' < length ks"
    then show "write_keys cl (ks ! j) \<inter> write_keys cl (ks ! j') = {}"
      using step [of j j'] keys [of j] keys [of j'] by auto
  next
    fix j assume a: "ByzNo c \<noteq> 0 \<and> Strategy c \<noteq> ''silence''" "Suc j < length ks"
    have "int j * ?d + ?n \<in> write_keys cl (ks ! j) \<inter> write_keys cl (ks ! Suc j)"
      using a keys [of j] keys [of "Suc j"] assms(5,6) by (simp add: algebra_simps)
    then show "write_keys cl (ks ! j) \<inter> write_keys cl (ks ! Suc j) \<noteq> {}" by blast
  qed
qed

definition forking_config :: Config where
  "forking_config = MakeDefaultConfig\<lparr>HTTPAddrs := [(NewNodeID 1, ''http://a''), (NewNodeID 2, ''http://b'')], cfg_n := 2, ByzNo := 1,
     Strategy := ''fork''\<rparr>"

theorem benchmark_keys_witness:
  "\<exists>b b' ks cl. bench_generate forking_config b [0, 0] = retG (b', ks) \<and> NewHTTPClient forking_config = (cl, forking_config) \<and>
     write_keys cl (ks ! 0) \<inter> write_keys cl (ks ! 1) \<noteq> {}"
proof -
  let ?bc = "\<lparr>bcT = 0, bcN = 2, bcThrottle = 0, bcConcurrency = 1, bcDistribution = ''uniform''\<rparr>"
  let ?b = "\<lparr>bmConfig = ?bc, bmRate = None, bmCount = 0, bmLatency = [], bmWait = 0, bmWrites = []\<rparr>"
  obtain b' ks where g: "bench_generate forking_config ?b [0, 0] = retG (b', ks)"
    by (simp add: bench_next_def Let_def)
  have len: "length ks = 2" using bench_generate_fields [OF g] by simp
  obtain cl where cl: "NewHTTPClient forking_config = (cl, forking_config)"
    by (simp add: NewHTTPClient_def forking_config_def Let_def)
  have c: "config_N forking_config = 2" "ByzNo forking_config = 1" "Strategy forking_config = ''fork''"
    by (simp_all add: forking_config_def config_N_def)
  have "{1..2} = {1, 2 :: nat}" by auto
  then have ids: "fst ` set (HTTPAddrs forking_config) = (\<lambda>k. NewNodeID (int k)) ` {1..config_N forking_config}"
    by (simp add: c(1)) (simp add: forking_config_def)
  have "\<forall>j. Suc j < length ks \<longrightarrow> write_keys cl (ks ! j) \<inter> write_keys cl (ks ! Suc j) \<noteq> {}"
    using benchmark_keys [OF g _ cl ids] by (simp add: c)
  then have "write_keys cl (ks ! 0) \<inter> write_keys cl (ks ! 1) \<noteq> {}" using len by force
  with g cl show ?thesis by blast
qed

end
