(* ===== verification/Timecal.thy ===== *)
theory Timecal
  imports Clock
begin

text \<open>
  The time calculator (timecal/time_cal.go): it notes when a command is received and when it is done,
  and reports the latencies of the commands of which it knows both. The order in which Go ranges over the
  finished commands is an argument.
\<close>

record timeCalculator =
  receivedTime :: "string \<rightharpoonup> time"
  finishedTime :: "string \<rightharpoonup> time"

definition NewTimeCal :: timeCalculator where
  "NewTimeCal = \<lparr>receivedTime = Map.empty, finishedTime = Map.empty\<rparr>"

definition RecvTs :: "timeCalculator \<Rightarrow> string \<Rightarrow> time \<Rightarrow> timeCalculator" where
  "RecvTs tc commandD now = tc\<lparr>receivedTime := (receivedTime tc)(commandD \<mapsto> now)\<rparr>"

definition forget :: "timeCalculator \<Rightarrow> string \<Rightarrow> timeCalculator" where
  "forget tc digest =
     tc\<lparr>receivedTime := (receivedTime tc)(digest := None), finishedTime := (finishedTime tc)(digest := None)\<rparr>"

text \<open>A key that is missing from a map reads as the zero time.\<close>

definition finished_at :: "timeCalculator \<Rightarrow> string \<Rightarrow> time" where
  "finished_at tc commandD = (case finishedTime tc commandD of None \<Rightarrow> 0 | Some t \<Rightarrow> t)"

text \<open>The loop over the finished commands.\<close>

fun done_loop :: "string \<Rightarrow> timeCalculator \<Rightarrow> string list \<Rightarrow> timeCalculator \<times> Duration list" where
  "done_loop commandD tc [] = (tc, [])"
| "done_loop commandD tc (digest # ds) =
     (case receivedTime tc digest of
        None \<Rightarrow> done_loop commandD tc ds
      | Some recv \<Rightarrow>
          let latency = time_Sub (finished_at tc commandD) recv
          in case done_loop commandD (forget tc digest) ds of (tc', ls) \<Rightarrow> (tc', latency # ls))"

definition DoneTs :: "timeCalculator \<Rightarrow> string \<Rightarrow> time \<Rightarrow> string list \<Rightarrow> timeCalculator \<times> Duration list" where
  "DoneTs tc commandD now digests =
     done_loop commandD (tc\<lparr>finishedTime := (finishedTime tc)(commandD \<mapsto> now)\<rparr>) digests"

text \<open>What a range over the finished commands can visit once \<open>commandD\<close> is one of them.\<close>

definition range_order :: "timeCalculator \<Rightarrow> string \<Rightarrow> string list \<Rightarrow> bool" where
  "range_order tc commandD ds \<longleftrightarrow> distinct ds \<and> set ds = insert commandD (dom (finishedTime tc))"

definition known_of :: "timeCalculator \<Rightarrow> string list \<Rightarrow> string list" where
  "known_of tc ds = filter (\<lambda>d. receivedTime tc d \<noteq> None) ds"

definition latencies :: "timeCalculator \<Rightarrow> time \<Rightarrow> string list \<Rightarrow> Duration list" where
  "latencies tc t ds = map (\<lambda>d. time_Sub t (the (receivedTime tc d))) (known_of tc ds)"

lemma known_Cons [simp]:
  "known_of tc (d # ds) = (if receivedTime tc d \<noteq> None then d # known_of tc ds else known_of tc ds)" "known_of tc [] = []"
  by (simp_all add: known_of_def)

lemma forget_fields [simp]:
  "receivedTime (forget tc d) = (receivedTime tc)(d := None)" "finishedTime (forget tc d) = (finishedTime tc)(d := None)"
  "finished_at (forget tc d) c = (if c = d then 0 else finished_at tc c)"
  by (simp_all add: forget_def finished_at_def)

lemma latencies_simps [simp]:
  "latencies tc t [] = []"
  "latencies tc t (d # ds) = (case receivedTime tc d of None \<Rightarrow> latencies tc t ds | Some r \<Rightarrow> time_Sub t r # latencies tc t ds)"
  by (simp_all add: latencies_def split: option.split)

lemma latencies_forget [simp]: "d \<notin> set ds \<Longrightarrow> latencies (forget tc d) t ds = latencies tc t ds"
  by (induction ds) (auto split: option.split)

lemma done_loop_simps:
  "receivedTime tc d = None \<Longrightarrow> done_loop c tc (d # ds) = done_loop c tc ds"
  "receivedTime tc d = Some r \<Longrightarrow> fst (done_loop c tc (d # ds)) = fst (done_loop c (forget tc d) ds)"
  "receivedTime tc d = Some r \<Longrightarrow> snd (done_loop c tc (d # ds)) = time_Sub (finished_at tc c) r # snd (done_loop c (forget tc d) ds)"
  by (simp_all split: prod.split)

declare done_loop.simps(2) [simp del]

lemma done_loop_state:
  "distinct ds \<Longrightarrow> fst (done_loop c tc ds) =
     tc\<lparr>receivedTime := receivedTime tc |` (- set ds),
        finishedTime := finishedTime tc |` (- set (known_of tc ds))\<rparr>"
proof (induction ds arbitrary: tc)
  case (Cons d ds)
  have k: "known_of (forget tc d) ds = known_of tc ds"
    using Cons.prems unfolding known_of_def by (intro filter_cong) auto
  show ?case
  proof (cases "receivedTime tc d")
    case None
    then have "receivedTime tc |` (- set ds) = receivedTime tc |` (- set (d # ds))" by (auto simp: restrict_map_def fun_eq_iff)
    with Cons None show ?thesis by (simp add: done_loop_simps)
  next
    case (Some r)
    with Cons k show ?thesis
      by (simp add: done_loop_simps) (simp add: forget_def restrict_map_def fun_eq_iff)
  qed
qed (simp add: restrict_map_def)

lemma done_loop_rest:
  "distinct ds \<Longrightarrow> c \<notin> set ds \<Longrightarrow> snd (done_loop c tc ds) = latencies tc (finished_at tc c) ds"
proof (induction ds arbitrary: tc)
  case (Cons d ds)
  then show ?case by (cases "receivedTime tc d") (simp_all add: done_loop_simps)
qed simp

lemma done_loop_through:
  "distinct (us @ c # vs) \<Longrightarrow> receivedTime tc c = Some r \<Longrightarrow>
     snd (done_loop c tc (us @ c # vs)) = latencies tc (finished_at tc c) us @ time_Sub (finished_at tc c) r # latencies tc 0 vs"
proof (induction us arbitrary: tc)
  case Nil
  then show ?case by (simp add: done_loop_simps done_loop_rest)
next
  case (Cons u us)
  then show ?case by (cases "receivedTime tc u") (auto simp: done_loop_simps)
qed

lemma done_loop_unknown: "\<forall>d \<in> set ds. receivedTime tc d = None \<Longrightarrow> done_loop c tc ds = (tc, [])"
  by (induction ds) (simp_all add: done_loop_simps)

lemma latencies_unknown: "\<forall>d \<in> set ds. receivedTime tc d = None \<Longrightarrow> latencies tc t ds = []"
  by (induction ds) auto

text \<open>
  When no finished command is waiting to be received, a command that is done is reported with the time
  since it was received, and forgotten, whatever the order of the range; a command that has not been
  received is reported by nothing and kept.
\<close>
theorem latency_of_command:
  assumes "range_order tc c ds" and "\<forall>d \<in> dom (finishedTime tc). d \<noteq> c \<longrightarrow> receivedTime tc d = None"
  shows "DoneTs tc c now ds =
    (case receivedTime tc c of
       None \<Rightarrow> (tc\<lparr>finishedTime := (finishedTime tc)(c \<mapsto> now)\<rparr>, [])
     | Some r \<Rightarrow> (forget tc c, [time_Sub now r]))"
proof -
  let ?tc = "tc\<lparr>finishedTime := (finishedTime tc)(c \<mapsto> now)\<rparr>"
  have "c \<in> set ds" using assms(1) by (simp add: range_order_def)
  then obtain us vs where ds: "ds = us @ c # vs" by (auto dest: split_list)
  have d: "distinct (us @ c # vs)" using assms(1) ds by (simp add: range_order_def)
  have "\<forall>d \<in> set us \<union> set vs. d \<in> dom (finishedTime tc) \<and> d \<noteq> c" using assms(1) ds d by (auto simp: range_order_def)
  then have u: "\<forall>d \<in> set us. receivedTime ?tc d = None" "\<forall>d \<in> set vs. receivedTime ?tc d = None" using assms(2) by auto
  show ?thesis
  proof (cases "receivedTime tc c")
    case None
    then have "\<forall>d \<in> set ds. receivedTime ?tc d = None" using u ds by auto
    with None show ?thesis unfolding DoneTs_def by (simp add: done_loop_unknown)
  next
    case (Some r)
    have k: "known_of ?tc (us @ c # vs) = [c]" using u Some by (auto simp: known_of_def filter_empty_conv)
    have "receivedTime tc |` (- set (us @ c # vs)) = (receivedTime tc)(c := None)"
      using u by (auto simp: restrict_map_def fun_eq_iff)
    then have "fst (DoneTs tc c now ds) = forget tc c"
      unfolding DoneTs_def ds done_loop_state [OF d] k by (simp add: forget_def restrict_map_def fun_eq_iff)
    moreover have "snd (DoneTs tc c now ds) = [time_Sub now r]"
      using done_loop_through [OF d, of ?tc r] u Some
      unfolding DoneTs_def ds by (simp add: latencies_unknown finished_at_def)
    ultimately show ?thesis using Some by (simp add: prod_eq_iff)
  qed
qed

theorem latency_of_command_witness:
  "DoneTs (RecvTs NewTimeCal ''a'' 5) ''a'' 8 [''a''] = (forget (RecvTs NewTimeCal ''a'' 5) ''a'', [3])"
proof -
  have "range_order (RecvTs NewTimeCal ''a'' 5) ''a'' [''a'']" by (simp add: range_order_def RecvTs_def NewTimeCal_def)
  from latency_of_command [OF this, of 8] show ?thesis
    by (simp add: RecvTs_def NewTimeCal_def time_Sub_def minDuration_def maxDuration_def)
qed

text \<open>
  A command that was done before it was received stays among the finished ones, and the next command
  that is done decides its latency: if the range reaches the waiting command first, it gets the time to
  the other command's end; if not, the end it is measured from has been deleted, and it gets the
  smallest duration there is.
\<close>
theorem waiting_command_latency:
  assumes "c \<noteq> d" and "2 ^ 63 \<le> t1" and "t1 \<le> t2" and "t2 \<le> t3"
  defines "tc \<equiv> RecvTs (RecvTs (fst (DoneTs NewTimeCal d t1 [d])) d t2) c t2"
  shows "range_order tc c [d, c] \<and> snd (DoneTs tc c t3 [d, c]) = [time_Sub t3 t2, time_Sub t3 t2] \<and>
     range_order tc c [c, d] \<and> snd (DoneTs tc c t3 [c, d]) = [time_Sub t3 t2, minDuration]"
  using assms(1-4) unfolding tc_def range_order_def DoneTs_def
  by (auto simp: RecvTs_def NewTimeCal_def done_loop.simps finished_at_def forget_def unset_time_Sub Let_def)

theorem waiting_command_latency_witness:
  "\<exists>tc. snd (DoneTs tc ''c'' (2 ^ 65) [''c'', ''d'']) = [0, minDuration]"
proof -
  have "snd (DoneTs (RecvTs (RecvTs (fst (DoneTs NewTimeCal ''d'' (2 ^ 65) [''d''])) ''d'' (2 ^ 65)) ''c'' (2 ^ 65)) ''c'' (2 ^ 65) [''c'', ''d'']) =
      [time_Sub (2 ^ 65) (2 ^ 65), minDuration]"
    using waiting_command_latency [of "''c''" "''d''" "2 ^ 65" "2 ^ 65" "2 ^ 65"] by simp
  then show ?thesis by (auto simp: time_Sub_def minDuration_def maxDuration_def)
qed

end
