(* ===== verification/Spec2Isabelle.thy ===== *)
theory Spec2Isabelle
  imports Agreement_Props Streamlet_Props Server Http Monitor_Props Network Message Hash Encoding Program Timecal
begin

text \<open>
  A verification of Bamboo, a framework for chained Byzantine fault-tolerant protocols written in Go. A
  server (server/) starts replicas (replica/); a replica runs one of five protocols behind the interface
  of replica/safety.go, on top of a node (node/) with its sockets and transports; the protocols share the
  block tree (blockchain/), the pacemaker (pacemaker/), the election of leaders (election/) and the
  signatures (crypto/). Clients (client.go) put values over HTTP, and a benchmark (benchmark/) drives them.

  \<^bold>\<open>Conventions.\<close> A Go call is a value of type \<open>'a go\<close>: it returns (\<open>retG\<close>), panics (\<open>panicG\<close>, which
  includes a fatal log) or never returns (\<open>None\<close>); loops that may not end are partial functions, and a
  claim that they end is stated as such, so no fuel is used. Errors are values of \<open>go_error\<close>. Structs are
  records, methods are definitions named after them (prefixed where the name is taken: \<open>hs_\<close>, \<open>th_\<close>, \<open>f_\<close>,
  \<open>sl_\<close>, \<open>lb_\<close> for the protocols, \<open>rep_\<close>, \<open>saf_\<close> for the replica, \<open>tm_\<close> for the replica with its clocks,
  \<open>sk_\<close> for sockets, \<open>tp_\<close> for transports). Times are nanoseconds since the zero time of Go, and the
  readings of the clock are arguments.
  Views are 64-bit integers with their wrap-around written out; the theorems on runs ask that views
  stay below the largest one (\<open>small_view\<close>). Counters that only feed statistics are unbounded integers.
  Quorum certificates are shared and overwritten by the program, so they live in a heap and a pointer
  to one is an address. A channel is the list of what has been sent on it. The order in which Go ranges
  over a map, random draws, clocks and the answers of libraries are arguments, and what is asked of
  them is a named hypothesis (\<open>bitset_laws\<close>, \<open>fl_ok\<close>, \<open>reachable\<close>).

  \<^bold>\<open>Foundations.\<close> \<open>Prelude\<close> has the Go calls and their rules; \<open>Identity\<close> node names (identity/);
  \<open>Crypto\<close> identifiers, hashers, signatures and the verification of a quorum, \<open>Keys\<close> the key table
  (crypto/); \<open>Election\<close> the rotation over SHA-1 and the static leader, with the contract \<open>election\<close>: a
  view has exactly one leader among the members; \<open>Db\<close> the store and its commands (db/); \<open>Config\<close> the
  configuration (config/); \<open>Clock\<close> times, durations and floats as the program uses them.

  \<^bold>\<open>Chain.\<close> \<open>Threshold\<close> is the contract of a counter that reports when two thirds have been heard,
  provided by the votes of \<open>Quorum\<close> (blockchain/quorum.go) and the timeouts of \<open>Pacemaker\<close>. \<open>Block\<close> has
  the blocks, \<open>Forest\<close> the levelled forest with its containers in a store, \<open>Forest_Inv\<close> its invariant and
  the contract \<open>block_store\<close>, \<open>BlockChain\<close> insertion, votes and commits. They show that a lookup changes only at what
  was inserted or pruned, that pruning and committing end on a forest grown in chain order and what they
  return, that the committed levels increase, and that two certificates share an honest signer.

  \<^bold>\<open>Protocols.\<close> \<open>Chained\<close> is the state of the three HotStuff variants, \<open>Safety\<close> the contract every protocol
  provides (\<open>safety\<close>: each handler keeps the invariant and only moves forward) with the parts they share
  (\<open>certifier\<close>, \<open>vote_counter\<close>). \<open>HotStuff\<close>, \<open>Tchs\<close>, \<open>Fhs\<close>, \<open>Streamlet\<close> with \<open>Streamlet_Inv\<close>, and \<open>Lbft\<close>
  translate hotstuff/, tchs/, fasthostuff/, streamlet/ and lbft/, every handler whole. \<open>HotStuff_Props\<close>,
  \<open>Tchs_Props\<close> and \<open>Streamlet_Props\<close> say when each commits and votes, in both directions, that Fast-HotStuff is
  two-chain HotStuff and LBFT is Streamlet, and where the code leaves out a check. \<open>Samples\<close> has the concrete
  states of the instances.

  \<^bold>\<open>Agreement.\<close> \<open>Agreement\<close> has the history that a system of replicas leaves behind, the blocks and who voted for
  them, and the argument that committed blocks do not conflict; \<open>Agreement_Chained\<close> the invariant that ties a
  replica's state to a history, what it is to take only genuine messages, and the contracts of the handlers
  (\<open>agreeing_certifier\<close>, \<open>agreeing_counter\<close>, \<open>agreeing_block_handler\<close>, \<open>agreeing_protocol\<close>); \<open>Agreement_Props\<close> that HotStuff
  and two-chain HotStuff meet them, so that two replicas never commit conflicting blocks. What this asks of the
  votes of honest nodes is a hypothesis on the history (\<open>votes_ok\<close>, \<open>locked_on_grandparents\<close>, \<open>locked_on_parents\<close>): the
  code keeps the lock after a vote on a certificate that is not stale (\<open>hs_keeps_lock\<close>), but misses it on a stale
  one (\<open>hs_vote_misses_lock\<close>), can vote twice in a view (\<open>hs_votes_twice\<close>), and its certificates can be forged
  with the keys of the server (\<open>one_node_forges_certificates\<close>). So agreement is not claimed of the program as it
  stands, but under the conditions that these theorems show to be missing. Streamlet's commit rule does not look at
  parents, and no agreement is claimed for it.

  \<^bold>\<open>Replica and node.\<close> \<open>Mempool\<close> is the transaction pool (mempool/) with the contract \<open>transaction_pool\<close>;
  \<open>Replica\<close> the message handlers, the event loop and the listeners of replica/replica.go; \<open>Replica_Inv\<close>
  the relation \<open>rep_step\<close> of all that can happen to a replica that follows its protocol, in any
  interleaving, with its invariant; \<open>Replica_Props\<close> the refinement of a replicated log, proposals and the
  start. \<open>Monitor\<close> puts the replica together with its node: the registered handlers, the statistics around
  every handler, the timer of the view and the answer to a query; \<open>Monitor_Props\<close> shows that such a machine
  takes only steps of the replica, that every value finds its handler, and what durations and timer are
  worth. A Byzantine replica is modelled, but the invariant of runs is that of the others. \<open>Node\<close> is the
  dispatch of messages by their type, \<open>Http\<close> the HTTP routes (node/), \<open>Socket\<close> sending and fault injection,
  \<open>Transport\<close> the transport within a process, \<open>Network\<close> the goroutines that send and read over TCP and UDP,
  \<open>Message\<close> requests and replies (message/), \<open>Hash\<close> the conversions of hashes, \<open>Encoding\<close> the encoders of
  types/encoding/, \<open>Utils\<close> retries, scheduling and random picks, \<open>Log\<close> the levels and writers of log/, \<open>Config_File\<close>
  loading and saving the configuration, \<open>Server\<close> the start of the replicas. They show that TCP keeps the order
  and UDP the messages that fit, that a saved configuration is loaded as it was, and which lines are logged.

  \<^bold>\<open>Clients.\<close> \<open>Client\<close> is the REST client with the operation history, \<open>Benchmark\<close> the rate limiter, the
  statistics, the main loop and the history file, \<open>Program\<close> the initialization (init.go), the client program
  (client/) and the profiles of a server (server/debug.go), \<open>Timecal\<close> the time calculator (timecal/). A float is
  the real number it stands for with the rounding as an argument.

  \<^bold>\<open>This theory\<close> has the properties that span components: one proposer per view, from the election and
  the replicas; and what the key table means for certificates.

  \<^bold>\<open>Not modelled.\<close> The Phalanx library, ECDSA, SHA-3, JSON, RLP and gob, the bit set, the network, the file system
  and the HTTP library are parameters. The date and the caller that the standard logger puts in front of a line, the
  contents of profiles, the printing of floats, and the field \<open>Threshold\<close> of the configuration, which nothing
  reads, are left out. A handler's log lines are not part of its model: \<open>Log\<close> says what a call writes, and
  only a fatal one changes what a handler does.
  Goroutines that block on a full channel are not modelled: a channel holds what is sent on it, except
  in \<open>Transport\<close>, \<open>Network\<close> and \<open>Message\<close>, where capacities matter.
\<close>

section \<open>One proposer per view\<close>

lemma processNewView_leader:
  assumes "processNewView e ans now r view = retG r'" and "proposedNo r' \<noteq> proposedNo r"
  shows "IsLeader (saf_elect (rpSafety r)) (saf_ID (rpSafety r)) view = retG True"
  using assms by (auto simp: processNewView_def elim!: bindG_RetE split: if_split_asm)

text \<open>
  C9: of the replicas of a system at most one proposes in a view, the one that the election finds as its
  leader: whichever protocols they run, two replicas that both make a proposal on entering the
  view are the same node.
\<close>
theorem one_proposer_per_view:
  assumes "election_wf el" and "saf_elect (rpSafety r1) = el" and "saf_elect (rpSafety r2) = el"
    and "election_member el (saf_ID (rpSafety r1))" and "election_member el (saf_ID (rpSafety r2))"
    and "processNewView e1 ans1 now1 r1 view = retG r1'" and "proposedNo r1' \<noteq> proposedNo r1"
    and "processNewView e2 ans2 now2 r2 view = retG r2'" and "proposedNo r2' \<noteq> proposedNo r2"
  shows "saf_ID (rpSafety r1) = saf_ID (rpSafety r2) \<and> FindLeaderFor el view = retG (saf_ID (rpSafety r1))"
proof -
  have "IsLeader el (saf_ID (rpSafety r1)) view = retG True" "IsLeader el (saf_ID (rpSafety r2)) view = retG True"
    using processNewView_leader [OF assms(6,7)] processNewView_leader [OF assms(8,9)] assms(2,3) by simp_all
  with assms(1,4,5) show ?thesis using elec.leader_unique elec.isLeader_iff_found by blast
qed

theorem one_proposer_per_view_witness:
  "FindLeaderFor (saf_elect (rpSafety sample_leader)) 1 = retG (saf_ID (rpSafety sample_leader))"
proof -
  obtain r' where r': "processNewView (sample_env 4 True) (\<lambda>_. None) 17 sample_leader 1 = retG r'"
    using sample_leader_proposes by blast
  have el: "saf_elect (rpSafety sample_leader) = StaticE (NewStatic ''1'')" "saf_ID (rpSafety sample_leader) = ''1''"
    by (simp_all add: sample_leader_def)
  then have p: "proposeBlock (sample_env 4 True) (\<lambda>_. None) 17 sample_leader 1 = retG r'"
    using r' by (simp add: processNewView_def Static_IsLeader_def Static_FindLeaderFor_def NewStatic_def)
  have "small_view 1" by (simp add: small_view_def is_i64_def)
  from proposeBlock_sends [OF sample_leader_wf this p] have "proposedNo r' \<noteq> proposedNo sample_leader" by auto
  with one_proposer_per_view [OF _ refl refl _ _ r' _ r'] el show ?thesis by simp
qed

section \<open>What the key table is worth\<close>

lemma verify_same_key:
  assumes "\<And>j. j \<in> set signers \<Longrightarrow> PubVerify e sig (IDToByte blockID) j = retG (True, None)"
  shows "verifyQuorum_loop e (replicate (length signers) sig) blockID signers = retG (True, None)"
  using assms by (induction signers) simp_all

text \<open>
  C16: with the keys that the server sets up, one node can forge a certificate: a signature of its own
  that verifies, repeated for every signer it wants to name, passes the verification of a quorum
  certificate, whichever nodes and however many it names.
\<close>
theorem one_node_forges_certificates:
  assumes "GetSignatureScheme c = ''ECDSA_P256''" and "gen_key G (replicate (gen_bytes G) (CHR 0x00)) = Inr (d, pub)"
    and "int (config_N c) < 2 ^ 63" and "SetKeys G c e = retG (e', None)"
    and "1 \<le> i" and "i \<le> int (config_N c)" and "PubVerify e' sig (IDToByte blockID) (NewNodeID i) = retG (True, None)"
    and "list_all (\<lambda>s. \<exists>j. 1 \<le> j \<and> j \<le> int (config_N c) \<and> s = NewNodeID j) signers"
  shows "VerifyQuorumSignature e' (replicate (length signers) sig) blockID signers = retG (True, None)"
proof -
  obtain k where "SetKeys G c e = retG (e\<lparr>keys := replicate (config_N c) (Some k),
      pubKeys := replicate (config_N c) (Some (priv_PublicKey k))\<rparr>, None)" using SetKeys_static [OF assms(1-3)] by blast
  with assms(4) have "pubKeys e' = replicate (config_N c) (Some (priv_PublicKey k))" by auto
  then have "PubVerify e' sig (IDToByte blockID) s = retG (True, None)" if "s \<in> set signers" for s
    using that assms(3,5-8) by (auto simp: PubVerify_def index_replicate list_all_iff pub_Verify_def)
  then show ?thesis unfolding VerifyQuorumSignature_def by (rule verify_same_key)
qed

theorem one_node_forges_certificates_witness:
  "\<exists>e'. SetKeys sample_generator (MakeDefaultConfig\<lparr>cfg_n := 4\<rparr>)
      \<lparr>keys = [], pubKeys = [], ecdsaSign = (\<lambda>d _. Some (d, 5)), ecdsaVerify = (\<lambda>_ _ r _. r = 1)\<rparr> = retG (e', None) \<and>
    VerifyQuorumSignature e' [[''1'', ''5''], [''1'', ''5''], [''1'', ''5'']] 9 [NewNodeID 2, NewNodeID 3, NewNodeID 4] = retG (True, None)"
proof -
  let ?c = "MakeDefaultConfig\<lparr>cfg_n := 4\<rparr>"
  let ?e = "\<lparr>keys = [], pubKeys = [], ecdsaSign = (\<lambda>d _. Some (d, 5)), ecdsaVerify = (\<lambda>_ _ r _. r = 1)\<rparr> :: crypto"
  have c: "GetSignatureScheme ?c = ''ECDSA_P256''" "int (config_N ?c) < 2 ^ 63" "config_N ?c = 4"
    "gen_key sample_generator (replicate (gen_bytes sample_generator) (CHR 0x00)) =
       Inr (foldl (\<lambda>n c. 256 * n + of_char c) 0 (replicate 40 (CHR 0x00)) + 1, 3, 4)"
    by (simp_all add: GetSignatureScheme_def MakeDefaultConfig_def config_N_def sample_generator_def)
  from SetKeys_static [OF c(1,4,2), of ?e] obtain k where
    k: "SetKeys sample_generator ?c ?e = retG (?e\<lparr>keys := replicate 4 (Some k), pubKeys := replicate 4 (Some (priv_PublicKey k))\<rparr>, None)"
    (is "_ = retG (?e', None)") using c(3) by auto
  have "big_SetString ''1'' = 1" by code_simp
  then have "PubVerify ?e' [''1'', ''5''] (IDToByte 9) (NewNodeID 1) = retG (True, None)"
    by (simp add: PubVerify_def index_replicate [of 1 4, simplified] pub_Verify_def ToECDSA_def)
  moreover have "list_all (\<lambda>s. \<exists>j. 1 \<le> j \<and> j \<le> int (config_N ?c) \<and> s = NewNodeID j) [NewNodeID 2, NewNodeID 3, NewNodeID 4]"
    using c(3) by (simp, intro conjI exI [of _ 2] exI [of _ 3] exI [of _ 4]; simp)
  ultimately have "VerifyQuorumSignature ?e' (replicate (length [NewNodeID 2, NewNodeID 3, NewNodeID 4]) [''1'', ''5'']) 9
      [NewNodeID 2, NewNodeID 3, NewNodeID 4] = retG (True, None)"
    using c(3) by (intro one_node_forges_certificates [OF c(1,4,2) k, of 1]) simp_all
  with k show ?thesis by (intro exI [of _ ?e']) (simp add: numeral_3_eq_3)
qed

end
